(* ===== verification/Prelude.thy ===== *)
theory Prelude
  imports Main "HOL-Library.Word" "HOL-Library.Monad_Syntax"
begin

text \<open>
  Shared vocabulary of the development: the C integer types of \<^verbatim>\<open>types.h\<close>, the
  byte-addressed memory of the machine, and the generic lemmas that several components use.

  A machine address is a \<open>32 word\<close> and the memory maps each address to a byte, so
  pointer arithmetic wraps exactly as it does on the i386. An access through NULL, a read or a
  write outside of an object and a loop that does not return are the value \<open>None\<close> of the
  option type; a theorem that a function returns is a theorem that its result is \<open>Some\<close>.
\<close>

unbundle bit_operations_syntax

section \<open>Types\<close>

type_synonym u8 = "8 word"
type_synonym u16 = "16 word"
type_synonym u32 = "32 word"
type_synonym memory = "u32 \<Rightarrow> u8"

text \<open>Collections of rewrite rules that the component proofs share.\<close>

named_theorems mem_simps \<open>reading memory after a write\<close>
named_theorems word_bounds \<open>unsigned readings of word arithmetic that does not wrap\<close>

abbreviation MB :: "nat \<Rightarrow> nat" where
  "MB n \<equiv> n * 1048576"

abbreviation KB :: "nat \<Rightarrow> nat" where
  "KB n \<equiv> n * 1024"

section \<open>Byte memory\<close>

definition bytes :: "memory \<Rightarrow> u32 \<Rightarrow> nat \<Rightarrow> u8 list" where
  "bytes m p n = map (\<lambda>i. m (p + of_nat i)) [0..<n]"

definition store_bytes :: "memory \<Rightarrow> u32 \<Rightarrow> u8 list \<Rightarrow> memory" where
  "store_bytes m p bs = (\<lambda>a. if unat (a - p) < length bs then bs ! unat (a - p) else m a)"

definition load16 :: "memory \<Rightarrow> u32 \<Rightarrow> u16" where
  "load16 m p = ucast (m p) OR push_bit 8 (ucast (m (p + 1)))"

definition load32 :: "memory \<Rightarrow> u32 \<Rightarrow> u32" where
  "load32 m p = ucast (m p) OR push_bit 8 (ucast (m (p + 1)))
     OR push_bit 16 (ucast (m (p + 2))) OR push_bit 24 (ucast (m (p + 3)))"

definition word_bytes :: "u32 \<Rightarrow> u8 list" where
  "word_bytes w = [ucast w, ucast (drop_bit 8 w), ucast (drop_bit 16 w), ucast (drop_bit 24 w)]"

definition store32 :: "memory \<Rightarrow> u32 \<Rightarrow> u32 \<Rightarrow> memory" where
  "store32 m p w = store_bytes m p (word_bytes w)"

text \<open>The addresses of an \<open>n\<close>-byte object at \<open>p\<close> (wrapping at the top of memory).\<close>

definition span :: "u32 \<Rightarrow> nat \<Rightarrow> u32 set" where
  "span p n = {a. unat (a - p) < n}"

lemma length_bytes [simp]: "length (bytes m p n) = n"
  by (simp add: bytes_def)

lemma nth_bytes [simp]: "i < n \<Longrightarrow> bytes m p n ! i = m (p + of_nat i)"
  by (simp add: bytes_def)

lemma bytes_0 [simp]: "bytes m p 0 = []"
  by (simp add: bytes_def)

lemma bytes_Suc: "bytes m p (Suc n) = m p # bytes m (p + 1) n"
  by (rule nth_equalityI) (auto simp: nth_Cons algebra_simps split: nat.split)

lemma bytes_append: "bytes m p (a + b) = bytes m p a @ bytes m (p + of_nat a) b"
  by (rule nth_equalityI) (auto simp: nth_append algebra_simps)

lemma bytes_cong: "(\<And>a. a \<in> span p n \<Longrightarrow> m a = m' a) \<Longrightarrow> n \<le> 2 ^ 32 \<Longrightarrow> bytes m p n = bytes m' p n"
  by (rule nth_equalityI) (auto simp: span_def unat_of_nat)

lemma store_bytes_Nil [simp]: "store_bytes m p [] = m"
  by (simp add: store_bytes_def)

lemma store_bytes_outside [mem_simps]: "a \<notin> span p (length bs) \<Longrightarrow> store_bytes m p bs a = m a"
  by (simp add: store_bytes_def span_def)

lemma store_bytes_at [mem_simps]:
  "i < length bs \<Longrightarrow> length bs \<le> 2 ^ 32 \<Longrightarrow> store_bytes m p bs (p + of_nat i) = bs ! i"
  by (simp add: store_bytes_def unat_of_nat)

lemma bytes_store_bytes [mem_simps]:
  "length bs \<le> 2 ^ 32 \<Longrightarrow> bytes (store_bytes m p bs) p (length bs) = bs"
  by (rule nth_equalityI) (simp_all add: store_bytes_at)

lemma bytes_store_bytes_disjoint [mem_simps]:
  "span q n \<inter> span p (length bs) = {} \<Longrightarrow> n \<le> 2 ^ 32 \<Longrightarrow>
   bytes (store_bytes m p bs) q n = bytes m q n"
  by (rule bytes_cong) (auto intro!: store_bytes_outside)

lemma store_bytes_Cons:
  assumes "length bs < 2 ^ 32"
  shows "store_bytes m p (b # bs) = store_bytes (m(p := b)) (p + 1) bs"
proof
  fix a
  consider "a = p" | "a \<noteq> p" "unat (a - p) = Suc (unat (a - (p + 1)))"
  proof (cases "a = p")
    case False
    then have "unat (a - p) \<noteq> 0" by (simp add: unat_eq_0)
    moreover have "a - (p + 1) = (a - p) - 1" by simp
    ultimately have "unat (a - (p + 1)) = unat (a - p) - 1"
      by (metis False right_minus_eq unat_minus_one)
    with \<open>unat (a - p) \<noteq> 0\<close> that False show ?thesis by simp
  qed
  then show "store_bytes m p (b # bs) a = store_bytes (m(p := b)) (p + 1) bs a"
  proof cases
    case 1
    have "unat (- 1 :: u32) = 2 ^ 32 - 1" by (simp add: unsigned_minus_1_eq_mask mask_eq_exp_minus_1)
    with assms 1 show ?thesis by (simp add: store_bytes_def)
  next
    case 2
    then show ?thesis by (simp add: store_bytes_def)
  qed
qed

lemma store_bytes_append:
  assumes "length xs + length ys \<le> 2 ^ 32"
  shows "store_bytes m p (xs @ ys) = store_bytes (store_bytes m p xs) (p + of_nat (length xs)) ys"
  using assms
proof (induction xs arbitrary: m p)
  case (Cons x xs)
  then show ?case by (simp add: store_bytes_Cons algebra_simps)
qed simp

lemma load32_bytes: "load32 m p = load32 m' p" if "bytes m p 4 = bytes m' p 4"
  using that by (simp add: bytes_def load32_def upt_rec numeral_eq_Suc)

lemma word_bytes_length [simp]: "length (word_bytes w) = 4"
  by (simp add: word_bytes_def)

lemma load32_store32 [mem_simps]: "load32 (store32 m p w) p = w"
proof -
  have u: "unat (1::u32) = 1" "unat (2::u32) = 2" "unat (3::u32) = 3" by simp_all
  have "load32 (store32 m p w) p = ucast (ucast w :: u8) OR push_bit 8 (ucast (ucast (drop_bit 8 w) :: u8))
     OR push_bit 16 (ucast (ucast (drop_bit 16 w) :: u8)) OR push_bit 24 (ucast (ucast (drop_bit 24 w) :: u8))"
    by (simp add: load32_def store32_def store_bytes_def word_bytes_def u)
  also have "\<dots> = w"
  proof (rule bit_word_eqI)
    fix n assume "n < LENGTH(32)"
    then consider "n < 8" | "8 \<le> n" "n < 16" | "16 \<le> n" "n < 24" | "24 \<le> n" "n < 32"
      by fastforce
    then show "bit ((ucast (ucast w :: u8) :: u32) OR push_bit 8 (ucast (ucast (drop_bit 8 w) :: u8))
     OR push_bit 16 (ucast (ucast (drop_bit 16 w) :: u8)) OR push_bit 24 (ucast (ucast (drop_bit 24 w) :: u8))) n
       = bit w n"
      by cases (auto simp: bit_or_iff bit_push_bit_iff bit_ucast_iff bit_drop_bit_eq)
  qed
  finally show ?thesis .
qed

lemma bit_u8_hi: "8 \<le> n \<Longrightarrow> \<not> bit (x :: u8) n"
  using bit_imp_le_length [of x n] by auto

lemma packed_bytes:
  fixes a b c d :: u8
  defines "w \<equiv> ucast a OR push_bit 8 (ucast b) OR push_bit 16 (ucast c) OR push_bit 24 (ucast d) :: u32"
  shows "(ucast w :: u8) = a" "(ucast (drop_bit 8 w) :: u8) = b"
    "(ucast (drop_bit 16 w) :: u8) = c" "(ucast (drop_bit 24 w) :: u8) = d"
  unfolding w_def
  by (rule bit_word_eqI,
      auto simp: bit_or_iff bit_push_bit_iff bit_ucast_iff bit_drop_bit_eq bit_u8_hi)+

lemma word_bytes_load32: "word_bytes (load32 m p) = bytes m p 4"
  unfolding word_bytes_def load32_def packed_bytes by (simp add: bytes_def upt_rec)

section \<open>Words\<close>

lemma unat_u32_less [word_bounds]: "unat (x :: u32) < 4294967296"
  using unsigned_less [of x] by simp

lemma unat_u32_le [word_bounds]: "unat (x :: u32) \<le> 4294967296"
  using unat_u32_less [of x] by simp

lemma word_Suc_minus_one: "(x :: u32) \<noteq> 0 \<Longrightarrow> unat x = Suc (unat (x - 1))"
  by (simp add: unat_minus_one unat_gt_0)

lemma unat_add_nowrap: "unat (x :: u32) + unat y < 4294967296 \<Longrightarrow> unat (x + y) = unat x + unat y"
  by (simp add: unat_word_ariths)

lemma unat_sub_nowrap: "(y :: u32) \<le> x \<Longrightarrow> unat (x - y) = unat x - unat y"
  by (rule unat_sub)

lemma unat_Suc_less: "(i :: u32) < n \<Longrightarrow> unat (i + 1) = Suc (unat i)"
  using unat_u32_less [of n] unat_add_nowrap [of i 1] by (simp add: word_less_nat_alt)

text \<open>The measure of a loop that counts a word up to a bound.\<close>

lemma count_up_less [termination_simp]: "(i :: u32) < n \<Longrightarrow> unat n - unat (i + 1) < unat n - unat i"
  by (simp add: unat_Suc_less word_less_nat_alt)

lemma count_up_induct [case_names step]:
  fixes i n :: u32
  assumes "\<And>i. (i < n \<Longrightarrow> P (i + 1)) \<Longrightarrow> P i"
  shows "P i"
proof (induction "unat n - unat i" arbitrary: i rule: less_induct)
  case less
  show ?case by (rule assms) (simp add: less count_up_less)
qed

lemma sint_small:
  assumes "unat (x :: u32) < 2147483648" shows "sint x = int (unat x)"
proof -
  have u: "uint x = int (unat x)" by simp
  have "uint x < 2147483648" unfolding u using assms by linarith
  moreover have "- (2 ^ 31) \<le> uint x" using order_trans [OF _ uint_ge_0 [of x], of "- (2 ^ 31)"] by simp
  ultimately show ?thesis using signed_take_bit_int_eq_self [of 31 "uint x"] by (simp add: sint_uint)
qed

lemma sless_small:
  assumes "unat (x :: u32) < 2147483648" shows "0 <s x \<longleftrightarrow> x \<noteq> 0"
proof -
  have "0 <s x \<longleftrightarrow> 0 < int (unat x)" unfolding word_sless_alt sint_small [OF assms] by simp
  then show ?thesis by (simp only: of_nat_0_less_iff unat_gt_0)
qed

lemma unat_of_nat_u32: "k < 4294967296 \<Longrightarrow> unat (of_nat k :: u32) = k"
  by (simp add: unat_of_nat)

section \<open>Searching lists\<close>

lemma find_map: "List.find P (map f xs) = map_option f (List.find (\<lambda>x. P (f x)) xs)"
  by (induction xs) auto

lemma find_split:
  assumes "List.find P xs = Some x"
  obtains ys zs where "xs = ys @ x # zs" "P x" "\<forall>y \<in> set ys. \<not> P y"
  using assms
proof (induction xs arbitrary: thesis)
  case (Cons y xs)
  show ?case
  proof (cases "P y")
    case True
    then show ?thesis using Cons.prems(1) [of "[]" xs] Cons.prems(2) by simp
  next
    case False
    then have "List.find P xs = Some x" using Cons.prems(2) by simp
    then obtain ys zs where "xs = ys @ x # zs" "P x" "\<forall>y \<in> set ys. \<not> P y" using Cons.IH by blast
    then show ?thesis using Cons.prems(1) [of "y # ys" zs] False by simp
  qed
qed simp

section \<open>Options\<close>

lemma bind_Some_iff: "Option.bind x f = Some y \<longleftrightarrow> (\<exists>z. x = Some z \<and> f z = Some y)"
  by (cases x) auto

end
