(* ===== verification/Lib_Memory.thy ===== *)
theory Lib_Memory
  imports Prelude
begin

text \<open>
  The memory routines of \<^verbatim>\<open>lib.c\<close>, which are inline assembly: \<open>memset\<close> and
  \<open>memcpy\<close> work bytewise until the destination is aligned to four bytes, then with
  \<^verbatim>\<open>rep stosl\<close> and \<^verbatim>\<open>rep movsl\<close>, then bytewise for the rest;
  \<open>memmove\<close> picks a direction and runs \<^verbatim>\<open>rep movsb\<close>. Each label of the
  assembly is one function on the registers it uses. The theorems say that every routine is
  one \<open>store_bytes\<close>, the reference the other components reason with.
\<close>

section \<open>memset\<close>

function memset_top :: "memory \<Rightarrow> u8 \<Rightarrow> u32 \<Rightarrow> u32 \<Rightarrow> memory \<times> u32 \<times> u32" where
  "memset_top m al edi ecx =
     (if ecx = 0 then (m, edi, ecx)
      else if edi AND 3 = 0 then (m, edi, ecx)
      else memset_top (m(edi := al)) al (edi + 1) (ecx - 1))"
  by pat_completeness auto
termination
  by (relation "measure (\<lambda>(m, al, edi, ecx). unat ecx)") (auto simp: unat_minus_one unat_gt_0)

function rep_stosl :: "memory \<Rightarrow> u32 \<Rightarrow> u32 \<Rightarrow> u32 \<Rightarrow> memory \<times> u32" where
  "rep_stosl m eax edi ecx =
     (if ecx = 0 then (m, edi) else rep_stosl (store32 m edi eax) eax (edi + 4) (ecx - 1))"
  by pat_completeness auto
termination
  by (relation "measure (\<lambda>(m, eax, edi, ecx). unat ecx)") (auto simp: unat_minus_one unat_gt_0)

function memset_bottom :: "memory \<Rightarrow> u8 \<Rightarrow> u32 \<Rightarrow> u32 \<Rightarrow> memory" where
  "memset_bottom m al edi edx =
     (if edx = 0 then m else memset_bottom (m(edi := al)) al (edi + 1) (edx - 1))"
  by pat_completeness auto
termination
  by (relation "measure (\<lambda>(m, al, edi, edx). unat edx)") (auto simp: unat_minus_one unat_gt_0)

text \<open>The fill pattern holds the byte four times.\<close>

definition dup_byte :: "u32 \<Rightarrow> u32" where
  "dup_byte c = push_bit 24 c OR push_bit 16 c OR push_bit 8 c OR c"

definition memset :: "memory \<Rightarrow> u32 \<Rightarrow> u32 \<Rightarrow> u32 \<Rightarrow> memory" where
  "memset m s c n =
     (let c = c AND 0xFF;
          eax = dup_byte c;
          al = ucast eax;
          (m, edi, ecx) = memset_top m al s n
      in if ecx = 0 then m
         else let edx = ecx AND 3;
                  (m, edi) = rep_stosl m eax edi (drop_bit 2 ecx)
              in memset_bottom m al edi edx)"

section \<open>memset_word and memset_dword\<close>

function rep_stosw :: "memory \<Rightarrow> u32 \<Rightarrow> u32 \<Rightarrow> u32 \<Rightarrow> memory" where
  "rep_stosw m eax edi ecx =
     (if ecx = 0 then m
      else rep_stosw (store_bytes m edi [ucast eax, ucast (drop_bit 8 eax)]) eax (edi + 2) (ecx - 1))"
  by pat_completeness auto
termination
  by (relation "measure (\<lambda>(m, eax, edi, ecx). unat ecx)") (auto simp: unat_minus_one unat_gt_0)

definition memset_word :: "memory \<Rightarrow> u32 \<Rightarrow> u32 \<Rightarrow> u32 \<Rightarrow> memory" where
  "memset_word m s c n = rep_stosw m c s n"

definition memset_dword :: "memory \<Rightarrow> u32 \<Rightarrow> u32 \<Rightarrow> u32 \<Rightarrow> memory" where
  "memset_dword m s c n = fst (rep_stosl m c s n)"

section \<open>memcpy\<close>

function memcpy_top :: "memory \<Rightarrow> u32 \<Rightarrow> u32 \<Rightarrow> u32 \<Rightarrow> memory \<times> u32 \<times> u32 \<times> u32" where
  "memcpy_top m edi esi ecx =
     (if ecx = 0 then (m, edi, esi, ecx)
      else if edi AND 3 = 0 then (m, edi, esi, ecx)
      else memcpy_top (m(edi := m esi)) (edi + 1) (esi + 1) (ecx - 1))"
  by pat_completeness auto
termination
  by (relation "measure (\<lambda>(m, edi, esi, ecx). unat ecx)") (auto simp: unat_minus_one unat_gt_0)

function rep_movsl :: "memory \<Rightarrow> u32 \<Rightarrow> u32 \<Rightarrow> u32 \<Rightarrow> memory \<times> u32 \<times> u32" where
  "rep_movsl m edi esi ecx =
     (if ecx = 0 then (m, edi, esi)
      else rep_movsl (store32 m edi (load32 m esi)) (edi + 4) (esi + 4) (ecx - 1))"
  by pat_completeness auto
termination
  by (relation "measure (\<lambda>(m, edi, esi, ecx). unat ecx)") (auto simp: unat_minus_one unat_gt_0)

function memcpy_bottom :: "memory \<Rightarrow> u32 \<Rightarrow> u32 \<Rightarrow> u32 \<Rightarrow> memory" where
  "memcpy_bottom m edi esi edx =
     (if edx = 0 then m else memcpy_bottom (m(edi := m esi)) (edi + 1) (esi + 1) (edx - 1))"
  by pat_completeness auto
termination
  by (relation "measure (\<lambda>(m, edi, esi, edx). unat edx)") (auto simp: unat_minus_one unat_gt_0)

definition memcpy :: "memory \<Rightarrow> u32 \<Rightarrow> u32 \<Rightarrow> u32 \<Rightarrow> memory" where
  "memcpy m dest src n =
     (let (m, edi, esi, ecx) = memcpy_top m dest src n
      in if ecx = 0 then m
         else let edx = ecx AND 3;
                  (m, edi, esi) = rep_movsl m edi esi (drop_bit 2 ecx)
              in memcpy_bottom m edi esi edx)"

section \<open>memmove\<close>

text \<open>
  \<^verbatim>\<open>rep movsb\<close> steps both index registers up or, with the direction flag set, down.
  The result carries the direction flag the routine leaves behind.
\<close>

function rep_movsb :: "bool \<Rightarrow> memory \<Rightarrow> u32 \<Rightarrow> u32 \<Rightarrow> u32 \<Rightarrow> memory" where
  "rep_movsb df m edi esi ecx =
     (if ecx = 0 then m
      else if df then rep_movsb df (m(edi := m esi)) (edi - 1) (esi - 1) (ecx - 1)
      else rep_movsb df (m(edi := m esi)) (edi + 1) (esi + 1) (ecx - 1))"
  by pat_completeness auto
termination
  by (relation "measure (\<lambda>(df, m, edi, esi, ecx). unat ecx)") (auto simp: unat_minus_one unat_gt_0)

definition memmove :: "memory \<Rightarrow> u32 \<Rightarrow> u32 \<Rightarrow> u32 \<Rightarrow> memory \<times> bool" where
  "memmove m dest src n =
     (if dest \<le> src then (rep_movsb False m dest src n, False)
      else (rep_movsb True m (dest + n - 1) (src + n - 1) n, True))"

lemmas loop_simps_del = memset_top.simps rep_stosl.simps memset_bottom.simps rep_stosw.simps
  memcpy_top.simps rep_movsl.simps memcpy_bottom.simps rep_movsb.simps

declare loop_simps_del [simp del]

section \<open>The fills\<close>

lemma fill_step:
  "a + b \<le> 2 ^ 32 \<Longrightarrow>
   store_bytes (store_bytes m p (replicate a c)) (p + of_nat a) (replicate b c) = store_bytes m p (replicate (a + b) c)"
  by (simp add: replicate_add store_bytes_append)

lemma store_bytes_single: "m(p := b) = store_bytes m p [b]"
  by (simp add: store_bytes_Cons)

text \<open>Induction over a counter register that is decremented to zero.\<close>

lemma counter_induct [case_names zero step]:
  fixes n :: u32
  assumes "P 0" "\<And>n. n \<noteq> 0 \<Longrightarrow> unat n = Suc (unat (n - 1)) \<Longrightarrow> P (n - 1) \<Longrightarrow> P n"
  shows "P n"
proof (induction "unat n" arbitrary: n)
  case 0
  with assms(1) show ?case by (simp add: unat_eq_0)
next
  case (Suc k)
  then have "n \<noteq> 0" by auto
  with Suc assms(2) [of n] word_Suc_minus_one [of n] show ?case by simp
qed

lemma memset_bottom_fill: "memset_bottom m c p n = store_bytes m p (replicate (unat n) c)"
proof (induction n arbitrary: m p rule: counter_induct)
  case zero
  show ?case by (subst memset_bottom.simps) simp
next
  case (step n)
  then show ?case
    by (subst memset_bottom.simps) (simp add: store_bytes_Cons unat_u32_less, simp add: fun_upd_def)
qed

lemma memset_top_fill:
  "\<exists>k. memset_top m c p n = (store_bytes m p (replicate (unat k) c), p + k, n - k) \<and> k \<le> n"
proof (induction n arbitrary: m p rule: counter_induct)
  case zero
  show ?case by (intro exI [of _ 0], subst memset_top.simps) simp
next
  case (step n)
  show ?case
  proof (cases "p AND 3 = 0")
    case True
    then show ?thesis by (intro exI [of _ 0], subst memset_top.simps) simp
  next
    case False
    from step obtain k where k: "k \<le> n - 1"
      "memset_top (m(p := c)) c (p + 1) (n - 1) =
         (store_bytes (m(p := c)) (p + 1) (replicate (unat k) c), p + 1 + k, n - 1 - k)"
      by blast
    from k(1) step(2) unat_u32_less [of n] have "unat (k + 1) = Suc (unat k)"
      by (subst unat_add_nowrap) (simp_all add: word_le_nat_alt)
    with step(1,2) k False show ?thesis
      by (intro exI [of _ "k + 1"], subst memset_top.simps)
         (simp add: store_bytes_Cons unat_u32_less word_le_nat_alt algebra_simps)
  qed
qed

lemma ucast_dup_byte:
  assumes "\<And>n. 8 \<le> n \<Longrightarrow> \<not> bit c n" and "k \<in> {0, 8, 16, 24}"
  shows "(ucast (drop_bit k (dup_byte c)) :: u8) = ucast c"
proof (rule bit_word_eqI)
  fix n assume "n < LENGTH(8)"
  then have n: "n < 8" by simp
  have no: "\<not> bit c (8 + n)" "\<not> bit c (16 + n)" "\<not> bit c (24 + n)" by (simp_all add: assms(1))
  from assms(2) n no show "bit (ucast (drop_bit k (dup_byte c)) :: u8) n = bit (ucast c :: u8) n"
    by (elim insertE emptyE)
       (simp_all add: dup_byte_def bit_or_iff bit_push_bit_iff bit_ucast_iff bit_drop_bit_eq)
qed

lemma word_bytes_dup: "word_bytes (dup_byte (c AND 0xFF)) = replicate 4 (ucast c)"
proof -
  have mask: "(255 :: u32) = mask 8" by (simp add: mask_eq_exp_minus_1)
  have hi: "\<not> bit (c AND 0xFF) n" if "8 \<le> n" for n
    using that by (simp add: mask bit_and_iff bit_mask_iff)
  have "(ucast (c AND 0xFF) :: u8) = ucast c"
    by (rule bit_word_eqI) (auto simp: mask bit_ucast_iff bit_and_iff bit_mask_iff)
  with ucast_dup_byte [OF hi, of 0] ucast_dup_byte [OF hi, of 8]
    ucast_dup_byte [OF hi, of 16] ucast_dup_byte [OF hi, of 24]
  show ?thesis by (simp add: word_bytes_def numeral_eq_Suc)
qed

lemma rep_stosl_fill:
  assumes eax: "word_bytes eax = replicate 4 c" and "4 * unat n \<le> 2 ^ 32"
  shows "rep_stosl m eax p n = (store_bytes m p (replicate (4 * unat n) c), p + 4 * n)"
  using assms(2)
proof (induction n arbitrary: m p rule: counter_induct)
  case zero
  show ?case by (subst rep_stosl.simps) simp
next
  case (step n)
  have "rep_stosl m eax p n = rep_stosl (store_bytes m p (replicate 4 c)) eax (p + 4) (n - 1)"
    using step(1) by (subst rep_stosl.simps) (simp add: store32_def eax)
  also have "\<dots> = (store_bytes (store_bytes m p (replicate 4 c)) (p + 4) (replicate (4 * unat (n - 1)) c), p + 4 + 4 * (n - 1))"
    using step by simp
  finally show ?case
    using fill_step [of 4 "4 * unat (n - 1)" m p c] step by (simp add: algebra_simps)
qed

lemma and_3_decomp: "unat n = 4 * unat (drop_bit 2 n) + unat (n AND 3)" for n :: u32
proof -
  have "n AND 3 = n mod 4"
    using take_bit_eq_mask [of 2 n] by (simp add: take_bit_eq_mod mask_eq_exp_minus_1)
  then show ?thesis
    by (simp add: drop_bit_eq_div unat_div unat_mod)
qed

lemma memset_fill: "memset m s c n = store_bytes m s (replicate (unat n) (ucast c))"
proof -
  let ?e = "dup_byte (c AND 0xFF)"
  have wb: "word_bytes ?e = replicate 4 (ucast c)" by (rule word_bytes_dup)
  then have al: "(ucast ?e :: u8) = ucast c" by (simp add: word_bytes_def numeral_eq_Suc)
  obtain k where k: "memset_top m (ucast c) s n = (store_bytes m s (replicate (unat k) (ucast c)), s + k, n - k)" "k \<le> n"
    using memset_top_fill by blast
  show ?thesis
  proof (cases "n - k = 0")
    case True
    with k show ?thesis by (simp add: memset_def Let_def al)
  next
    case False
    let ?q = "drop_bit 2 (n - k)" and ?r = "(n - k) AND 3"
    have split: "unat (n - k) = 4 * unat ?q + unat ?r" by (rule and_3_decomp)
    have total: "unat n = unat k + (4 * unat ?q + unat ?r)"
      using k(2) unat_sub_nowrap [OF k(2)] split by (simp add: word_le_nat_alt)
    have q: "of_nat (4 * unat ?q) = 4 * ?q" by simp
    have bound: "unat k + (4 * unat ?q + unat ?r) \<le> 2 ^ 32"
      using unat_u32_le [of n] total by simp
    from False k show ?thesis
      using fill_step [of "4 * unat ?q" "unat ?r" _ "s + k" "ucast c", unfolded q]
        fill_step [of "unat k" "4 * unat ?q + unat ?r" m s "ucast c"] bound
      by (simp add: memset_def Let_def al rep_stosl_fill [OF wb] memset_bottom_fill total)
  qed
qed

lemma rep_stosw_fill:
  assumes "2 * unat n \<le> 2 ^ 32"
  shows "rep_stosw m eax p n = store_bytes m p (concat (replicate (unat n) [ucast eax, ucast (drop_bit 8 eax)]))"
  using assms
proof (induction n arbitrary: m p rule: counter_induct)
  case zero
  show ?case by (subst rep_stosw.simps) simp
next
  case (step n)
  let ?b = "[ucast eax, ucast (drop_bit 8 eax)] :: u8 list"
  have len: "length (concat (replicate k ?b)) = 2 * k" for k by (induction k) simp_all
  have "rep_stosw m eax p n = rep_stosw (store_bytes m p ?b) eax (p + of_nat (length ?b)) (n - 1)"
    using step(1) by (subst rep_stosw.simps) simp
  also have "\<dots> = store_bytes (store_bytes m p ?b) (p + of_nat (length ?b)) (concat (replicate (unat (n - 1)) ?b))"
    using step by simp
  also have "\<dots> = store_bytes m p (?b @ concat (replicate (unat (n - 1)) ?b))"
    using step by (subst store_bytes_append) (simp_all only: len, simp_all)
  finally show ?case using step(2) by simp
qed

section \<open>The copies\<close>

text \<open>
  Copying \<open>a\<close> bytes and then \<open>b\<close> more is copying \<open>a + b\<close>, when no byte still to be
  read has been overwritten: the destination does not start inside the source.
\<close>

lemma copy_step:
  assumes "a + b \<le> unat (d - s)"
  shows "store_bytes (store_bytes m d (bytes m s a)) (d + of_nat a)
           (bytes (store_bytes m d (bytes m s a)) (s + of_nat a) b) = store_bytes m d (bytes m s (a + b))"
proof -
  have lim: "a + b < 4294967296" using assms unat_u32_less [of "d - s"] by linarith
  have "span (s + of_nat a) b \<inter> span d a = {}"
  proof (rule equals0I)
    fix x assume "x \<in> span (s + of_nat a) b \<inter> span d a"
    then have x: "unat (x - (s + of_nat a)) < b" "unat (x - d) < a" by (auto simp: span_def)
    define i where "i = x - (s + of_nat a)"
    have "x - s = of_nat a + i" by (simp add: i_def)
    moreover have "unat (of_nat a :: u32) = a" using lim by (simp add: unat_of_nat)
    ultimately have xs: "unat (x - s) = a + unat i"
      using x(1) lim unat_add_nowrap [of "of_nat a" i] by (simp add: i_def)
    have "x - s = (x - d) + (d - s)" by simp
    moreover have "unat (x - d) + unat (d - s) < 4294967296 \<Longrightarrow> unat (x - s) \<ge> unat (d - s)"
      using unat_add_nowrap [of "x - d" "d - s"] by simp
    moreover have "unat (x - s) < unat (d - s)" using xs x(1) assms by (simp add: i_def)
    moreover have "unat (x - d) + unat (d - s) \<ge> 4294967296 \<Longrightarrow>
        unat (x - s) = unat (x - d) + unat (d - s) - 4294967296"
      using x(2) lim unat_u32_less [of "d - s"] unat_u32_less [of "x - d"]
      by (subst \<open>x - s = (x - d) + (d - s)\<close>, subst unat_word_ariths, subst mod_if) simp
    ultimately show False using xs x(2) unat_u32_less [of "d - s"] by linarith
  qed
  then have "bytes (store_bytes m d (bytes m s a)) (s + of_nat a) b = bytes m (s + of_nat a) b"
    using lim by (intro bytes_store_bytes_disjoint) simp_all
  then show ?thesis using lim by (simp add: bytes_append store_bytes_append)
qed

lemma copy_one: "m(d := m s) = store_bytes m d (bytes m s 1)"
  by (simp add: bytes_Suc store_bytes_Cons)

lemma copy_advance: "(d + x) - (s + x) = d - (s :: u32)"
  by simp

lemma memcpy_bottom_copy:
  "unat n \<le> unat (d - s) \<Longrightarrow> memcpy_bottom m d s n = store_bytes m d (bytes m s (unat n))"
proof (induction n arbitrary: m d s rule: counter_induct)
  case zero
  show ?case by (subst memcpy_bottom.simps) simp
next
  case (step n)
  have "memcpy_bottom m d s n = memcpy_bottom (store_bytes m d (bytes m s 1)) (d + 1) (s + 1) (n - 1)"
    using step(1) by (subst memcpy_bottom.simps) (simp add: copy_one)
  also have "\<dots> = store_bytes m d (bytes m s (1 + unat (n - 1)))"
    using step copy_step [of 1 "unat (n - 1)" d s m] by simp
  finally show ?case using step(2) by simp
qed

lemma memcpy_top_copy:
  "unat n \<le> unat (d - s) \<Longrightarrow>
   \<exists>k. memcpy_top m d s n = (store_bytes m d (bytes m s (unat k)), d + k, s + k, n - k) \<and> k \<le> n"
proof (induction n arbitrary: m d s rule: counter_induct)
  case zero
  show ?case by (intro exI [of _ 0], subst memcpy_top.simps) simp
next
  case (step n)
  show ?case
  proof (cases "d AND 3 = 0")
    case True
    then show ?thesis by (intro exI [of _ 0], subst memcpy_top.simps) simp
  next
    case False
    let ?m = "store_bytes m d (bytes m s 1)"
    from step(2,4) have "unat (n - 1) \<le> unat ((d + 1) - (s + 1))" by simp
    then obtain k where k: "k \<le> n - 1"
      "memcpy_top ?m (d + 1) (s + 1) (n - 1) =
         (store_bytes ?m (d + 1) (bytes ?m (s + 1) (unat k)), d + 1 + k, s + 1 + k, n - 1 - k)"
      using step(3) by blast
    from k(1) step(2) unat_u32_less [of n] have k1: "unat (k + 1) = 1 + unat k"
      by (subst unat_add_nowrap) (simp_all add: word_le_nat_alt)
    from k(1) step(2) have le: "1 + unat k \<le> unat n" by (simp add: word_le_nat_alt)
    from step(1) False k have "memcpy_top m d s n =
        (store_bytes m d (bytes m s (1 + unat k)), d + (k + 1), s + (k + 1), n - (k + 1))"
      using copy_step [of 1 "unat k" d s m] le step.prems
      by (subst memcpy_top.simps) (simp add: copy_one algebra_simps)
    with k1 le show ?thesis by (intro exI [of _ "k + 1"]) (simp add: word_le_nat_alt)
  qed
qed

lemma rep_movsl_copy:
  "4 * unat n \<le> unat (d - s) \<Longrightarrow>
   rep_movsl m d s n = (store_bytes m d (bytes m s (4 * unat n)), d + 4 * n, s + 4 * n)"
proof (induction n arbitrary: m d s rule: counter_induct)
  case zero
  show ?case by (subst rep_movsl.simps) simp
next
  case (step n)
  have "rep_movsl m d s n = rep_movsl (store_bytes m d (bytes m s 4)) (d + 4) (s + 4) (n - 1)"
    using step(1) by (subst rep_movsl.simps) (simp add: store32_def word_bytes_load32)
  also have "\<dots> = (store_bytes m d (bytes m s (4 + 4 * unat (n - 1))), d + 4 + 4 * (n - 1), s + 4 + 4 * (n - 1))"
    using step copy_step [of 4 "4 * unat (n - 1)" d s m] by simp
  finally show ?case using step(2) by (simp add: algebra_simps)
qed

lemma memcpy_copy:
  assumes "unat n \<le> unat (dest - src)"
  shows "memcpy m dest src n = store_bytes m dest (bytes m src (unat n))"
proof -
  obtain k where k: "memcpy_top m dest src n =
      (store_bytes m dest (bytes m src (unat k)), dest + k, src + k, n - k)" "k \<le> n"
    using memcpy_top_copy [OF assms] by blast
  show ?thesis
  proof (cases "n - k = 0")
    case True
    with k show ?thesis by (simp add: memcpy_def)
  next
    case False
    let ?q = "drop_bit 2 (n - k)" and ?r = "(n - k) AND 3"
    let ?m = "store_bytes m dest (bytes m src (unat k))"
    have split: "unat (n - k) = 4 * unat ?q + unat ?r" by (rule and_3_decomp)
    have total: "unat n = unat k + (4 * unat ?q + unat ?r)"
      using k(2) unat_sub_nowrap [OF k(2)] split by (simp add: word_le_nat_alt)
    have q: "of_nat (4 * unat ?q) = 4 * ?q" by simp
    from False k have "memcpy m dest src n =
        store_bytes ?m (dest + k) (bytes ?m (src + k) (4 * unat ?q + unat ?r))"
      using copy_step [of "4 * unat ?q" "unat ?r" "dest + k" "src + k" ?m, unfolded q] assms total
      by (simp add: memcpy_def rep_movsl_copy memcpy_bottom_copy)
    also have "\<dots> = store_bytes m dest (bytes m src (unat n))"
      using copy_step [of "unat k" "4 * unat ?q + unat ?r" dest src m] assms total by simp
    finally show ?thesis .
  qed
qed

lemma rep_movsb_up:
  "unat n \<le> unat (d - s) \<Longrightarrow> rep_movsb False m d s n = store_bytes m d (bytes m s (unat n))"
proof (induction n arbitrary: m d s rule: counter_induct)
  case zero
  show ?case by (subst rep_movsb.simps) simp
next
  case (step n)
  have "rep_movsb False m d s n = rep_movsb False (store_bytes m d (bytes m s 1)) (d + 1) (s + 1) (n - 1)"
    using step(1) by (subst rep_movsb.simps) (simp add: copy_one)
  also have "\<dots> = store_bytes m d (bytes m s (1 + unat (n - 1)))"
    using step copy_step [of 1 "unat (n - 1)" d s m] by simp
  finally show ?case using step(2) by simp
qed

lemma rep_movsb_same: "rep_movsb False m d d n = m"
proof (induction n arbitrary: d rule: counter_induct)
  case zero
  show ?case by (subst rep_movsb.simps) simp
next
  case (step n)
  then show ?case by (subst rep_movsb.simps) simp
qed

lemma store_bytes_self: "store_bytes m d (bytes m d n) = m" if "n \<le> 4294967296"
  by (rule ext) (simp add: store_bytes_def)

lemma store_bytes_snoc:
  assumes "length bs < 4294967296"
  shows "store_bytes (m(d + of_nat (length bs) := b)) d bs = store_bytes m d (bs @ [b])"
proof
  fix a
  have "a = d + of_nat (length bs) \<longleftrightarrow> unat (a - d) = length bs"
  proof
    assume "unat (a - d) = length bs"
    then have "of_nat (unat (a - d)) = (of_nat (length bs) :: u32)" by simp
    then show "a = d + of_nat (length bs)" by (simp add: algebra_simps)
  qed (use assms in \<open>simp add: unat_of_nat\<close>)
  then show "store_bytes (m(d + of_nat (length bs) := b)) d bs a = store_bytes m d (bs @ [b]) a"
    by (auto simp: store_bytes_def nth_append)
qed

lemma rep_movsb_down:
  "unat n \<le> unat (s - d) \<Longrightarrow>
   rep_movsb True m (d + n - 1) (s + n - 1) n = store_bytes m d (bytes m s (unat n))"
proof (induction n arbitrary: m rule: counter_induct)
  case zero
  show ?case by (subst rep_movsb.simps) simp
next
  case (step n)
  let ?k = "unat (n - 1)" and ?b = "m (s + n - 1)"
  let ?m = "m(d + n - 1 := ?b)"
  have lim: "?k < 4294967296" by (rule unat_u32_less)
  have k: "of_nat ?k = n - 1" by simp
  have "d + n - 1 \<notin> span s ?k"
  proof
    assume "d + n - 1 \<in> span s ?k"
    then have "unat (d + n - 1 - s) < ?k" by (simp add: span_def)
    moreover have "n - 1 = (d + n - 1 - s) + (s - d)" by simp
    moreover have "unat (d + n - 1 - s) + unat (s - d) < 4294967296 \<Longrightarrow> unat (n - 1) \<ge> unat (s - d)"
      using unat_add_nowrap [of "d + n - 1 - s" "s - d"] by simp
    moreover have "unat (d + n - 1 - s) + unat (s - d) \<ge> 4294967296 \<Longrightarrow>
        ?k = unat (d + n - 1 - s) + unat (s - d) - 4294967296"
      using unat_u32_less [of "d + n - 1 - s"] unat_u32_less [of "s - d"]
      by (subst \<open>n - 1 = (d + n - 1 - s) + (s - d)\<close>, subst unat_word_ariths, subst mod_if) simp
    ultimately show False using step(2,4) unat_u32_less [of "s - d"] by linarith
  qed
  then have same: "bytes ?m s ?k = bytes m s ?k"
    using lim by (intro bytes_cong) auto
  have "rep_movsb True m (d + n - 1) (s + n - 1) n = rep_movsb True ?m (d + (n - 1) - 1) (s + (n - 1) - 1) (n - 1)"
    using step(1) by (subst rep_movsb.simps) (simp add: algebra_simps)
  also have "\<dots> = store_bytes ?m d (bytes m s ?k)" using step same by simp
  also have "\<dots> = store_bytes m d (bytes m s ?k @ [?b])"
    using store_bytes_snoc [of "bytes m s ?k" m d ?b] lim k by (simp add: algebra_simps)
  also have "bytes m s ?k @ [?b] = bytes m s (unat n)"
    using step(2) bytes_append [of m s ?k 1] k by (simp add: bytes_Suc algebra_simps)
  finally show ?case .
qed

section \<open>Properties\<close>

text \<open>
  \<open>memset\<close>: for every address, fill value and count, the byte loop, the
  \<^verbatim>\<open>rep stosl\<close> and the tail loop together write exactly the \<open>n\<close> bytes from
  \<open>s\<close> on with the low byte of \<open>c\<close> and nothing else.
\<close>

theorem memset_correct: "memset m s c n = store_bytes m s (replicate (unat n) (ucast c))"
  by (rule memset_fill)

text \<open>
  C33. \<open>memcpy\<close>: when the destination does not start inside the source, the aligned copy
  loop moves the \<open>n\<close> source bytes to the destination and changes nothing else.
\<close>

theorem memcpy_correct:
  assumes "unat n \<le> unat (dest - src)"
  shows "memcpy m dest src n = store_bytes m dest (bytes m src (unat n))"
  using assms by (rule memcpy_copy)

text \<open>The witness copies three bytes between distinct buffers.\<close>

lemma memcpy_correct_witness:
  "unat (3 :: u32) \<le> unat ((0x2001 :: u32) - 0x1000) \<and>
   memcpy (\<lambda>a. ucast a) 0x2001 0x1000 3 = store_bytes (\<lambda>a. ucast a) 0x2001 [0, 1, 2]"
proof -
  have "unat (3 :: u32) \<le> unat ((0x2001 :: u32) - 0x1000)" by simp
  moreover have "bytes (\<lambda>a. ucast a) 0x1000 (unat (3 :: u32)) = [0, 1, 2 :: u8]"
    by (simp add: bytes_def upt_rec)
  ultimately show ?thesis using memcpy_correct [where n = 3 and dest = "0x2001" and src = "0x1000" and m = "\<lambda>a. ucast a"] by simp
qed

text \<open>
  \<open>memmove\<close>: for objects that do not wrap around the address space the bytes
  arrive intact however source and destination overlap; the direction flag is left set exactly
  when the copy ran downwards.
\<close>

theorem memmove_correct:
  assumes "unat src + unat n \<le> 2 ^ 32" and "unat dest + unat n \<le> 2 ^ 32"
  shows "memmove m dest src n = (store_bytes m dest (bytes m src (unat n)), src < dest)"
proof -
  have gap: "unat n \<le> unat (x - y)" if "x < y" "unat y + unat n \<le> 2 ^ 32" for x y :: u32
  proof -
    from that(1) have "unat x < unat y" by (simp add: word_less_nat_alt)
    then have "unat (x - y) = unat x + 2 ^ 32 - unat y"
      by (simp add: unat_sub_if_size word_le_nat_alt word_size)
    with that(2) \<open>unat x < unat y\<close> show ?thesis by simp
  qed
  consider "dest = src" | "dest < src" | "src < dest" by fastforce
  then show ?thesis
  proof cases
    case 1
    then show ?thesis by (simp add: memmove_def rep_movsb_same store_bytes_self unat_u32_le)
  next
    case 2
    with gap [OF 2] assms(1) show ?thesis by (auto simp: memmove_def rep_movsb_up)
  next
    case 3
    with gap [OF 3] assms(2) show ?thesis by (auto simp: memmove_def rep_movsb_down)
  qed
qed

lemma memmove_correct_witness:
  "unat (0x1000 :: u32) + unat (3 :: u32) \<le> 2 ^ 32 \<and> unat (0x1001 :: u32) + unat (3 :: u32) \<le> 2 ^ 32 \<and>
   memmove (\<lambda>a. ucast a) 0x1001 0x1000 3 = (store_bytes (\<lambda>a. ucast a) 0x1001 [0, 1, 2], True)"
proof -
  have "bytes (\<lambda>a. ucast a) 0x1000 (unat (3 :: u32)) = [0, 1, 2 :: u8]"
    by (simp add: bytes_def upt_rec)
  then show ?thesis
    using memmove_correct [where n = 3 and dest = "0x1001" and src = "0x1000" and m = "\<lambda>a. ucast a"] by simp
qed

end
