(* ===== verification/Lib_String.thy ===== *)
theory Lib_String
  imports Lib_Memory
begin

text \<open>
  The string functions of \<^verbatim>\<open>lib.c\<close>. A function that only reads takes its strings as
  readers, functions from an offset to a byte (\<open>at m p\<close> reads the memory from the pointer
  \<open>p\<close> on); a function that writes works on the memory. A loop with no bound of its own is a
  partial function, which is \<open>None\<close> when it does not end.
\<close>

section \<open>Definitions\<close>

type_synonym reader = "u32 \<Rightarrow> u8"

definition at :: "memory \<Rightarrow> u32 \<Rightarrow> reader" where
  "at m p = (\<lambda>i. m (p + i))"

partial_function (option) strlen_from :: "reader \<Rightarrow> u32 \<Rightarrow> u32 option" where
  "strlen_from s len = (if s len \<noteq> 0 then strlen_from s (len + 1) else Some len)"

definition strlen :: "reader \<Rightarrow> u32 option" where
  "strlen s = strlen_from s 0"

text \<open>\<^verbatim>\<open>strrev\<close>; its indices are 32-bit signed integers.\<close>

function strrev_loop :: "u32 \<Rightarrow> int \<Rightarrow> int \<Rightarrow> memory \<Rightarrow> memory" where
  "strrev_loop s beg fin m =
     (if beg < fin then
        let tmp = m (s + of_int fin);
            m1 = m(s + of_int fin := m (s + of_int beg));
            m2 = m1(s + of_int beg := tmp)
        in strrev_loop s (beg + 1) (fin - 1) m2
      else m)"
  by pat_completeness auto
termination by (relation "measure (\<lambda>(s, beg, fin, m). nat (fin - beg))") auto

declare strrev_loop.simps [simp del]

definition strrev :: "u32 \<Rightarrow> memory \<Rightarrow> memory option" where
  "strrev s m = do {
     len \<leftarrow> strlen (at m s);
     Some (strrev_loop s 0 (sint (len - 1)) m)
   }"

text \<open>
  \<^verbatim>\<open>itoa\<close>: a zero radix traps in the division, a radix of 1 never ends, and a digit past
  the end of \<open>lookup\<close> reads outside of that array.
\<close>

definition lookup_digits :: "u8 list" where
  "lookup_digits = map (\<lambda>i. if i < 10 then 0x30 + of_nat i else 0x41 + of_nat (i - 10)) [0..<36] @ [0]"

partial_function (option) itoa_loop :: "u32 \<Rightarrow> u32 \<Rightarrow> u32 \<Rightarrow> memory \<Rightarrow> (u32 \<times> memory) option" where
  "itoa_loop newval newbuf radix m =
     (if newval = 0 then Some (newbuf, m)
      else if radix = 0 then None
      else if 37 \<le> unat (newval mod radix) then None
      else itoa_loop (newval div radix) (newbuf + 1) radix
             (m(newbuf := lookup_digits ! unat (newval mod radix))))"

definition itoa :: "u32 \<Rightarrow> u32 \<Rightarrow> u32 \<Rightarrow> memory \<Rightarrow> memory option" where
  "itoa val buf radix m =
     (if val = 0 then Some (m(buf := 0x30, buf + 1 := 0))
      else do {
        (newbuf, m1) \<leftarrow> itoa_loop val buf radix m;
        strrev buf (m1(newbuf := 0))
      })"

function strlcat_end :: "memory \<Rightarrow> u32 \<Rightarrow> u32 \<Rightarrow> u32 \<Rightarrow> u32" where
  "strlcat_end m dest n i =
     (if i < n then (if m (dest + i) = 0 then i else strlcat_end m dest n (i + 1)) else i)"
  by pat_completeness auto
termination
  by (relation "measure (\<lambda>(m, dest, n, i). unat n - unat i)") (auto simp: count_up_less)

function strlcat_copy :: "memory \<Rightarrow> u32 \<Rightarrow> u32 \<Rightarrow> u32 \<Rightarrow> u32 \<Rightarrow> memory \<times> u32" where
  "strlcat_copy m dest src n i =
     (if i < n then
        (if m src \<noteq> 0 then strlcat_copy (m(dest + i := m src)) dest (src + 1) n (i + 1) else (m, i))
      else (m, i))"
  by pat_completeness auto
termination
  by (relation "measure (\<lambda>(m, dest, src, n, i). unat n - unat i)") (auto simp: count_up_less)

definition strlcat :: "u32 \<Rightarrow> u32 \<Rightarrow> u32 \<Rightarrow> memory \<Rightarrow> memory \<times> u32" where
  "strlcat dest src n m =
     (let (m1, i) = strlcat_copy m dest src n (strlcat_end m dest n 0)
      in (if i < n then m1(dest + i := 0) else m1, i))"

function strncmp_from :: "reader \<Rightarrow> reader \<Rightarrow> u32 \<Rightarrow> u32 \<Rightarrow> int" where
  "strncmp_from s1 s2 n i =
     (if i < n then
        (if s1 i \<noteq> s2 i \<or> s1 i = 0 then sint (s1 i) - sint (s2 i) else strncmp_from s1 s2 n (i + 1))
      else 0)"
  by pat_completeness auto
termination
  by (relation "measure (\<lambda>(s1, s2, n, i). unat n - unat i)") (auto simp: count_up_less)

definition strncmp :: "reader \<Rightarrow> reader \<Rightarrow> u32 \<Rightarrow> int" where
  "strncmp s1 s2 n = strncmp_from s1 s2 n 0"

function strcmp_from :: "reader \<Rightarrow> reader \<Rightarrow> int \<Rightarrow> int \<Rightarrow> int" where
  "strcmp_from s1 s2 n i =
     (if i < n then (if s1 (of_int i) \<noteq> s2 (of_int i) then i else strcmp_from s1 s2 n (i + 1)) else - 1)"
  by pat_completeness auto
termination by (relation "measure (\<lambda>(s1, s2, n, i). nat (n - i))") auto

definition strcmp :: "reader \<Rightarrow> reader \<Rightarrow> int option" where
  "strcmp s1 s2 = do {
     l1 \<leftarrow> strlen s1;
     l2 \<leftarrow> strlen s2;
     let n1 = sint l1;
     let n2 = sint l2;
     Some (strcmp_from s1 s2 (if n1 \<ge> n2 then n1 else n2) 0)
   }"

function substr_from :: "reader \<Rightarrow> reader \<Rightarrow> int \<Rightarrow> int \<Rightarrow> int" where
  "substr_from s1 s2 n i =
     (if i < n then (if s1 (of_int i) \<noteq> s2 (of_int i) then - 1 else substr_from s1 s2 n (i + 1)) else 1)"
  by pat_completeness auto
termination by (relation "measure (\<lambda>(s1, s2, n, i). nat (n - i))") auto

definition substr :: "reader \<Rightarrow> reader \<Rightarrow> int option" where
  "substr s1 s2 = do { n \<leftarrow> strlen s1; Some (substr_from s1 s2 (sint n) 0) }"

partial_function (option) strcpy_from :: "u32 \<Rightarrow> u32 \<Rightarrow> u32 \<Rightarrow> memory \<Rightarrow> memory option" where
  "strcpy_from dest src i m =
     (if m (src + i) \<noteq> 0 then strcpy_from dest src (i + 1) (m(dest + i := m (src + i)))
      else Some (m(dest + i := 0)))"

definition strcpy :: "u32 \<Rightarrow> u32 \<Rightarrow> memory \<Rightarrow> memory option" where
  "strcpy dest src m = strcpy_from dest src 0 m"

function strncpy_copy :: "u32 \<Rightarrow> u32 \<Rightarrow> u32 \<Rightarrow> u32 \<Rightarrow> memory \<Rightarrow> u32 \<times> memory" where
  "strncpy_copy dest src n i m =
     (if m (src + i) \<noteq> 0 \<and> i < n
      then strncpy_copy dest src n (i + 1) (m(dest + i := m (src + i)))
      else (i, m))"
  by pat_completeness auto
termination
  by (relation "measure (\<lambda>(dest, src, n, i, m). unat n - unat i)") (auto simp: count_up_less)

function strncpy_pad :: "u32 \<Rightarrow> u32 \<Rightarrow> u32 \<Rightarrow> memory \<Rightarrow> memory" where
  "strncpy_pad dest n i m = (if i < n then strncpy_pad dest n (i + 1) (m(dest + i := 0)) else m)"
  by pat_completeness auto
termination
  by (relation "measure (\<lambda>(dest, n, i, m). unat n - unat i)") (auto simp: count_up_less)

definition strncpy :: "u32 \<Rightarrow> u32 \<Rightarrow> u32 \<Rightarrow> memory \<Rightarrow> memory" where
  "strncpy dest src n m = (let (i, m1) = strncpy_copy dest src n 0 m in strncpy_pad dest n i m1)"

text \<open>\<open>strncpy\<close> from a string that is kept outside of the byte memory, such as a field of a record.\<close>

function strncpy_copy_from :: "reader \<Rightarrow> u32 \<Rightarrow> u32 \<Rightarrow> u32 \<Rightarrow> memory \<Rightarrow> u32 \<times> memory" where
  "strncpy_copy_from src dest n i m =
     (if src i \<noteq> 0 \<and> i < n
      then strncpy_copy_from src dest n (i + 1) (m(dest + i := src i))
      else (i, m))"
  by pat_completeness auto
termination
  by (relation "measure (\<lambda>(src, dest, n, i, m). unat n - unat i)") (auto simp: count_up_less)

definition strncpy_from :: "reader \<Rightarrow> u32 \<Rightarrow> u32 \<Rightarrow> memory \<Rightarrow> memory" where
  "strncpy_from src dest n m = (let (i, m1) = strncpy_copy_from src dest n 0 m in strncpy_pad dest n i m1)"

declare strncpy_copy_from.simps [simp del]

declare strlcat_end.simps [simp del] strlcat_copy.simps [simp del] strncmp_from.simps [simp del]
  strcmp_from.simps [simp del] substr_from.simps [simp del] strncpy_copy.simps [simp del] strncpy_pad.simps [simp del]

section \<open>Strings\<close>

text \<open>
  \<open>str r bs\<close>: the reader holds the bytes \<open>bs\<close> and then a NUL. \<open>upto n r\<close>:
  the string as a function bounded by \<open>n\<close> sees it.
\<close>

definition str :: "reader \<Rightarrow> u8 list \<Rightarrow> bool" where
  "str r bs \<longleftrightarrow> (\<forall>i < length bs. r (of_nat i) = bs ! i) \<and> r (of_nat (length bs)) = 0 \<and>
     0 \<notin> set bs \<and> length bs < 2 ^ 31"

definition chunk :: "reader \<Rightarrow> nat \<Rightarrow> nat \<Rightarrow> u8 list" where
  "chunk r i n = takeWhile (\<lambda>b. b \<noteq> 0) (map (\<lambda>k. r (of_nat k)) [i..<n])"

abbreviation upto_nul :: "nat \<Rightarrow> reader \<Rightarrow> u8 list" where
  "upto_nul n r \<equiv> chunk r 0 n"

lemma chunk_simps:
  "n \<le> i \<Longrightarrow> chunk r i n = []"
  "i < n \<Longrightarrow> chunk r i n = (if r (of_nat i) = 0 then [] else r (of_nat i) # chunk r (Suc i) n)"
  by (simp_all add: chunk_def upt_conv_Cons)

lemma length_chunk: "length (chunk r i n) \<le> n - i"
  using length_takeWhile_le [of "\<lambda>b. b \<noteq> 0" "map (\<lambda>k. r (of_nat k)) [i..<n]"] by (simp add: chunk_def)

lemma chunk_cong: "(\<And>k. i \<le> k \<Longrightarrow> k < n \<Longrightarrow> r (of_nat k) = r' (of_nat k)) \<Longrightarrow> chunk r i n = chunk r' i n"
  unfolding chunk_def by (rule arg_cong [where f = "takeWhile (\<lambda>b. b \<noteq> 0)"]) simp

lemma upto_nul_str:
  assumes "str r bs" "length bs \<le> n" shows "upto_nul n r = bs"
proof -
  have l: "length bs + (n - length bs) = n" using assms(2) by simp
  have "[0..<n] = [0..<length bs] @ [length bs..<n]"
    using upt_add_eq_append [of 0 "length bs" "n - length bs"] l by simp
  moreover have "map (\<lambda>k. r (of_nat k)) [0..<length bs] = bs"
    using assms(1) by (intro nth_equalityI) (auto simp: str_def)
  moreover have "takeWhile (\<lambda>b. b \<noteq> 0) (map (\<lambda>k. r (of_nat k)) [length bs..<n]) = []"
    using assms by (cases "length bs < n") (auto simp: str_def upt_conv_Cons)
  moreover have "takeWhile (\<lambda>b. b \<noteq> 0) (bs @ ys) = bs @ takeWhile (\<lambda>b. b \<noteq> 0) ys" for ys
    using assms(1) by (intro takeWhile_append2) (auto simp: str_def)
  ultimately show ?thesis by (simp add: chunk_def)
qed

lemma upto_nul_take:
  assumes "str r bs" shows "upto_nul n r = take n bs"
proof (cases "length bs \<le> n")
  case True
  then show ?thesis using upto_nul_str [OF assms] by simp
next
  case False
  then have "map (\<lambda>k. r (of_nat k)) [0..<n] = take n bs" using assms by (intro nth_equalityI) (simp_all add: str_def)
  moreover have "0 \<notin> set (take n bs)" using assms by (auto simp: str_def dest: in_set_takeD)
  ultimately show ?thesis by (auto simp: chunk_def takeWhile_eq_all_conv)
qed

lemma strlen_str:
  assumes "str r bs" shows "strlen r = Some (of_nat (length bs))"
proof -
  have "strlen_from r (of_nat j) = Some (of_nat (length bs))" if "j \<le> length bs" for j
    using that
  proof (induction j rule: inc_induct)
    case base
    then show ?case using assms by (subst strlen_from.simps) (simp add: str_def)
  next
    case (step j)
    then have "r (of_nat j) \<noteq> 0" using assms nth_mem [of j bs] by (metis str_def)
    with step show ?case by (subst strlen_from.simps) (simp add: add.commute)
  qed
  from this [of 0] show ?thesis by (simp add: strlen_def)
qed

lemma sint_u8_eq: "sint (a :: u8) = sint b \<longleftrightarrow> a = b" "sint a = 0 \<longleftrightarrow> a = 0"
  using signed_word_eqI [of a b] signed_word_eqI [of a 0] by auto

lemma strncmp_from_zero:
  "strncmp_from r1 r2 n i = 0 \<longleftrightarrow> chunk r1 (unat i) (unat n) = chunk r2 (unat i) (unat n)"
proof (induction r1 r2 n i rule: strncmp_from.induct)
  case (1 r1 r2 n i)
  show ?case
  proof (cases "i < n")
    case True
    then have "unat i < unat n" "unat (i + 1) = Suc (unat i)" by (simp_all add: word_less_nat_alt unat_Suc_less)
    with 1 True show ?thesis
      by (subst strncmp_from.simps) (auto simp: chunk_simps sint_u8_eq)
  next
    case False
    then show ?thesis by (subst strncmp_from.simps) (simp add: chunk_simps word_less_nat_alt)
  qed
qed

lemma strncmp_zero: "strncmp r1 r2 n = 0 \<longleftrightarrow> upto_nul (unat n) r1 = upto_nul (unat n) r2"
  by (simp add: strncmp_def strncmp_from_zero)

text \<open>\<open>strncpy\<close> into a buffer that does not overlap the source.\<close>

definition far :: "u32 \<Rightarrow> u32 \<Rightarrow> nat \<Rightarrow> bool" where
  "far p q n \<longleftrightarrow> span p n \<inter> span q n = {}"

lemma in_span: "i < n \<Longrightarrow> n \<le> 2 ^ 32 \<Longrightarrow> p + of_nat i \<in> span p n"
  by (simp add: span_def unat_of_nat)

lemma take_bytes: "e \<le> n \<Longrightarrow> take e (bytes m p n) = bytes m p e"
  by (simp add: bytes_def take_map)

lemma span_tail:
  assumes "e \<le> n" "n < 2 ^ 31" "a \<in> span (p + of_nat e) (n - e)"
  shows "a \<in> span p n" "e \<le> unat (a - p)"
proof -
  have u: "unat (a - p - of_nat e) < n - e" using assms(3) by (simp add: span_def algebra_simps)
  have "unat (a - p - of_nat e + of_nat e) = unat (a - p - of_nat e) + e"
    using u assms(1,2) unat_add_nowrap [of "a - p - of_nat e" "of_nat e"] unat_of_nat_u32 [of e] by simp
  then show "a \<in> span p n" "e \<le> unat (a - p)" using u by (simp_all add: span_def)
qed

lemma farI:
  assumes "n \<le> unat (p - q)" "n \<le> unat (q - p)" shows "far p q n"
proof -
  have False if "unat (a - p) < n" "unat (a - q) < n" for a
  proof (cases "a - p \<le> a - q")
    case True
    then have "unat ((a - q) - (a - p)) = unat (a - q) - unat (a - p)" by (rule unat_sub)
    with that assms(1) show False by simp
  next
    case False
    then have "unat ((a - p) - (a - q)) = unat (a - p) - unat (a - q)" by (intro unat_sub) simp
    with that assms(2) show False by simp
  qed
  then show ?thesis by (auto simp: far_def span_def)
qed

lemma far_neq: "far p q n \<Longrightarrow> i < n \<Longrightarrow> j < n \<Longrightarrow> n \<le> 2 ^ 32 \<Longrightarrow> p + of_nat i \<noteq> q + of_nat j"
  using in_span [of i n p] in_span [of j n q] unfolding far_def by auto

lemma far_neq_word: "far p q (unat n) \<Longrightarrow> i < n \<Longrightarrow> j < unat n \<Longrightarrow> p + i \<noteq> q + of_nat j"
  using far_neq [of p q "unat n" "unat i" j] unat_u32_le [of n] by (simp add: word_less_nat_alt)

lemma strncpy_copy_bytes:
  assumes "far dest src (unat n)"
  shows "strncpy_copy dest src n i m =
    (i + of_nat (length (chunk (at m src) (unat i) (unat n))),
     store_bytes m (dest + i) (chunk (at m src) (unat i) (unat n)))"
proof (induction i arbitrary: m rule: count_up_induct [of n])
  case (step i)
  show ?case
  proof (cases "m (src + i) \<noteq> 0 \<and> i < n")
    case True
    let ?m = "m(dest + i := m (src + i))"
    have u: "unat i < unat n" "unat (i + 1) = Suc (unat i)"
      using True by (auto simp: word_less_nat_alt [symmetric] unat_Suc_less)
    have c: "chunk (at m src) (unat i) (unat n) = m (src + i) # chunk (at m src) (Suc (unat i)) (unat n)"
      using True u by (simp add: chunk_simps at_def)
    have "chunk (at ?m src) (Suc (unat i)) (unat n) = chunk (at m src) (Suc (unat i)) (unat n)"
      using True far_neq_word [OF assms, of i] by (intro chunk_cong) (force simp: at_def)
    moreover have "length (chunk (at m src) (Suc (unat i)) (unat n)) < 2 ^ 32"
      using length_chunk [of "at m src" "Suc (unat i)" "unat n"] unat_u32_less [of n] by simp
    ultimately show ?thesis using step True u
      by (subst strncpy_copy.simps) (simp add: c store_bytes_Cons algebra_simps)
  next
    case False
    then have "chunk (at m src) (unat i) (unat n) = []"
      by (cases "i < n") (auto simp: chunk_simps at_def word_less_nat_alt)
    then show ?thesis using False by (subst strncpy_copy.simps) auto
  qed
qed

lemma strncpy_pad_bytes:
  "i \<le> n \<Longrightarrow> strncpy_pad dest n i m = store_bytes m (dest + i) (replicate (unat (n - i)) 0)"
proof (induction i arbitrary: m rule: count_up_induct [of n])
  case (step i)
  show ?case
  proof (cases "i < n")
    case True
    have "unat (n - i) = Suc (unat (n - (i + 1)))"
      using True word_Suc_minus_one [of "n - i"] by (simp add: diff_diff_add)
    moreover have "i + 1 \<le> n" using True by (simp add: inc_le)
    ultimately show ?thesis using step True unat_u32_less [of "n - (i + 1)"]
      by (subst strncpy_pad.simps) (simp add: store_bytes_Cons algebra_simps)
  next
    case False
    with step(2) have "i = n" by simp
    then show ?thesis by (subst strncpy_pad.simps) simp
  qed
qed

lemma strncpy_bytes:
  fixes m :: memory
  assumes "far dest src (unat n)"
  defines "w \<equiv> upto_nul (unat n) (at m src)"
  shows "strncpy dest src n m = store_bytes m dest (w @ replicate (unat n - length w) 0)"
proof -
  have len: "length w \<le> unat n" using length_chunk [of "at m src" 0 "unat n"] by (simp add: w_def)
  have u: "unat (of_nat (length w) :: u32) = length w"
    using len unat_u32_less [of n] by (simp add: unat_of_nat_u32)
  then have "of_nat (length w) \<le> n" using len by (simp add: word_le_nat_alt)
  moreover have "unat (n - of_nat (length w)) = unat n - length w"
    using u len by (simp add: unat_sub word_le_nat_alt)
  ultimately show ?thesis
    using strncpy_copy_bytes [OF assms(1), of 0 m] len unat_u32_le [of n]
    by (simp add: strncpy_def strncpy_pad_bytes store_bytes_append flip: w_def)
qed

lemma strncpy_copy_from_bytes:
  "strncpy_copy_from src dest n i m =
    (i + of_nat (length (chunk src (unat i) (unat n))), store_bytes m (dest + i) (chunk src (unat i) (unat n)))"
proof (induction i arbitrary: m rule: count_up_induct [of n])
  case (step i)
  show ?case
  proof (cases "src i \<noteq> 0 \<and> i < n")
    case True
    then have u: "unat i < unat n" "unat (i + 1) = Suc (unat i)" by (auto simp: word_less_nat_alt [symmetric] unat_Suc_less)
    have "chunk src (unat i) (unat n) = src i # chunk src (Suc (unat i)) (unat n)" using True u by (simp add: chunk_simps)
    moreover have "length (chunk src (Suc (unat i)) (unat n)) < 2 ^ 32"
      using length_chunk [of src "Suc (unat i)" "unat n"] unat_u32_less [of n] by simp
    ultimately show ?thesis using step True u by (subst strncpy_copy_from.simps) (simp add: store_bytes_Cons algebra_simps)
  next
    case False
    then have "chunk src (unat i) (unat n) = []" by (cases "i < n") (auto simp: chunk_simps word_less_nat_alt)
    then show ?thesis using False by (subst strncpy_copy_from.simps) auto
  qed
qed

lemma strncpy_from_bytes:
  assumes "str src a"
  shows "strncpy_from src dest n m = store_bytes m dest (take (unat n) a @ replicate (unat n - length a) 0)"
proof -
  let ?w = "take (unat n) a"
  have u: "unat (of_nat (length ?w) :: u32) = length ?w" using unat_u32_less [of n] by (intro unat_of_nat_u32) simp
  then have le: "of_nat (length ?w) \<le> n" by (simp add: word_le_nat_alt)
  then have "unat (n - of_nat (length ?w)) = unat n - length a" using u by (simp add: unat_sub min_def)
  moreover have "length ?w + (unat n - length a) \<le> 2 ^ 32" using unat_u32_le [of n] by (simp add: min_def)
  ultimately show ?thesis
    using strncpy_copy_from_bytes [of src dest n 0 m] upto_nul_take [OF assms, of "unat n"] le
    by (simp add: strncpy_from_def strncpy_pad_bytes store_bytes_append del: length_take)
qed

text \<open>\<open>strrev\<close> mirrors the bytes between the two indices.\<close>

lemma of_int_u32_inj:
  assumes "0 \<le> i" "i < 2 ^ 32" "0 \<le> j" "j < 2 ^ 32"
  shows "(of_int i :: u32) = of_int j \<longleftrightarrow> i = j"
  using assms by (simp add: word_of_int_eq_iff take_bit_int_eq_self)

lemma strrev_loop_out:
  "(\<And>k. b \<le> k \<Longrightarrow> k \<le> e \<Longrightarrow> a \<noteq> s + of_int k) \<Longrightarrow> strrev_loop s b e m a = m a"
proof (induction "nat (e - b)" arbitrary: b e m rule: less_induct)
  case less
  show ?case
  proof (cases "b < e")
    case True
    then have "a \<noteq> s + of_int b" "a \<noteq> s + of_int e" using less.prems by auto
    with less True show ?thesis by (subst strrev_loop.simps) (simp add: Let_def)
  next
    case False
    then show ?thesis by (subst strrev_loop.simps) simp
  qed
qed

lemma strrev_loop_in:
  "0 \<le> b \<Longrightarrow> e < 2 ^ 31 \<Longrightarrow> b \<le> k \<Longrightarrow> k \<le> e \<Longrightarrow>
   strrev_loop s b e m (s + of_int k) = m (s + of_int (b + e - k))"
proof (induction "nat (e - b)" arbitrary: b e m rule: less_induct)
  case less
  show ?case
  proof (cases "b < e")
    case True
    let ?m = "m(s + of_int e := m (s + of_int b), s + of_int b := m (s + of_int e))"
    have step: "strrev_loop s b e m = strrev_loop s (b + 1) (e - 1) ?m"
      using True by (subst strrev_loop.simps) (simp add: Let_def)
    have inj: "s + of_int i = s + of_int j \<longleftrightarrow> i = j" if "b \<le> i" "i \<le> e" "b \<le> j" "j \<le> e" for i j
      using that less.prems of_int_u32_inj [of i j] by simp
    show ?thesis
    proof (cases "k = b \<or> k = e")
      case False
      then have "strrev_loop s (b + 1) (e - 1) ?m (s + of_int k) = ?m (s + of_int (b + 1 + (e - 1) - k))"
        using less.prems True by (intro less.hyps) auto
      also have "\<dots> = m (s + of_int (b + e - k))"
        using False less.prems inj [of "b + e - k" b] inj [of "b + e - k" e] by auto
      finally show ?thesis unfolding step .
    next
      case ends: True
      then have "strrev_loop s (b + 1) (e - 1) ?m (s + of_int k) = ?m (s + of_int k)"
        using less.prems inj [of k] by (intro strrev_loop_out) auto
      then show ?thesis using ends True inj [of b e] unfolding step by auto
    qed
  next
    case False
    with less.prems have "k = b" "e = b" by auto
    then show ?thesis by (subst strrev_loop.simps) simp
  qed
qed

lemma strrev_bytes:
  assumes s: "str (at m p) bs"
  shows "\<exists>m'. strrev p m = Some m' \<and> str (at m' p) (rev bs) \<and> (\<forall>a. a \<notin> span p (length bs) \<longrightarrow> m' a = m a)"
proof -
  define n where "n = int (length bs)"
  have n: "0 \<le> n" "n < 2 ^ 31" using s by (auto simp: n_def str_def)
  have "sint ((of_nat (length bs) :: u32) - 1) = n - 1"
  proof -
    have "(of_nat (length bs) :: u32) - 1 = of_int (n - 1)" by (simp add: n_def)
    moreover have "sint (of_int (n - 1) :: u32) = n - 1"
      using n signed_take_bit_int_eq_self [of 31 "n - 1"] by (simp add: signed_of_int del: of_int_diff)
    ultimately show ?thesis by simp
  qed
  then have r: "strrev p m = Some (strrev_loop p 0 (n - 1) m)"
    using strlen_str [OF s] by (simp add: strrev_def)
  let ?m = "strrev_loop p 0 (n - 1) m"
  have "at ?m p (of_nat i) = rev bs ! i" if "i < length bs" for i
  proof -
    have "at ?m p (of_nat i) = m (p + of_int (0 + (n - 1) - int i))"
      using strrev_loop_in [of 0 "n - 1" "int i" p m] n that by (simp add: at_def n_def)
    also have "\<dots> = at m p (of_nat (length bs - Suc i))"
      using that by (simp add: at_def n_def of_nat_diff diff_diff_add)
    also have "\<dots> = rev bs ! i"
    proof -
      have "\<forall>j < length bs. at m p (of_nat j) = bs ! j" using s by (simp add: str_def)
      from this [rule_format, of "length bs - Suc i"] that show ?thesis by (simp add: rev_nth)
    qed
    finally show ?thesis .
  qed
  moreover have out: "?m a = m a" if "a \<notin> span p (length bs)" for a
  proof (rule strrev_loop_out)
    fix k assume k: "0 \<le> k" "k \<le> n - 1"
    then have "p + of_nat (nat k) \<in> span p (length bs)" using n by (intro in_span) (auto simp: n_def)
    with that k show "a \<noteq> p + of_int k" by auto
  qed
  moreover have "p + of_nat (length bs) \<notin> span p (length bs)"
    using n by (simp add: span_def n_def unat_of_nat_u32)
  then have "at ?m p (of_nat (length bs)) = 0" using out s by (simp add: at_def str_def)
  ultimately show ?thesis using r s by (auto simp: str_def)
qed

text \<open>\<open>itoa\<close>: the digits of a number, least significant first, and their value.\<close>

fun digits :: "nat \<Rightarrow> nat \<Rightarrow> nat list" where
  "digits r v = (if v = 0 \<or> r < 2 then [] else (v mod r) # digits r (v div r))"

declare digits.simps [simp del]

definition digits_value :: "nat \<Rightarrow> nat list \<Rightarrow> nat" where
  "digits_value r ds = foldl (\<lambda>acc d. acc * r + d) 0 ds"

lemma digits_value_rev: "2 \<le> r \<Longrightarrow> digits_value r (rev (digits r v)) = v"
proof (induction r v rule: digits.induct)
  case (1 r v)
  then show ?case by (subst digits.simps) (auto simp: digits_value_def)
qed

lemma digits_bound: "d \<in> set (digits r v) \<Longrightarrow> d < r"
proof (induction r v rule: digits.induct)
  case (1 r v)
  then show ?case by (subst (asm) digits.simps) (auto split: if_splits)
qed

lemma length_digits: "v < 2 ^ k \<Longrightarrow> length (digits r v) \<le> k"
proof (induction k arbitrary: v)
  case 0
  then show ?case by (simp add: digits.simps)
next
  case (Suc k)
  have "v div r < 2 ^ k" if "2 \<le> r"
  proof -
    have "v div r \<le> v div 2" using that by (simp add: div_le_mono2)
    then show ?thesis using Suc.prems by simp
  qed
  then show ?case using Suc.IH by (subst digits.simps) auto
qed

lemma itoa_loop_digits:
  assumes "2 \<le> radix" "radix \<le> 36"
  shows "itoa_loop v buf radix m =
    Some (buf + of_nat (length (digits (unat radix) (unat v))),
          store_bytes m buf (map (\<lambda>d. lookup_digits ! d) (digits (unat radix) (unat v))))"
proof (induction "unat v" arbitrary: v buf m rule: less_induct)
  case less
  have r: "2 \<le> unat radix" "unat radix \<le> 36" "radix \<noteq> 0" using assms by (auto simp: word_le_nat_alt)
  show ?case
  proof (cases "v = 0")
    case True
    then show ?thesis by (subst itoa_loop.simps) (simp add: digits.simps)
  next
    case False
    then have v: "unat v \<noteq> 0" by (simp add: unat_eq_zero)
    have "unat v mod unat radix < unat radix" using r by simp
    then have small: "unat (v mod radix) < 37" using r(2) unfolding unat_mod by linarith
    have "unat (v div radix) < unat v" using v r by (simp add: unat_div)
    note IH = less.hyps [OF this, of "buf + 1"]
    have d: "digits (unat radix) (unat v) = unat (v mod radix) # digits (unat radix) (unat (v div radix))"
      using v r by (subst digits.simps) (simp add: unat_mod unat_div)
    have "length (digits (unat radix) (unat (v div radix))) < 2 ^ 32"
      using length_digits [of "unat (v div radix)" 32 "unat radix"] unat_u32_less [of "v div radix"] by simp
    then show ?thesis using False r small IH
      by (subst itoa_loop.simps) (simp add: d store_bytes_Cons not_le algebra_simps)
  qed
qed

lemma lookup_digits_nonzero: "d < 36 \<Longrightarrow> lookup_digits ! d \<noteq> 0"
proof -
  have "\<forall>d \<in> set [0..<36]. lookup_digits ! d \<noteq> 0"
    unfolding lookup_digits_def by (simp add: upt_rec)
  then show "d < 36 \<Longrightarrow> lookup_digits ! d \<noteq> 0" by simp
qed

lemma str_store_bytes:
  assumes "0 \<notin> set bs" "length bs < 2 ^ 31"
  shows "str (at ((store_bytes m p bs)(p + of_nat (length bs) := 0)) p) bs"
proof -
  have "store_bytes m p bs (p + of_nat i) = bs ! i" "(of_nat i :: u32) \<noteq> of_nat (length bs)" if "i < length bs" for i
    using that assms store_bytes_at [of i bs m p] unat_of_nat_u32 [of i] unat_of_nat_u32 [of "length bs"] by auto
  then show ?thesis using assms by (simp add: str_def at_def)
qed

text \<open>The digits of a number as it is written: most significant first, and a single 0 for 0.\<close>

definition numeral_digits :: "nat \<Rightarrow> nat \<Rightarrow> nat list" where
  "numeral_digits r v = (if v = 0 then [0] else rev (digits r v))"

lemma numeral_digits:
  assumes "2 \<le> r"
  shows "digits_value r (numeral_digits r v) = v" "d \<in> set (numeral_digits r v) \<Longrightarrow> d < r" "0 < length (numeral_digits r v)"
    "v < 2 ^ k \<Longrightarrow> 0 < k \<Longrightarrow> length (numeral_digits r v) \<le> k"
  using assms digits_value_rev [of r v] digits_bound [of d r v] length_digits [of v k r]
  by (auto simp: numeral_digits_def digits_value_def digits.simps [of r v] split: if_splits)

lemma itoa_numeral:
  fixes v :: u32
  assumes "2 \<le> radix" "radix \<le> 36"
  defines "ds \<equiv> numeral_digits (unat radix) (unat v)"
  obtains m' where "itoa v buf radix m = Some m'" "str (at m' buf) (map (\<lambda>d. lookup_digits ! d) ds)"
    "\<And>a. a \<notin> span buf (Suc (length ds)) \<Longrightarrow> m' a = m a"
proof (cases "v = 0")
  case True
  let ?m = "m(buf := 0x30, buf + 1 := 0)"
  have z: "lookup_digits ! 0 = 0x30" by (simp add: lookup_digits_def upt_rec)
  have "str (at ?m buf) [0x30]" by (simp add: str_def at_def)
  moreover have "?m a = m a" if "a \<notin> span buf (Suc (length [0 :: nat]))" for a
    using that by (auto simp: span_def)
  ultimately show ?thesis using True that [of ?m] by (simp add: ds_def itoa_def numeral_digits_def z)
next
  case False
  define es where "es = digits (unat radix) (unat v)"
  define bs where "bs = map (\<lambda>d. lookup_digits ! d) es"
  let ?m = "(store_bytes m buf bs)(buf + of_nat (length bs) := 0)"
  have ds: "ds = rev es" using False by (simp add: ds_def es_def numeral_digits_def unat_eq_zero)
  have r: "2 \<le> unat radix" "unat radix \<le> 36" using assms by (auto simp: word_le_nat_alt)
  have len: "length es \<le> 32" using length_digits [of "unat v" 32] unat_u32_less [of v] by (simp add: es_def)
  have d: "d < unat radix" if "d \<in> set es" for d using that digits_bound by (auto simp: es_def)
  have "0 \<notin> set bs" using d r lookup_digits_nonzero by (fastforce simp: bs_def)
  then have "str (at ?m buf) bs" using len by (intro str_store_bytes) (auto simp: bs_def)
  from strrev_bytes [OF this] obtain m' where m': "strrev buf ?m = Some m'" "str (at m' buf) (rev bs)"
    "\<forall>a. a \<notin> span buf (length bs) \<longrightarrow> m' a = ?m a" by blast
  have "m' a = m a" if "a \<notin> span buf (Suc (length es))" for a
  proof -
    have "a \<notin> span buf (length bs)" using that by (simp add: span_def bs_def)
    moreover have "a \<noteq> buf + of_nat (length es)"
      using that in_span [of "length es" "Suc (length es)" buf] len by auto
    ultimately show ?thesis using m'(3) by (simp add: store_bytes_outside bs_def)
  qed
  moreover have "itoa v buf radix m = Some m'"
    using m'(1) False itoa_loop_digits [OF assms(1,2), of v buf m] by (simp add: itoa_def es_def bs_def)
  ultimately show ?thesis using m'(2) that [of m'] by (simp add: ds bs_def rev_map)
qed

lemma itoa_digits:
  assumes "2 \<le> radix" "radix \<le> 36"
  shows "\<exists>m' ds. itoa v buf radix m = Some m' \<and> str (at m' buf) (map (\<lambda>d. lookup_digits ! d) ds) \<and>
    digits_value (unat radix) ds = unat v \<and> (\<forall>d \<in> set ds. d < unat radix) \<and>
    0 < length ds \<and> length ds \<le> 32 \<and> (\<forall>a. a \<notin> span buf (Suc (length ds)) \<longrightarrow> m' a = m a)"
proof -
  let ?ds = "numeral_digits (unat radix) (unat v)"
  obtain m' where m': "itoa v buf radix m = Some m'" "str (at m' buf) (map (\<lambda>d. lookup_digits ! d) ?ds)"
    "\<And>a. a \<notin> span buf (Suc (length ?ds)) \<Longrightarrow> m' a = m a" using itoa_numeral [OF assms] by blast
  have "2 \<le> unat radix" using assms(1) by (simp add: word_le_nat_alt)
  note n = numeral_digits [OF this]
  have "length ?ds \<le> 32" using n(4) [of "unat v" 32] unat_u32_less [of v] by simp
  then show ?thesis using m' n(1-3) by blast
qed

text \<open>\<open>strlcat\<close> stays inside the buffer it is given.\<close>

lemma strlcat_end_le: "i \<le> n \<Longrightarrow> strlcat_end m dest n i \<le> n"
proof (induction i rule: count_up_induct [of n])
  case (step i)
  then show ?case by (subst strlcat_end.simps) (auto simp: inc_le)
qed

lemma strlcat_copy_bounds:
  "i \<le> n \<Longrightarrow> strlcat_copy m dest src n i = (m', j) \<Longrightarrow>
   i \<le> j \<and> j \<le> n \<and> (\<forall>a. a \<notin> span dest (unat n) \<longrightarrow> m' a = m a)"
proof (induction i arbitrary: m src rule: count_up_induct [of n])
  case (step i)
  show ?case
  proof (cases "i < n \<and> m src \<noteq> 0")
    case True
    then have "strlcat_copy (m(dest + i := m src)) dest (src + 1) n (i + 1) = (m', j)"
      using step.prems(2) by (subst (asm) strlcat_copy.simps) simp
    moreover have "i + 1 \<le> n" using True by (simp add: inc_le)
    ultimately have "i + 1 \<le> j \<and> j \<le> n \<and> (\<forall>a. a \<notin> span dest (unat n) \<longrightarrow> m' a = (m(dest + i := m src)) a)"
      using step.IH True by blast
    moreover have "dest + i \<in> span dest (unat n)" using True by (simp add: span_def word_less_nat_alt)
    moreover have "i < i + 1" using True unat_Suc_less [of i n] by (simp add: word_less_nat_alt)
    ultimately show ?thesis by auto
  next
    case False
    then show ?thesis using step.prems by (subst (asm) strlcat_copy.simps) (auto split: if_splits)
  qed
qed

section \<open>Properties\<close>

text \<open>
  For a radix from 2 to 36, \<open>itoa\<close> returns, writes a NUL-terminated string of at most
  32 digits below the radix whose value is the number, and touches nothing outside of it.
\<close>

theorem itoa_value:
  assumes "2 \<le> radix" "radix \<le> 36"
  shows "\<exists>m' ds. itoa v buf radix m = Some m' \<and> str (at m' buf) (map (\<lambda>d. lookup_digits ! d) ds) \<and>
    digits_value (unat radix) ds = unat v \<and> (\<forall>d \<in> set ds. d < unat radix) \<and>
    0 < length ds \<and> length ds \<le> 32 \<and> (\<forall>a. a \<notin> span buf (Suc (length ds)) \<longrightarrow> m' a = m a)"
  using assms by (rule itoa_digits)

theorem itoa_value_witness:
  "\<exists>m' ds. itoa 391 0x1000 10 (\<lambda>_. 0) = Some m' \<and> str (at m' 0x1000) (map (\<lambda>d. lookup_digits ! d) ds) \<and>
     digits_value 10 ds = 391"
  using itoa_value [where radix = 10 and v = 391 and buf = "0x1000" and m = "\<lambda>_. 0"] by auto

text \<open>
  \<open>strrev\<close> on a NUL-terminated string shorter than \<open>2 ^ 31\<close> returns, leaves the
  reversed string in its place and changes no other byte.
\<close>

theorem strrev_reverses:
  assumes "str (at m p) bs"
  shows "\<exists>m'. strrev p m = Some m' \<and> str (at m' p) (rev bs) \<and> (\<forall>a. a \<notin> span p (length bs) \<longrightarrow> m' a = m a)"
  using assms by (rule strrev_bytes)

theorem strrev_reverses_witness:
  "\<exists>m'. strrev 0x1000 ((\<lambda>_. 0)(0x1000 := 1, 0x1001 := 2)) = Some m' \<and> str (at m' 0x1000) [2, 1]"
proof -
  have "str (at ((\<lambda>_. 0)(0x1000 := 1, 0x1001 := 2)) 0x1000) [1, 2]"
    by (auto simp: str_def at_def less_Suc_eq)
  from strrev_reverses [OF this] show ?thesis by auto
qed

text \<open>
  \<open>strncpy\<close> between buffers that do not overlap stores exactly \<open>n\<close> bytes: the
  source up to its NUL, and zeros after it. With \<open>n\<close> or more characters in the source
  there is no terminating NUL.
\<close>

theorem strncpy_fills:
  assumes "far dest src (unat n)"
  shows "strncpy dest src n m =
    store_bytes m dest (upto_nul (unat n) (at m src) @ replicate (unat n - length (upto_nul (unat n) (at m src))) 0)"
  using assms by (rule strncpy_bytes)

theorem strncpy_fills_witness:
  "strncpy 0x2000 0x1000 3 ((\<lambda>_. 0)(0x1000 := 7)) = store_bytes ((\<lambda>_. 0)(0x1000 := 7)) 0x2000 [7, 0, 0]"
proof -
  have "far 0x2000 0x1000 (unat (3 :: u32))" by (rule farI) simp_all
  moreover have "replicate 2 (0 :: u8) = [0, 0]" by (simp add: numeral_2_eq_2)
  ultimately show ?thesis
    using strncpy_fills [of "0x2000" "0x1000" 3 "(\<lambda>_. 0)(0x1000 := 7)"] by (simp add: chunk_def at_def upt_rec)
qed

text \<open>
  \<open>strncmp\<close> returns 0 exactly when the two strings, cut at \<open>n\<close> bytes, are the same.
\<close>

theorem strncmp_equal: "strncmp r1 r2 n = 0 \<longleftrightarrow> upto_nul (unat n) r1 = upto_nul (unat n) r2"
  by (rule strncmp_zero)

text \<open>
  \<open>strlcat\<close> writes only inside the \<open>n\<close> bytes of its destination and returns at
  most \<open>n\<close>; when the result is less than \<open>n\<close> it is where the terminating NUL is.
\<close>

theorem strlcat_bounded:
  "case strlcat dest src n m of (m', j) \<Rightarrow>
     j \<le> n \<and> (\<forall>a. unat n \<le> unat (a - dest) \<longrightarrow> m' a = m a) \<and> (j < n \<longrightarrow> m' (dest + j) = 0)"
proof -
  obtain m1 j where c: "strlcat_copy m dest src n (strlcat_end m dest n 0) = (m1, j)" by fastforce
  have b: "j \<le> n" "\<forall>a. a \<notin> span dest (unat n) \<longrightarrow> m1 a = m a"
    using strlcat_copy_bounds [OF strlcat_end_le c] by simp_all
  show ?thesis
    using b by (auto simp: strlcat_def c span_def word_less_nat_alt Let_def not_less)
qed

end
