(* ===== verification/Programs.thy ===== *)
theory Programs
  imports Userlib
begin

text \<open>
  The user programs of \<^verbatim>\<open>src/syscalls\<close>, over the record of system calls. The arrays on a program's
  stack are at the addresses given as arguments. The result is the state and the value \<open>main\<close>
  returns; a program that never returns is \<open>None\<close>.
\<close>

abbreviation nl :: string where "nl \<equiv> [CHR 0x0A]"

text \<open>A message on the terminal and the value to return.\<close>

definition complain :: "'s sys \<Rightarrow> string \<Rightarrow> int \<Rightarrow> 's \<Rightarrow> ('s \<times> int) option" where
  "complain U msg r s = do { s1 \<leftarrow> ece391_fdputs U 1 (lit U msg) s; Some (s1, r) }"

section \<open>cat and ls\<close>

partial_function (option) cat_loop :: "'s sys \<Rightarrow> int \<Rightarrow> u32 \<Rightarrow> 's \<Rightarrow> ('s \<times> int) option" where
  "cat_loop U fd buf s = do {
     (s1, cnt) \<leftarrow> sys_read U fd buf 1024 s;
     if cnt = 0 then Some (s1, 0)
     else if cnt = - 1 then complain U (''file read failed'' @ nl) 3 s1
     else do {
       (s2, r) \<leftarrow> sys_write U 1 buf cnt s1;
       if r = - 1 then Some (s2, 3) else cat_loop U fd buf s2
     }
   }"

definition cat :: "'s sys \<Rightarrow> u32 \<Rightarrow> 's \<Rightarrow> ('s \<times> int) option" where
  "cat U buf s = do {
     (s1, r) \<leftarrow> sys_getargs U buf 1024 s;
     if r \<noteq> 0 then complain U (''could not read arguments'' @ nl) 3 s1
     else do {
       (s2, fd) \<leftarrow> sys_open U buf s1;
       if fd = - 1 then complain U (''file not found'' @ nl) 2 s2 else cat_loop U fd buf s2
     }
   }"

partial_function (option) ls_loop :: "'s sys \<Rightarrow> int \<Rightarrow> u32 \<Rightarrow> 's \<Rightarrow> ('s \<times> int) option" where
  "ls_loop U fd buf s = do {
     (s1, cnt) \<leftarrow> sys_read U fd buf 32 s;
     if cnt = 0 then Some (s1, 0)
     else if cnt = - 1 then complain U (''directory entry read failed'' @ nl) 3 s1
     else do {
       (s2, r) \<leftarrow> sys_write U 1 buf (cnt + 1) (poke U (buf + of_int cnt) 10 s1);
       if r = - 1 then Some (s2, 3) else ls_loop U fd buf s2
     }
   }"

definition ls :: "'s sys \<Rightarrow> u32 \<Rightarrow> 's \<Rightarrow> ('s \<times> int) option" where
  "ls U buf s = do {
     (s1, fd) \<leftarrow> sys_open U (lit U ''.'') s;
     if fd = - 1 then complain U (''directory open failed'' @ nl) 2 s1 else ls_loop U fd buf s1
   }"

section \<open>hello and shell\<close>

definition hello :: "'s sys \<Rightarrow> u32 \<Rightarrow> 's \<Rightarrow> ('s \<times> int) option" where
  "hello U buf s = do {
     s1 \<leftarrow> ece391_fdputs U 1 (lit U (''Hi, what'' @ [CHR 0x27] @ ''s your name? '')) s;
     (s2, cnt) \<leftarrow> sys_read U 0 buf 1023 s1;
     if cnt = - 1 then complain U (''Can'' @ [CHR 0x27] @ ''t read name from keyboard.'' @ nl) 3 s2
     else do {
       s3 \<leftarrow> ece391_fdputs U 1 (lit U ''Hello, '') (poke U (buf + of_int cnt) 0 s2);
       s4 \<leftarrow> ece391_fdputs U 1 buf s3;
       Some (s4, 0)
     }
   }"

definition report_result :: "'s sys \<Rightarrow> int \<Rightarrow> 's \<Rightarrow> 's option" where
  "report_result U rval s =
     (if rval = - 1 then ece391_fdputs U 1 (lit U (''no such command'' @ nl)) s
      else if rval = 256 then ece391_fdputs U 1 (lit U (''program terminated by exception'' @ nl)) s
      else if rval \<noteq> 0 then ece391_fdputs U 1 (lit U (''program terminated abnormally'' @ nl)) s
      else Some s)"

partial_function (option) shell :: "'s sys \<Rightarrow> u32 \<Rightarrow> 's \<Rightarrow> ('s \<times> int) option" where
  "shell U buf s = do {
     s1 \<leftarrow> ece391_fdputs U 1 (lit U ''391OS> '') s;
     (s2, cnt) \<leftarrow> sys_read U 0 buf 1023 s1;
     if cnt = - 1 then complain U (''read from keyboard failed'' @ nl) 3 s2
     else do {
       let cnt1 = (if 0 < cnt \<and> user_mem U s2 (buf + of_int (cnt - 1)) = 10 then cnt - 1 else cnt);
       let s3 = poke U (buf + of_int cnt1) 0 s2;
       r \<leftarrow> ece391_strcmp (user_mem U s3) buf (lit U ''exit'');
       if r = 0 then Some (s3, 0)
       else if user_mem U s3 buf = 0 then shell U buf s3
       else do {
         (s4, rval) \<leftarrow> sys_execute U buf s3;
         s5 \<leftarrow> report_result U rval s4;
         shell U buf s5
       }
     }
   }"

section \<open>Sound and shutdown\<close>

definition play :: "'s sys \<Rightarrow> u32 \<Rightarrow> 's \<Rightarrow> ('s \<times> int) option" where
  "play U buf s = do {
     (s1, r) \<leftarrow> sys_getargs U buf 33 s;
     if r \<noteq> 0 then complain U (''could not read filename'' @ nl) 3 s1
     else do {
       (s2, c) \<leftarrow> sys_soundctrl U 0 buf s1;
       if c < 0 then complain U (''could not play; is something else playing or did you pass a non-existant file?'' @ nl) 0 s2
       else Some (s2, 0)
     }
   }"

definition pause :: "'s sys \<Rightarrow> 's \<Rightarrow> ('s \<times> int) option" where
  "pause U s = do { (s1, _) \<leftarrow> sys_soundctrl U 1 0 s; Some (s1, 0) }"

definition resume :: "'s sys \<Rightarrow> 's \<Rightarrow> ('s \<times> int) option" where
  "resume U s = do { (s1, _) \<leftarrow> sys_soundctrl U 2 0 s; Some (s1, 0) }"

definition stop :: "'s sys \<Rightarrow> 's \<Rightarrow> ('s \<times> int) option" where
  "stop U s = do { (s1, _) \<leftarrow> sys_soundctrl U 3 0 s; Some (s1, 0) }"

definition shutdown_main :: "'s sys \<Rightarrow> 's \<Rightarrow> ('s \<times> int) option" where
  "shutdown_main U s = do { (s1, _) \<leftarrow> sys_shutdown U s; Some (s1, 0) }"

section \<open>sched and pingpong\<close>

partial_function (option) count_loop :: "'s sys \<Rightarrow> u32 \<Rightarrow> int \<Rightarrow> int \<Rightarrow> 's \<Rightarrow> 's option" where
  "count_loop U buf val cnt s =
     (if val < cnt then do {
        m \<leftarrow> user_itoa (of_int (val + 1)) buf 10 (user_mem U s);
        s1 \<leftarrow> ece391_fdputs U 1 buf (set_user_mem U m s);
        s2 \<leftarrow> ece391_fdputs U 1 (lit U nl) s1;
        count_loop U buf (val + 1) cnt s2
      } else Some s)"

definition sched :: "'s sys \<Rightarrow> u32 \<Rightarrow> 's \<Rightarrow> ('s \<times> int) option" where
  "sched U buf s = do {
     s1 \<leftarrow> ece391_fdputs U 1 (lit U (''Enter the Test Number: (0): 10, (1): 10000, (2): 1000000'' @ nl)) s;
     (s2, cnt) \<leftarrow> sys_read U 0 buf 1023 s1;
     if cnt = - 1 then complain U (''Can'' @ [CHR 0x27] @ ''t read the number from keyboard.'' @ nl) 3 s2
     else do {
       len \<leftarrow> ece391_strlen (user_mem U s2) buf;
       let c = user_mem U s2 buf;
       if 2 < len \<or> (len = 1 \<and> c < 48 \<or> 50 < c) then complain U (''Wrong Choice!'' @ nl) 0 s2
       else do {
         s3 \<leftarrow> count_loop U buf 0 (if c = 48 then 10 else if c = 49 then 10000 else if c = 50 then 1000000 else cnt) s2;
         Some (s3, 0)
       }
     }
   }"

definition fill_memory :: "u32 \<Rightarrow> nat list \<Rightarrow> u8 \<Rightarrow> memory \<Rightarrow> memory" where
  "fill_memory buf is c m = fold (\<lambda>i m. m(buf + of_nat i := c)) is m"

text \<open>One picture: the inner part of the line is cleared, the character drawn, and a tick awaited.\<close>

definition draw :: "'s sys \<Rightarrow> u32 \<Rightarrow> u32 \<Rightarrow> int \<Rightarrow> u8 \<Rightarrow> nat \<Rightarrow> 's \<Rightarrow> 's option" where
  "draw U buf garbage rtc_fd curchar j s = do {
     let m = (fill_memory buf [2..<78] 0x20 (user_mem U s))(buf + of_nat j := curchar);
     s1 \<leftarrow> ece391_fdputs U 1 buf (set_user_mem U m s);
     (s2, _) \<leftarrow> sys_read U rtc_fd garbage 4 s1;
     Some s2
   }"

fun draws :: "'s sys \<Rightarrow> u32 \<Rightarrow> u32 \<Rightarrow> int \<Rightarrow> u8 \<Rightarrow> nat list \<Rightarrow> 's \<Rightarrow> 's option" where
  "draws U buf garbage rtc_fd curchar [] s = Some s"
| "draws U buf garbage rtc_fd curchar (j # js) s = do {
     s1 \<leftarrow> draw U buf garbage rtc_fd curchar j s;
     draws U buf garbage rtc_fd curchar js s1
   }"

partial_function (option) bounce :: "'s sys \<Rightarrow> u32 \<Rightarrow> u32 \<Rightarrow> int \<Rightarrow> u8 \<Rightarrow> 's \<Rightarrow> ('s \<times> int) option" where
  "bounce U buf garbage rtc_fd curchar s = do {
     s1 \<leftarrow> draws U buf garbage rtc_fd curchar [2..<78] s;
     s2 \<leftarrow> draws U buf garbage rtc_fd curchar (rev [2..<78]) s1;
     bounce U buf garbage rtc_fd (if curchar = 90 then 65 else curchar + 1) s2
   }"

definition pingpong :: "'s sys \<Rightarrow> u32 \<Rightarrow> u32 \<Rightarrow> u32 \<Rightarrow> 's \<Rightarrow> ('s \<times> int) option" where
  "pingpong U buf ret_val garbage s = do {
     let m = (fill_memory buf [0..<81] 0x20 (user_mem U s))(buf + 80 := 0, buf + 79 := 10, buf + 78 := 0x7C, buf + 1 := 0x7C);
     (s1, rtc_fd) \<leftarrow> sys_open U (lit U ''rtc'') (set_user_mem U m s);
     (s2, r) \<leftarrow> sys_write U rtc_fd ret_val 4 (set_user_mem U (store32 (user_mem U s1) ret_val 32) s1);
     bounce U buf garbage rtc_fd 65 (set_user_mem U (store32 (user_mem U s2) ret_val (of_int r)) s2)
   }"

section \<open>grep\<close>

function line_end_from :: "memory \<Rightarrow> u32 \<Rightarrow> int \<Rightarrow> int \<Rightarrow> int" where
  "line_end_from m data filled line_end =
     (if line_end < filled \<and> m (data + of_int line_end) \<noteq> 10 then line_end_from m data filled (line_end + 1) else line_end)"
  by pat_completeness auto
termination by (relation "measure (\<lambda>(m, data, filled, line_end). nat (filled - line_end))") auto

declare line_end_from.simps [simp del]

text \<open>The search in one line: the line is printed once, after its file's name, at the first match. The first
  character of the pattern is a signed \<open>char\<close>.\<close>

partial_function (option) search_line :: "'s sys \<Rightarrow> u32 \<Rightarrow> u32 \<Rightarrow> u32 \<Rightarrow> u32 \<Rightarrow> int \<Rightarrow> int \<Rightarrow> int \<Rightarrow> 's \<Rightarrow> 's option" where
  "search_line U p fname data s_len line_start line_end check s =
     (if check < line_end then do {
        r \<leftarrow> (if sint (user_mem U s p) = uint (user_mem U s (data + of_int check))
             then ece391_strncmp (user_mem U s) (data + of_int check) p s_len else Some 1);
        if r = 0 then do {
          s1 \<leftarrow> ece391_fdputs U 1 fname s;
          s2 \<leftarrow> ece391_fdputs U 1 (lit U '':'') s1;
          s3 \<leftarrow> ece391_fdputs U 1 (data + of_int line_start) s2;
          ece391_fdputs U 1 (lit U nl) s3
        } else search_line U p fname data s_len line_start line_end (check + 1) s
      } else Some s)"

partial_function (option) search_lines :: "'s sys \<Rightarrow> u32 \<Rightarrow> u32 \<Rightarrow> u32 \<Rightarrow> u32 \<Rightarrow> int \<Rightarrow> int \<Rightarrow> int \<Rightarrow> 's \<Rightarrow> ('s \<times> int) option" where
  "search_lines U p fname data s_len cnt filled line_start s = do {
     let line_end = line_end_from (user_mem U s) data filled line_start;
     let a = data + of_int line_end;
     if user_mem U s a \<noteq> 10 \<and> cnt \<noteq> 0 \<and> line_start \<noteq> 0 then do {
       let s1 = poke U a 0 s;
       m \<leftarrow> ece391_strcpy data (data + of_int line_start) (user_mem U s1);
       Some (set_user_mem U m s1, filled - line_start)
     }
     else do {
       s1 \<leftarrow> search_line U p fname data s_len line_start line_end line_start (poke U a 0 s);
       if filled \<le> line_end + 1 then Some (s1, 0) else search_lines U p fname data s_len cnt filled (line_end + 1) s1
     }
   }"

partial_function (option) file_loop :: "'s sys \<Rightarrow> u32 \<Rightarrow> u32 \<Rightarrow> u32 \<Rightarrow> u32 \<Rightarrow> int \<Rightarrow> int \<Rightarrow> 's \<Rightarrow> ('s \<times> int) option" where
  "file_loop U p fname data s_len fd filled s = do {
     (s1, cnt) \<leftarrow> sys_read U fd (data + of_int filled) (1024 - filled) s;
     if cnt = - 1 then complain U (''file read failed'' @ nl) (- 1) s1
     else do {
       (s2, filled1) \<leftarrow> search_lines U p fname data s_len cnt (filled + cnt) 0 s1;
       if cnt = 0 then do {
         (s3, r) \<leftarrow> sys_close U fd s2;
         if r = - 1 then complain U (''file close failed'' @ nl) (- 1) s3 else Some (s3, 0)
       }
       else file_loop U p fname data s_len fd filled1 s2
     }
   }"

definition do_one_file :: "'s sys \<Rightarrow> u32 \<Rightarrow> u32 \<Rightarrow> u32 \<Rightarrow> 's \<Rightarrow> ('s \<times> int) option" where
  "do_one_file U data p fname s = do {
     s_len \<leftarrow> ece391_strlen (user_mem U s) p;
     (s1, fd) \<leftarrow> sys_open U fname s;
     if fd = - 1 then complain U (''file open failed'' @ nl) (- 1) s1 else file_loop U p fname data s_len fd 0 s1
   }"

partial_function (option) grep_loop :: "'s sys \<Rightarrow> u32 \<Rightarrow> u32 \<Rightarrow> u32 \<Rightarrow> int \<Rightarrow> 's \<Rightarrow> ('s \<times> int) option" where
  "grep_loop U data search buf fd s = do {
     (s1, cnt) \<leftarrow> sys_read U fd buf 32 s;
     if cnt = 0 then Some (s1, 0)
     else if cnt = - 1 then complain U (''directory entry read failed'' @ nl) 3 s1
     else if user_mem U s1 buf = 0x2E then grep_loop U data search buf fd s1
     else do {
       (s2, r) \<leftarrow> do_one_file U data search buf (poke U (buf + of_int cnt) 0 s1);
       if r \<noteq> 0 then Some (s2, 3) else grep_loop U data search buf fd s2
     }
   }"

definition grep :: "'s sys \<Rightarrow> u32 \<Rightarrow> u32 \<Rightarrow> u32 \<Rightarrow> 's \<Rightarrow> ('s \<times> int) option" where
  "grep U data search buf s = do {
     (s1, r) \<leftarrow> sys_getargs U search 1024 s;
     if r \<noteq> 0 then complain U (''could not read argument'' @ nl) 3 s1
     else do {
       (s2, fd) \<leftarrow> sys_open U (lit U ''.'') s1;
       if fd = - 1 then complain U (''directory open failed'' @ nl) 2 s2 else grep_loop U data search buf fd s2
     }
   }"

declare cat_loop.simps [simp del] ls_loop.simps [simp del] shell.simps [simp del] count_loop.simps [simp del] bounce.simps [simp del]
  search_line.simps [simp del] search_lines.simps [simp del] file_loop.simps [simp del] grep_loop.simps [simp del]

section \<open>Programs that copy what they read\<close>

text \<open>
  What \<open>cat\<close> and \<open>ls\<close> rely on. A descriptor hands over a list of pieces, one for each read, and then 0;
  a write to the terminal takes the whole of a text; neither disturbs the other.
\<close>

locale piecewise_reader =
  fixes U :: "'s sys" and ok :: "'s \<Rightarrow> bool" and pieces :: "'s \<Rightarrow> u8 list list" and out :: "'s \<Rightarrow> u8 list"
    and fd :: int and buf :: u32 and n :: int and room :: nat
  assumes read_next: "ok s \<Longrightarrow> pieces s = c # cs \<Longrightarrow>
      \<exists>s'. sys_read U fd buf n s = Some (s', int (length c)) \<and> ok s' \<and> pieces s' = cs \<and> out s' = out s \<and>
        bytes (user_mem U s') buf (length c) = c"
    and read_end: "ok s \<Longrightarrow> pieces s = [] \<Longrightarrow> \<exists>s'. sys_read U fd buf n s = Some (s', 0) \<and> out s' = out s"
    and piece_text: "ok s \<Longrightarrow> c \<in> set (pieces s) \<Longrightarrow> c \<noteq> [] \<and> 0 \<notin> set c \<and> int (length c) \<le> n"
    and write_text: "ok s \<Longrightarrow> k \<le> room \<Longrightarrow> 0 \<notin> set (bytes (user_mem U s) buf k) \<Longrightarrow>
      \<exists>s'. sys_write U 1 buf (int k) s = Some (s', 0) \<and> ok s' \<and> pieces s' = pieces s \<and> out s' = out s @ bytes (user_mem U s) buf k"
begin

lemma cat_copies:
  assumes "ok s" "n = 1024" "1024 \<le> room"
  shows "\<exists>s'. cat_loop U fd buf s = Some (s', 0) \<and> out s' = out s @ concat (pieces s)"
  using assms(1)
proof (induction "pieces s" arbitrary: s)
  case Nil
  obtain s' where "sys_read U fd buf n s = Some (s', 0)" "out s' = out s" using read_end [OF Nil.prems Nil.hyps [symmetric]] by blast
  then show ?case using Nil.hyps assms(2) by (subst cat_loop.simps) simp
next
  case (Cons c cs)
  note p = Cons.hyps(2) [symmetric]
  obtain s1 where s1: "sys_read U fd buf n s = Some (s1, int (length c))" "ok s1" "pieces s1 = cs" "out s1 = out s"
    "bytes (user_mem U s1) buf (length c) = c" using read_next [OF Cons.prems p] by blast
  have c: "c \<noteq> []" "0 \<notin> set c" "int (length c) \<le> n" using piece_text [OF Cons.prems, of c] p by simp_all
  then have "length c \<le> room" using assms(2,3) by simp
  from write_text [OF s1(2) this] obtain s2 where s2: "sys_write U 1 buf (int (length c)) s1 = Some (s2, 0)" "ok s2" "pieces s2 = cs" "out s2 = out s @ c"
    using s1(3-5) c(2) by auto
  obtain s' where "cat_loop U fd buf s2 = Some (s', 0)" "out s' = out s2 @ concat cs" using Cons.hyps(1) [of s2] s2(2,3) by auto
  then show ?case using s1(1) s2(1,4) c(1) p assms(2) by (subst cat_loop.simps) simp
qed

end

text \<open>\<open>ls\<close> also writes into its buffer: a byte stored there disturbs nothing either.\<close>

locale piecewise_editor = piecewise_reader +
  assumes poke_text: "ok s \<Longrightarrow> k < room \<Longrightarrow>
      ok (poke U (buf + of_nat k) b s) \<and> pieces (poke U (buf + of_nat k) b s) = pieces s \<and> out (poke U (buf + of_nat k) b s) = out s \<and>
      user_mem U (poke U (buf + of_nat k) b s) = (user_mem U s)(buf + of_nat k := b)"
begin

lemma ls_lists:
  assumes "ok s" "n = 32" "33 \<le> room"
  shows "\<exists>s'. ls_loop U fd buf s = Some (s', 0) \<and> out s' = out s @ concat (map (\<lambda>c. c @ [10]) (pieces s))"
  using assms(1)
proof (induction "pieces s" arbitrary: s)
  case Nil
  obtain s' where "sys_read U fd buf n s = Some (s', 0)" "out s' = out s" using read_end [OF Nil.prems Nil.hyps [symmetric]] by blast
  then show ?case using Nil.hyps assms(2) by (subst ls_loop.simps) simp
next
  case (Cons c cs)
  note p = Cons.hyps(2) [symmetric]
  obtain s1 where s1: "sys_read U fd buf n s = Some (s1, int (length c))" "ok s1" "pieces s1 = cs" "out s1 = out s"
    "bytes (user_mem U s1) buf (length c) = c" using read_next [OF Cons.prems p] by blast
  have c: "c \<noteq> []" "0 \<notin> set c" "length c \<le> 32" using piece_text [OF Cons.prems, of c] p assms(2) by simp_all
  let ?s2 = "poke U (buf + of_nat (length c)) 10 s1"
  have s2: "ok ?s2" "pieces ?s2 = cs" "out ?s2 = out s" "user_mem U ?s2 = (user_mem U s1)(buf + of_nat (length c) := 10)"
    using poke_text [OF s1(2), of "length c" 10] c(3) assms(3) s1(3,4) by simp_all
  have "(of_nat i :: u32) \<noteq> of_nat (length c)" if i: "i < length c" for i
  proof
    assume "(of_nat i :: u32) = of_nat (length c)"
    then have "unat (of_nat i :: u32) = unat (of_nat (length c) :: u32)" by simp
    moreover have "unat (of_nat i :: u32) = i" "unat (of_nat (length c) :: u32) = length c" using i c(3) by (simp_all add: unat_of_nat_u32)
    ultimately show False using i by simp
  qed
  then have "bytes (user_mem U ?s2) buf (length c) = bytes (user_mem U s1) buf (length c)"
    unfolding s2(4) by (intro nth_equalityI) simp_all
  then have b: "bytes (user_mem U ?s2) buf (length c + 1) = c @ [10]" unfolding bytes_append s1(5) by (simp add: s2(4) bytes_Suc)
  have "length c + 1 \<le> room" using c(3) assms(3) by simp
  from write_text [OF s2(1) this] obtain s3 where s3: "sys_write U 1 buf (int (length c + 1)) ?s2 = Some (s3, 0)" "ok s3" "pieces s3 = cs"
    "out s3 = out s @ c @ [10]" using s2(2,3) c(2) unfolding b by auto
  obtain s' where "ls_loop U fd buf s3 = Some (s', 0)" "out s' = out s3 @ concat (map (\<lambda>c. c @ [10]) cs)"
    using Cons.hyps(1) [of s3] s3(2,3) by auto
  then show ?case using s1(1) s3(1,4) c(1) p assms(2) by (subst ls_loop.simps) (simp add: add.commute)
qed

end

end
