(* ===== verification/Dll.thy ===== *)
theory Dll
  imports Prelude
begin

text \<open>
  Doubly linked list segments, the heap abstraction behind the region lists of
  \<^verbatim>\<open>mem.c\<close> and the task queue of \<^verbatim>\<open>task.c\<close>. Nodes are named by
  \<open>'a\<close>, a pointer is \<open>'a option\<close> with NULL as \<open>None\<close>, and a heap is given by
  its two link fields \<open>nx\<close> and \<open>pv\<close>. \<open>dseg nx pv a xs b\<close> says that the nodes
  \<open>xs\<close> are chained in both directions, that the first one points back to \<open>a\<close> and that
  the last one points forward to \<open>b\<close>.
\<close>

section \<open>Segments\<close>

definition first_of :: "'a list \<Rightarrow> 'a option \<Rightarrow> 'a option" where
  "first_of xs b = (case xs of [] \<Rightarrow> b | x # _ \<Rightarrow> Some x)"

definition last_of :: "'a option \<Rightarrow> 'a list \<Rightarrow> 'a option" where
  "last_of a xs = (if xs = [] then a else Some (last xs))"

fun dseg :: "('a \<Rightarrow> 'a option) \<Rightarrow> ('a \<Rightarrow> 'a option) \<Rightarrow> 'a option \<Rightarrow> 'a list \<Rightarrow> 'a option \<Rightarrow> bool" where
  "dseg nx pv a [] b \<longleftrightarrow> True"
| "dseg nx pv a (x # xs) b \<longleftrightarrow> pv x = a \<and> nx x = first_of xs b \<and> dseg nx pv (Some x) xs b"

lemma first_of_simps [simp]:
  "first_of [] b = b" "first_of (x # xs) b = Some x"
  by (simp_all add: first_of_def)

lemma first_of_append [simp]: "first_of (xs @ ys) b = first_of xs (first_of ys b)"
  by (cases xs) auto

lemma last_of_simps [simp]:
  "last_of a [] = a" "last_of a (x # xs) = last_of (Some x) xs"
  by (simp_all add: last_of_def)

lemma last_of_append [simp]: "last_of a (xs @ ys) = last_of (last_of a xs) ys"
  by (induction xs arbitrary: a) auto

lemma last_of_in: "last_of a xs = Some x \<Longrightarrow> a = Some x \<or> x \<in> set xs"
  by (auto simp: last_of_def split: if_splits)

lemma last_of_nonempty: "xs \<noteq> [] \<Longrightarrow> \<exists>x \<in> set xs. last_of a xs = Some x"
  by (auto simp: last_of_def)

lemma first_of_in: "first_of xs b = Some x \<Longrightarrow> b = Some x \<or> x \<in> set xs"
  by (cases xs) auto

lemma first_of_None_iff [simp]: "first_of xs None = None \<longleftrightarrow> xs = []"
  by (cases xs) auto

lemma dseg_append [simp]:
  "dseg nx pv a (xs @ ys) b \<longleftrightarrow> dseg nx pv a xs (first_of ys b) \<and> dseg nx pv (last_of a xs) ys b"
  by (induction xs arbitrary: a) auto

text \<open>Only the nodes of a segment matter: writes elsewhere leave it alone.\<close>

lemma dseg_cong:
  assumes "\<And>x. x \<in> set xs \<Longrightarrow> nx' x = nx x" "\<And>x. x \<in> set xs \<Longrightarrow> pv' x = pv x"
  shows "dseg nx' pv' a xs b = dseg nx pv a xs b"
  using assms by (induction xs arbitrary: a) auto

lemma dseg_upd_next [simp]: "y \<notin> set xs \<Longrightarrow> dseg (nx(y := v)) pv a xs b = dseg nx pv a xs b"
  by (rule dseg_cong) auto

lemma dseg_upd_prev [simp]: "y \<notin> set xs \<Longrightarrow> dseg nx (pv(y := v)) a xs b = dseg nx pv a xs b"
  by (rule dseg_cong) auto

text \<open>Rewriting the outgoing links at the two ends of a segment.\<close>

lemma dseg_set_last_next:
  assumes "dseg nx pv a (xs @ [x]) b" "x \<notin> set xs"
  shows "dseg (nx(x := c)) pv a (xs @ [x]) c"
  using assms by simp

lemma dseg_set_first_prev:
  assumes "dseg nx pv a (x # xs) b" "x \<notin> set xs"
  shows "dseg nx (pv(x := c)) c (x # xs) b"
  using assms by simp

text \<open>
  The two list surgeries the code performs: unlinking a node that has a predecessor, and
  linking a fresh node between a predecessor and what follows it.
\<close>

definition link_next :: "'a option \<Rightarrow> 'a option \<Rightarrow> ('a \<Rightarrow> 'a option) \<Rightarrow> ('a \<Rightarrow> 'a option)" where
  "link_next p v f = (case p of None \<Rightarrow> f | Some x \<Rightarrow> f(x := v))"

lemma link_next_simps [simp]:
  "link_next None v f = f" "link_next (Some x) v f = f(x := v)"
  by (simp_all add: link_next_def)

lemma dseg_relink_next:
  assumes "dseg nx pv a xs b" "distinct xs"
  shows "dseg (link_next (if xs = [] then None else Some (last xs)) c nx) pv a xs c"
proof (cases xs rule: rev_cases)
  case (snoc ys y)
  with assms show ?thesis by simp
qed simp

lemma dseg_relink_prev:
  assumes "dseg nx pv a xs b" "distinct xs"
  shows "dseg nx (link_next (first_of xs None) c pv) c xs b"
  using assms by (cases xs) auto

lemma dseg_unlink:
  assumes d: "dseg nx pv a (xs @ x # ys) b" and dist: "distinct (xs @ x # ys)" and ne: "xs \<noteq> []"
  shows "dseg (link_next (pv x) (nx x) nx) (link_next (first_of ys None) (pv x) pv) a (xs @ ys) b"
proof -
  from ne obtain zs z where xs: "xs = zs @ [z]" by (cases xs rule: rev_cases) auto
  from d have links: "pv x = Some z" "nx x = first_of ys b" by (simp_all add: xs)
  from d dist xs have left: "dseg (nx(z := first_of ys b)) pv a xs (first_of ys b)"
    by simp
  from d dist have right: "dseg nx (link_next (first_of ys None) (Some z) pv) (Some z) ys b"
    by (intro dseg_relink_prev [of _ _ "Some x"]) simp_all
  have "z \<notin> set ys" using dist xs by auto
  moreover have "first_of ys None = Some y \<Longrightarrow> y \<notin> set xs" for y
    using dist by (cases ys) auto
  ultimately show ?thesis
    using left right links xs by (cases ys) auto
qed

lemma dseg_link:
  assumes d: "dseg nx pv a (xs @ ys) b" and dist: "distinct (xs @ ys)" and ne: "xs \<noteq> []"
    and new: "x \<notin> set (xs @ ys)"
  shows "dseg ((link_next (last_of None xs) (Some x) nx)(x := first_of ys b))
           (link_next (first_of ys None) (Some x) (pv(x := last_of None xs))) a (xs @ x # ys) b"
proof -
  from ne obtain zs z where xs: "xs = zs @ [z]" by (cases xs rule: rev_cases) auto
  from d dist have right: "dseg nx (link_next (first_of ys None) (Some x) pv) (Some x) ys b"
    by (intro dseg_relink_prev [of _ _ "last_of a xs"]) simp_all
  then show ?thesis
    using d dist new xs by (cases ys) (auto simp: fun_upd_twist)
qed

end
