(* ===== verification/Kmem.thy ===== *)
theory Kmem
  imports Dll Lib_Memory
begin

text \<open>
  The kernel allocator \<^verbatim>\<open>mem.c\<close>: \<open>kmalloc\<close>, \<open>kfree\<close> and their helpers over
  the static array \<open>regions\<close>. A \<^verbatim>\<open>region_t*\<close> is an index into that array or
  NULL, the array is a function of the index, and the storage bytes are the machine memory.
  Following NULL, a region list that never ends and running out of region slots are
  \<open>None\<close>.
\<close>

section \<open>State\<close>

record region =
  r_ptr :: u32
  r_size :: u32
  r_next :: "nat option"
  r_prev :: "nat option"
  r_in_use :: bool

record kmem =
  regions :: "nat \<Rightarrow> region"
  free_regions :: "nat option"
  allocated_regions :: "nat option"
  kbytes :: memory

definition MAX_REGIONS :: nat where
  "MAX_REGIONS = 500"

definition storage :: u32 where
  "storage = 0x0C000000"

definition STORAGE_BYTES :: u32 where
  "STORAGE_BYTES = 0x01800000"

definition upd_region :: "nat \<Rightarrow> (region \<Rightarrow> region) \<Rightarrow> kmem \<Rightarrow> kmem" where
  "upd_region i f s = s\<lparr>regions := (regions s)(i := f (regions s i))\<rparr>"

section \<open>Helpers\<close>

definition comp_ptr :: "u32 \<Rightarrow> u32 \<Rightarrow> bool" where
  "comp_ptr left right = (left < right)"

definition in_region :: "u32 \<Rightarrow> region \<Rightarrow> bool" where
  "in_region p r = (comp_ptr (r_ptr r) p \<and> comp_ptr p (r_ptr r + r_size r))"

definition are_adjacent :: "kmem \<Rightarrow> nat option \<Rightarrow> nat option \<Rightarrow> bool" where
  "are_adjacent s first second =
     (case (first, second) of
        (Some i, Some j) \<Rightarrow> r_ptr (regions s i) + r_size (regions s i) = r_ptr (regions s j)
      | _ \<Rightarrow> False)"

definition remove_region :: "nat \<Rightarrow> kmem \<Rightarrow> kmem option" where
  "remove_region i s = do {
     p \<leftarrow> r_prev (regions s i);
     let s1 = upd_region p (\<lambda>r. r\<lparr>r_next := r_next (regions s i)\<rparr>) s;
     let s2 = (case r_next (regions s1 i) of
                 None \<Rightarrow> s1
               | Some n \<Rightarrow> upd_region n (\<lambda>r. r\<lparr>r_prev := r_prev (regions s1 i)\<rparr>) s1);
     let s3 = s2\<lparr>kbytes := memset (kbytes s2) (r_ptr (regions s2 i)) 0 (r_size (regions s2 i))\<rparr>;
     Some (upd_region i (\<lambda>r. r\<lparr>r_in_use := False\<rparr>) s3)
   }"

text \<open>
  \<open>add_region\<close>: the scan for the insertion point is a loop over a linked list, so it is
  a partial function; \<open>new\<close> may be NULL when \<open>new_region\<close> found no slot.
\<close>

partial_function (option) add_scan :: "kmem \<Rightarrow> u32 \<Rightarrow> nat option \<Rightarrow> nat option \<Rightarrow> (nat option \<times> nat option) option" where
  "add_scan s p prev_region region =
     (if region = None then Some (prev_region, region)
      else if comp_ptr (r_ptr (regions s (the region))) p
      then add_scan s p region (r_next (regions s (the region)))
      else Some (prev_region, region))"

definition add_region :: "nat option \<Rightarrow> nat option \<Rightarrow> kmem \<Rightarrow> (kmem \<times> nat option) option" where
  "add_region new_r list_r s =
     (if list_r = None then Some (s, None)
      else do {
        new_i \<leftarrow> new_r;
        (prev_region, region) \<leftarrow> add_scan s (r_ptr (regions s new_i)) None list_r;
        let s1 = (case prev_region of
                    None \<Rightarrow> s
                  | Some p \<Rightarrow> upd_region p (\<lambda>r. r\<lparr>r_next := Some new_i\<rparr>) s);
        let s2 = upd_region new_i (\<lambda>r. r\<lparr>r_prev := prev_region, r_next := region\<rparr>) s1;
        let s3 = (case region of
                    None \<Rightarrow> s2
                  | Some n \<Rightarrow> upd_region n (\<lambda>r. r\<lparr>r_prev := Some new_i\<rparr>) s2);
        Some (s3, Some new_i)
      })"

fun new_region_from :: "nat list \<Rightarrow> u32 \<Rightarrow> u32 \<Rightarrow> kmem \<Rightarrow> kmem \<times> nat option" where
  "new_region_from [] p n s = (s, None)"
| "new_region_from (i # is) p n s =
     (if \<not> r_in_use (regions s i) then
        (upd_region i (\<lambda>r. r\<lparr>r_ptr := p, r_size := n, r_next := None, r_prev := None, r_in_use := True\<rparr>) s, Some i)
      else new_region_from is p n s)"

definition new_region :: "u32 \<Rightarrow> u32 \<Rightarrow> kmem \<Rightarrow> kmem \<times> nat option" where
  "new_region p n s = new_region_from [0..<MAX_REGIONS] p n s"

definition ltrim :: "nat \<Rightarrow> u32 \<Rightarrow> kmem \<Rightarrow> (kmem \<times> u32) option" where
  "ltrim i desired_size s =
     (if r_size (regions s i) < desired_size then Some (s, 0)
      else let oldptr = r_ptr (regions s i) in
        if r_size (regions s i) = desired_size
        then do { s1 \<leftarrow> remove_region i s; Some (s1, oldptr) }
        else Some (upd_region i (\<lambda>r. r\<lparr>r_size := r_size r - desired_size, r_ptr := r_ptr r + desired_size\<rparr>) s, oldptr))"

section \<open>The interface\<close>

definition init_mem :: "kmem \<Rightarrow> kmem" where
  "init_mem s =
     s\<lparr>regions := (regions s)
         (0 := \<lparr>r_ptr = 0, r_size = 0, r_next = Some 1, r_prev = None, r_in_use = True\<rparr>,
          1 := \<lparr>r_ptr = storage, r_size = STORAGE_BYTES, r_next = None, r_prev = Some 0, r_in_use = True\<rparr>,
          2 := \<lparr>r_ptr = 0, r_size = 0, r_next = None, r_prev = None, r_in_use = True\<rparr>),
       free_regions := Some 0,
       allocated_regions := Some 2,
       kbytes := memset (kbytes s) storage 0 STORAGE_BYTES\<rparr>"

definition coalesce :: "nat \<Rightarrow> kmem \<Rightarrow> kmem option" where
  "coalesce i s =
     (case r_next (regions s i) of
        Some j \<Rightarrow>
          if are_adjacent s (Some i) (Some j)
          then remove_region j (upd_region i (\<lambda>r. r\<lparr>r_size := r_size r + r_size (regions s j)\<rparr>) s)
          else Some s
      | None \<Rightarrow> Some s)"

definition claim :: "nat \<Rightarrow> u32 \<Rightarrow> kmem \<Rightarrow> (kmem \<times> u32) option" where
  "claim i n s = do {
     (s1, p) \<leftarrow> ltrim i n s;
     let (s2, new_r) = new_region p n s1;
     (s3, _) \<leftarrow> add_region new_r (allocated_regions s2) s2;
     Some (s3, p)
   }"

partial_function (option) kmalloc_loop :: "u32 \<Rightarrow> nat option \<Rightarrow> kmem \<Rightarrow> (kmem \<times> u32) option" where
  "kmalloc_loop n region s =
     (if region = None then Some (s, 0)
      else do {
        s1 \<leftarrow> coalesce (the region) s;
        if n \<le> r_size (regions s1 (the region)) then claim (the region) n s1
        else kmalloc_loop n (r_next (regions s1 (the region))) s1
      })"

definition kmalloc :: "u32 \<Rightarrow> kmem \<Rightarrow> (kmem \<times> u32) option" where
  "kmalloc n s = (if n = 0 then Some (s, 0) else kmalloc_loop n (free_regions s) s)"

definition release :: "nat \<Rightarrow> kmem \<Rightarrow> kmem option" where
  "release i s = do {
     s1 \<leftarrow> remove_region i s;
     (s2, _) \<leftarrow> add_region (Some i) (free_regions s1) s1;
     Some (upd_region i (\<lambda>r. r\<lparr>r_in_use := True\<rparr>) s2)
   }"

partial_function (option) kfree_loop :: "u32 \<Rightarrow> nat option \<Rightarrow> kmem \<Rightarrow> kmem option" where
  "kfree_loop p region s =
     (if region = None then Some s
      else if r_ptr (regions s (the region)) = p then release (the region) s
      else kfree_loop p (r_next (regions s (the region))) s)"

definition kfree :: "u32 \<Rightarrow> kmem \<Rightarrow> kmem option" where
  "kfree p s = (if p = 0 then Some s else kfree_loop p (allocated_regions s) s)"

section \<open>Region lists\<close>

definition nxt :: "kmem \<Rightarrow> nat \<Rightarrow> nat option" where
  "nxt s i = r_next (regions s i)"

definition prv :: "kmem \<Rightarrow> nat \<Rightarrow> nat option" where
  "prv s i = r_prev (regions s i)"

definition ptr :: "kmem \<Rightarrow> nat \<Rightarrow> u32" where
  "ptr s i = r_ptr (regions s i)"

definition sz :: "kmem \<Rightarrow> nat \<Rightarrow> u32" where
  "sz s i = r_size (regions s i)"

definition used :: "kmem \<Rightarrow> nat \<Rightarrow> bool" where
  "used s i = r_in_use (regions s i)"

lemmas fields = nxt_def prv_def ptr_def sz_def used_def

text \<open>
  \<open>linked s fs as\<close>: behind the sentinels \<open>0\<close> and \<open>2\<close> hang the free regions
  \<open>fs\<close> and the allocated regions \<open>as\<close>, both ordered by address. \<open>links s fs as\<close>
  adds that a slot of the array is marked in use exactly when it is on one of the lists.
\<close>

definition linked :: "kmem \<Rightarrow> nat list \<Rightarrow> nat list \<Rightarrow> bool" where
  "linked s fs as \<longleftrightarrow>
     free_regions s = Some 0 \<and> allocated_regions s = Some 2 \<and>
     dseg (nxt s) (prv s) None (0 # fs) None \<and> dseg (nxt s) (prv s) None (2 # as) None \<and>
     distinct (0 # 2 # fs @ as) \<and> set (0 # 2 # fs @ as) \<subseteq> {..<MAX_REGIONS} \<and>
     ptr s 0 = 0 \<and> sz s 0 = 0 \<and> ptr s 2 = 0 \<and> sz s 2 = 0 \<and>
     sorted_wrt (\<lambda>i j. ptr s i < ptr s j) fs \<and> sorted_wrt (\<lambda>i j. ptr s i < ptr s j) as"

definition links :: "kmem \<Rightarrow> nat list \<Rightarrow> nat list \<Rightarrow> bool" where
  "links s fs as \<longleftrightarrow>
     linked s fs as \<and> (\<forall>i < MAX_REGIONS. used s i \<longleftrightarrow> i \<in> set (0 # 2 # fs @ as))"

lemma upd_region_simps [simp]:
  "regions (upd_region i f s) = (regions s)(i := f (regions s i))"
  "free_regions (upd_region i f s) = free_regions s"
  "allocated_regions (upd_region i f s) = allocated_regions s"
  "kbytes (upd_region i f s) = kbytes s"
  by (simp_all add: upd_region_def)

text \<open>What \<open>remove\<close> does to every field, for a region with a predecessor.\<close>

lemma remove_region_effect:
  assumes "prv s i = Some p" "p \<noteq> i" "nxt s i \<noteq> Some i"
  obtains s' where "remove_region i s = Some s'"
    "nxt s' = link_next (prv s i) (nxt s i) (nxt s)" "prv s' = link_next (nxt s i) (prv s i) (prv s)"
    "ptr s' = ptr s" "sz s' = sz s" "used s' = (used s)(i := False)"
    "free_regions s' = free_regions s" "allocated_regions s' = allocated_regions s"
    "kbytes s' = memset (kbytes s) (ptr s i) 0 (sz s i)"
  using assms
  by (intro that [of "the (remove_region i s)"])
     (auto simp: remove_region_def Let_def fun_eq_iff fields split: option.splits)

lemma add_scan_list:
  "dseg (nxt s) q a xs None \<Longrightarrow>
   add_scan s p b (first_of xs None) =
     Some (last_of b (takeWhile (\<lambda>i. ptr s i < p) xs), first_of (dropWhile (\<lambda>i. ptr s i < p) xs) None)"
proof (induction xs arbitrary: a b)
  case Nil
  show ?case by (subst add_scan.simps) simp
next
  case (Cons x xs)
  then show ?case by (subst add_scan.simps) (auto simp: comp_ptr_def simp flip: fields)
qed

text \<open>
  Linking a region into an address-ordered list whose head is a sentinel at address 0.
\<close>

lemma add_region_effect:
  assumes d: "dseg (nxt s) (prv s) None (h # xs) None" and dist: "distinct (h # xs)"
    and new: "i \<notin> set (h # xs)" and h: "ptr s h = 0" and i: "0 < ptr s i"
  defines "lo \<equiv> takeWhile (\<lambda>j. ptr s j < ptr s i) xs" and "hi \<equiv> dropWhile (\<lambda>j. ptr s j < ptr s i) xs"
  obtains s' where "add_region (Some i) (Some h) s = Some (s', Some i)"
    "nxt s' = (link_next (last_of None (h # lo)) (Some i) (nxt s))(i := first_of hi None)"
    "prv s' = link_next (first_of hi None) (Some i) ((prv s)(i := last_of None (h # lo)))"
    "ptr s' = ptr s" "sz s' = sz s" "used s' = used s"
    "free_regions s' = free_regions s" "allocated_regions s' = allocated_regions s" "kbytes s' = kbytes s"
proof -
  have split: "xs = lo @ hi" by (simp add: lo_def hi_def)
  have "add_scan s (ptr s i) None (first_of (h # xs) None) = Some (last_of None (h # lo), first_of hi None)"
    using add_scan_list [OF d, of "ptr s i" None] h i by (simp add: lo_def hi_def)
  then have scan: "add_scan s (ptr s i) None (Some h) = Some (last_of None (h # lo), first_of hi None)"
    by simp
  obtain l where l: "last_of None (h # lo) = Some l" "l \<in> set (h # lo)"
    using last_of_nonempty [of "h # lo" None] by auto
  have "l \<noteq> i" using l(2) new split by auto
  moreover have "first_of hi None \<noteq> Some i" using new split first_of_in [of hi None i] by auto
  moreover have "first_of hi None \<noteq> Some l"
    using l(2) dist split first_of_in [of hi None l] by auto
  ultimately show ?thesis
    using scan l
    by (intro that [of "fst (the (add_region (Some i) (Some h) s))"])
       (auto simp: add_region_def Let_def fun_eq_iff fields split: option.splits)
qed

text \<open>Insertion by address, on indices and on blocks.\<close>

definition insert_at :: "('a \<Rightarrow> 'b::linorder) \<Rightarrow> 'a \<Rightarrow> 'a list \<Rightarrow> 'a list" where
  "insert_at f x xs = takeWhile (\<lambda>y. f y < f x) xs @ x # dropWhile (\<lambda>y. f y < f x) xs"

lemma set_insert_at [simp]: "set (insert_at f x xs) = insert x (set xs)"
proof -
  have "set xs = set (takeWhile (\<lambda>y. f y < f x) xs) \<union> set (dropWhile (\<lambda>y. f y < f x) xs)"
    by (metis set_append takeWhile_dropWhile_id)
  then show ?thesis by (auto simp: insert_at_def)
qed

lemma insert_at_split: "\<exists>ys zs. xs = ys @ zs \<and> insert_at f x xs = ys @ x # zs"
  by (metis insert_at_def takeWhile_dropWhile_id)

lemma insert_at_Nil [simp]: "insert_at f x [] = [x]"
  and insert_at_Cons [simp]:
    "insert_at f x (y # ys) = (if f y < f x then y # insert_at f x ys else x # y # ys)"
  by (simp_all add: insert_at_def)

lemma distinct_insert_at [simp]: "distinct (insert_at f x xs) \<longleftrightarrow> x \<notin> set xs \<and> distinct xs"
  using insert_at_split [of xs f x] by auto

lemma sorted_insert_at:
  assumes "sorted_wrt (\<lambda>i j. f i < f j) xs" "f x \<notin> f ` set xs"
  shows "sorted_wrt (\<lambda>i j. f i < f j) (insert_at f x xs)"
  using assms
proof (induction xs)
  case Nil
  then show ?case by (simp add: insert_at_def)
next
  case (Cons y ys)
  show ?case
  proof (cases "f y < f x")
    case True
    with Cons have "sorted_wrt (\<lambda>i j. f i < f j) (insert_at f x ys)" by simp
    moreover have "\<forall>z \<in> set (insert_at f x ys). f y < f z" using Cons.prems True by auto
    ultimately show ?thesis using True by (simp add: insert_at_def)
  next
    case False
    with Cons.prems have "f x < f y" by auto
    with False Cons.prems show ?thesis by (auto simp: insert_at_def intro: less_trans)
  qed
qed

lemma map_insert_at: "(\<And>a. g (h a) = f a) \<Longrightarrow> map h (insert_at f x xs) = insert_at g (h x) (map h xs)"
  by (simp add: insert_at_def takeWhile_map dropWhile_map comp_def)

text \<open>
  The two list operations, on one list (head \<open>h\<close>) in the presence of the other (\<open>zs\<close>).
\<close>

lemma remove_from_list:
  assumes d: "dseg (nxt s) (prv s) None ((h # xs) @ i # ys) None" and z: "dseg (nxt s) (prv s) None zs None"
    and dist: "distinct ((h # xs) @ i # ys)" and other: "set ((h # xs) @ i # ys) \<inter> set zs = {}"
  obtains s' where "remove_region i s = Some s'"
    "dseg (nxt s') (prv s') None (h # xs @ ys) None" "dseg (nxt s') (prv s') None zs None"
    "ptr s' = ptr s" "sz s' = sz s" "used s' = (used s)(i := False)"
    "free_regions s' = free_regions s" "allocated_regions s' = allocated_regions s"
    "kbytes s' = memset (kbytes s) (ptr s i) 0 (sz s i)"
proof -
  obtain p where p: "prv s i = Some p" "p \<in> set (h # xs)"
    using d last_of_nonempty [of "h # xs" None] by auto
  have n: "nxt s i = first_of ys None" using d by simp
  have "p \<noteq> i" "nxt s i \<noteq> Some i"
    using p dist n first_of_in [of ys None i] by auto
  then obtain s' where s': "remove_region i s = Some s'"
    "nxt s' = link_next (prv s i) (nxt s i) (nxt s)" "prv s' = link_next (nxt s i) (prv s i) (prv s)"
    "ptr s' = ptr s" "sz s' = sz s" "used s' = (used s)(i := False)"
    "free_regions s' = free_regions s" "allocated_regions s' = allocated_regions s"
    "kbytes s' = memset (kbytes s) (ptr s i) 0 (sz s i)"
    using remove_region_effect p(1) by blast
  have "dseg (nxt s') (prv s') None ((h # xs) @ ys) None"
    using dseg_unlink [OF d dist] s'(2,3) n by simp
  moreover have "dseg (nxt s') (prv s') None zs None = dseg (nxt s) (prv s) None zs None"
    using other p n s'(2,3) first_of_in [of ys None]
    by (intro dseg_cong) (auto simp: link_next_def split: option.split)
  ultimately show ?thesis using s' z that by simp
qed

lemma add_to_list:
  assumes d: "dseg (nxt s) (prv s) None (h # xs) None" and z: "dseg (nxt s) (prv s) None zs None"
    and dist: "distinct (h # xs)" and fresh: "i \<notin> set (h # xs @ zs)" and other: "set (h # xs) \<inter> set zs = {}"
    and h: "ptr s h = 0" and i: "0 < ptr s i"
  obtains s' where "add_region (Some i) (Some h) s = Some (s', Some i)"
    "dseg (nxt s') (prv s') None (h # insert_at (ptr s) i xs) None" "dseg (nxt s') (prv s') None zs None"
    "ptr s' = ptr s" "sz s' = sz s" "used s' = used s"
    "free_regions s' = free_regions s" "allocated_regions s' = allocated_regions s" "kbytes s' = kbytes s"
proof -
  define lo where "lo = takeWhile (\<lambda>j. ptr s j < ptr s i) xs"
  define hi where "hi = dropWhile (\<lambda>j. ptr s j < ptr s i) xs"
  have xs: "xs = lo @ hi" by (simp add: lo_def hi_def)
  have fresh': "i \<notin> set (h # xs)" using fresh by simp
  obtain s' where s': "add_region (Some i) (Some h) s = Some (s', Some i)"
    "nxt s' = (link_next (last_of None (h # lo)) (Some i) (nxt s))(i := first_of hi None)"
    "prv s' = link_next (first_of hi None) (Some i) ((prv s)(i := last_of None (h # lo)))"
    "ptr s' = ptr s" "sz s' = sz s" "used s' = used s"
    "free_regions s' = free_regions s" "allocated_regions s' = allocated_regions s" "kbytes s' = kbytes s"
    using add_region_effect [OF d dist fresh' h i] unfolding lo_def [symmetric] hi_def [symmetric] by blast
  have "dseg (nxt s') (prv s') None ((h # lo) @ i # hi) None"
    unfolding s'(2,3) using d dist fresh xs by (intro dseg_link) auto
  moreover have "h # insert_at (ptr s) i xs = (h # lo) @ i # hi"
    by (simp add: insert_at_def lo_def hi_def)
  moreover have "last_of None (h # lo) = Some x \<Longrightarrow> x \<notin> set zs" "first_of hi None = Some x \<Longrightarrow> x \<notin> set zs" for x
    using last_of_in [of None "h # lo" x] first_of_in [of hi None x] other xs by auto
  then have "dseg (nxt s') (prv s') None zs None = dseg (nxt s) (prv s) None zs None"
    using fresh unfolding s'(2,3) by (intro dseg_cong) (auto simp: link_next_def split: option.split)
  ultimately show ?thesis using s' z that by simp
qed

lemma linked_remove_free:
  assumes "linked s (xs @ i # ys) as"
  obtains s' where "remove_region i s = Some s'" "linked s' (xs @ ys) as"
    "ptr s' = ptr s" "sz s' = sz s" "used s' = (used s)(i := False)"
    "kbytes s' = memset (kbytes s) (ptr s i) 0 (sz s i)"
proof -
  note l = assms [unfolded linked_def]
  then show ?thesis
    using that by (rule_tac remove_from_list [of s 0 xs i ys "2 # as"]) (auto simp: linked_def sorted_wrt_append)
qed

lemma linked_remove_alloc:
  assumes "linked s fs (xs @ i # ys)"
  obtains s' where "remove_region i s = Some s'" "linked s' fs (xs @ ys)"
    "ptr s' = ptr s" "sz s' = sz s" "used s' = (used s)(i := False)"
    "kbytes s' = memset (kbytes s) (ptr s i) 0 (sz s i)"
proof -
  note l = assms [unfolded linked_def]
  then show ?thesis
    using that by (rule_tac remove_from_list [of s 2 xs i ys "0 # fs"]) (auto simp: linked_def sorted_wrt_append)
qed

lemma linked_add_free:
  assumes "linked s fs as" and i: "i < MAX_REGIONS" "i \<notin> set (0 # 2 # fs @ as)" "0 < ptr s i"
    and new: "ptr s i \<notin> ptr s ` set fs"
  obtains s' where "add_region (Some i) (Some 0) s = Some (s', Some i)"
    "linked s' (insert_at (ptr s) i fs) as"
    "ptr s' = ptr s" "sz s' = sz s" "used s' = used s" "kbytes s' = kbytes s"
proof -
  note l = assms(1) [unfolded linked_def]
  then have "sorted_wrt (\<lambda>i j. ptr s i < ptr s j) (insert_at (ptr s) i fs)"
    using new by (intro sorted_insert_at) auto
  with l i show ?thesis
    using that by (rule_tac add_to_list [of s 0 fs "2 # as" i]) (auto simp: linked_def)
qed

lemma linked_add_alloc:
  assumes "linked s fs as" and i: "i < MAX_REGIONS" "i \<notin> set (0 # 2 # fs @ as)" "0 < ptr s i"
    and new: "ptr s i \<notin> ptr s ` set as"
  obtains s' where "add_region (Some i) (Some 2) s = Some (s', Some i)"
    "linked s' fs (insert_at (ptr s) i as)"
    "ptr s' = ptr s" "sz s' = sz s" "used s' = used s" "kbytes s' = kbytes s"
proof -
  note l = assms(1) [unfolded linked_def]
  then have "sorted_wrt (\<lambda>i j. ptr s i < ptr s j) (insert_at (ptr s) i as)"
    using new by (intro sorted_insert_at) auto
  with l i show ?thesis
    using that by (rule_tac add_to_list [of s 2 as "0 # fs" i]) (auto simp: linked_def)
qed

text \<open>\<open>new_region\<close> finds a slot whenever the array has one left.\<close>

lemma new_region_from_found:
  "(\<exists>i \<in> set is. \<not> used s i) \<Longrightarrow>
   \<exists>k \<in> set is. \<not> used s k \<and> new_region_from is p n s =
     (upd_region k (\<lambda>r. r\<lparr>r_ptr := p, r_size := n, r_next := None, r_prev := None, r_in_use := True\<rparr>) s, Some k)"
  by (induction "is") (auto simp: used_def)

lemma new_region_found:
  assumes L: "links s fs as" and room: "length fs + length as + 2 < MAX_REGIONS"
  obtains k where "k < MAX_REGIONS" "k \<notin> set (0 # 2 # fs @ as)"
    "new_region p n s =
       (upd_region k (\<lambda>r. r\<lparr>r_ptr := p, r_size := n, r_next := None, r_prev := None, r_in_use := True\<rparr>) s, Some k)"
proof -
  have "card (set (0 # 2 # fs @ as)) < card {..<MAX_REGIONS}"
    using room card_length [of "0 # 2 # fs @ as"] by simp
  then have "\<not> {..<MAX_REGIONS} \<subseteq> set (0 # 2 # fs @ as)"
    by (metis List.finite_set card_mono not_less)
  then have "\<exists>i \<in> set [0..<MAX_REGIONS]. \<not> used s i"
    using L by (auto simp: links_def)
  then obtain k where "k \<in> set [0..<MAX_REGIONS]" "\<not> used s k" "new_region p n s =
     (upd_region k (\<lambda>r. r\<lparr>r_ptr := p, r_size := n, r_next := None, r_prev := None, r_in_use := True\<rparr>) s, Some k)"
    using new_region_from_found [of "[0..<MAX_REGIONS]" s p n] by (auto simp: new_region_def)
  with L that show ?thesis by (auto simp: links_def)
qed

section \<open>The abstract allocator\<close>

text \<open>
  A block is a pair of address and size; the allocator is an address-ordered list of free
  blocks and one of allocated blocks. \<open>first_fit\<close> is the search \<open>kmalloc\<close> performs:
  at each block, join it with the next one if they touch, then take the request from its left
  end if it is large enough.
\<close>

type_synonym block = "nat \<times> nat"

fun merge_head :: "block list \<Rightarrow> block list" where
  "merge_head ((p, z) # (q, y) # bs) = (if p + z = q then (p, z + y) # bs else (p, z) # (q, y) # bs)"
| "merge_head bs = bs"

lemma length_merge_head: "length (merge_head bs) \<le> length bs"
  by (cases bs rule: merge_head.cases) auto

definition trim :: "nat \<Rightarrow> block \<Rightarrow> block list" where
  "trim n b = (if n = snd b then [] else [(fst b + n, snd b - n)])"

function first_fit :: "nat \<Rightarrow> block list \<Rightarrow> block list \<times> nat option" where
  "first_fit n bs =
     (case merge_head bs of
        [] \<Rightarrow> ([], None)
      | b # rest \<Rightarrow>
          if n \<le> snd b then (trim n b @ rest, Some (fst b))
          else let (free, res) = first_fit n rest in (b # free, res))"
  by pat_completeness auto
termination
proof (relation "measure (\<lambda>(n, bs). length bs)")
  fix n bs b rest
  assume "merge_head bs = b # rest"
  then show "((n, rest), n, bs) \<in> measure (\<lambda>(n, bs). length bs)"
    using length_merge_head [of bs] by simp
qed simp

declare first_fit.simps [simp del]

definition a_malloc :: "nat \<Rightarrow> block list \<Rightarrow> block list \<Rightarrow> block list \<times> block list \<times> nat" where
  "a_malloc n free alloc =
     (case first_fit n free of
        (free', None) \<Rightarrow> (free', alloc, 0)
      | (free', Some p) \<Rightarrow> (free', insert_at fst (p, n) alloc, p))"

definition a_free :: "nat \<Rightarrow> block list \<Rightarrow> block list \<Rightarrow> block list \<times> block list" where
  "a_free p free alloc =
     (case List.find (\<lambda>b. fst b = p) alloc of
        None \<Rightarrow> (free, alloc)
      | Some b \<Rightarrow> (insert_at fst b free, filter (\<lambda>c. fst c \<noteq> p) alloc))"

definition in_storage :: "block \<Rightarrow> bool" where
  "in_storage b \<longleftrightarrow> MB 192 \<le> fst b \<and> fst b + snd b \<le> MB 216 \<and> 0 < snd b"

definition zeroed :: "memory \<Rightarrow> block \<Rightarrow> bool" where
  "zeroed m b \<longleftrightarrow> (\<forall>a. fst b \<le> unat a \<and> unat a < fst b + snd b \<longrightarrow> m a = 0)"

definition blk :: "kmem \<Rightarrow> nat \<Rightarrow> block" where
  "blk s i = (unat (ptr s i), unat (sz s i))"

lemma fst_blk [simp]: "fst (blk s i) = unat (ptr s i)" and snd_blk [simp]: "snd (blk s i) = unat (sz s i)"
  by (simp_all add: blk_def)

lemma memset_zeroed:
  assumes "zeroed m (unat p, unat n)" "unat p + unat n \<le> 4294967296"
  shows "memset m p 0 n = m"
proof
  fix a
  have "m a = 0" if "unat (a - p) < unat n"
  proof -
    have "unat a = unat p + unat (a - p)"
      using that assms(2) unat_add_nowrap [of p "a - p"] by simp
    with that assms(1) show ?thesis by (simp add: zeroed_def)
  qed
  then show "memset m p 0 n a = m a" by (simp add: memset_fill store_bytes_def)
qed

section \<open>Refinement\<close>

lemma links_dseg: "links s fs as \<Longrightarrow> dseg (nxt s) (prv s) None (0 # fs) None"
  by (simp add: links_def linked_def)

lemma links_next:
  assumes "links s (xs @ i # ys) as"
  shows "nxt s i = first_of ys None"
  using links_dseg [OF assms] by simp

lemma linked_fields_cong:
  assumes L: "linked s fs as" and heads: "free_regions s' = free_regions s" "allocated_regions s' = allocated_regions s"
    and eq: "\<And>i. i \<in> set (0 # 2 # fs @ as) \<Longrightarrow> nxt s' i = nxt s i \<and> prv s' i = prv s i"
    and p: "ptr s' 0 = ptr s 0" "ptr s' 2 = ptr s 2" and z: "sz s' 0 = sz s 0" "sz s' 2 = sz s 2"
    and srt: "sorted_wrt (\<lambda>i j. ptr s' i < ptr s' j) fs" "sorted_wrt (\<lambda>i j. ptr s' i < ptr s' j) as"
  shows "linked s' fs as"
proof -
  have "dseg (nxt s') (prv s') None (0 # fs) None = dseg (nxt s) (prv s) None (0 # fs) None"
    by (rule dseg_cong) (use eq in auto)
  moreover have "dseg (nxt s') (prv s') None (2 # as) None = dseg (nxt s) (prv s) None (2 # as) None"
    by (rule dseg_cong) (use eq in auto)
  ultimately show ?thesis using L heads p z srt unfolding linked_def by metis
qed

lemma sorted_ptr_cong:
  assumes "sorted_wrt (\<lambda>i j. ptr s i < ptr s j) xs" "\<And>i. i \<in> set xs \<Longrightarrow> ptr s' i = ptr s i"
  shows "sorted_wrt (\<lambda>i j. ptr s' i < ptr s' j) xs"
  using assms(1) by (rule sorted_wrt_mono_rel [rotated]) (simp add: assms(2))

lemma linked_sorted:
  assumes "linked s fs as"
  shows "sorted_wrt (\<lambda>i j. ptr s i < ptr s j) fs" "sorted_wrt (\<lambda>i j. ptr s i < ptr s j) as"
  using assms by (simp_all add: linked_def)

lemma coalesce_refines:
  assumes L: "links s (xs @ i # ys) as"
    and B: "\<forall>j \<in> set (i # ys). in_storage (blk s j) \<and> zeroed (kbytes s) (blk s j)"
  obtains s1 ys1 where "coalesce i s = Some s1" "links s1 (xs @ i # ys1) as"
    "map (blk s1) (i # ys1) = merge_head (map (blk s) (i # ys))"
    "map (blk s1) (xs @ as) = map (blk s) (xs @ as)" "kbytes s1 = kbytes s"
    "ptr s1 = ptr s" "set ys1 \<subseteq> set ys" "length ys1 \<le> length ys"
proof (cases ys)
  case Nil
  then show ?thesis using that [of s "[]"] L links_next [OF L] by (simp add: coalesce_def flip: fields)
next
  case (Cons j ys')
  have n: "nxt s i = Some j" using links_next [OF L] Cons by simp
  have bi: "unat (ptr s i) + unat (sz s i) \<le> MB 216" and bj: "unat (ptr s j) + unat (sz s j) \<le> MB 216"
    and zj: "zeroed (kbytes s) (blk s j)" using B Cons by (auto simp: in_storage_def)
  then have adj: "ptr s i + sz s i = ptr s j \<longleftrightarrow> unat (ptr s i) + unat (sz s i) = unat (ptr s j)"
    by (simp add: word_unat_eq_iff unat_add_nowrap)
  show ?thesis
  proof (cases "ptr s i + sz s i = ptr s j")
    case False
    with n adj Cons L show ?thesis
      using that [of s ys] by (simp add: coalesce_def are_adjacent_def blk_def flip: fields)
  next
    case True
    let ?t = "upd_region i (\<lambda>r. r\<lparr>r_size := r_size r + r_size (regions s j)\<rparr>) s"
    have t: "nxt ?t = nxt s" "prv ?t = prv s" "ptr ?t = ptr s" "used ?t = used s"
      "sz ?t = (sz s)(i := sz s i + sz s j)"
      by (auto simp: fields fun_eq_iff)
    have ne: "i \<noteq> 0" "i \<noteq> 2" "i \<noteq> j" "i \<notin> set xs" "i \<notin> set as" "i \<notin> set ys'"
      using L Cons by (auto simp: links_def linked_def)
    have lk0: "linked s ((xs @ [i]) @ j # ys') as" using L Cons by (simp add: links_def)
    have z0: "sz ?t 0 = sz s 0" "sz ?t 2 = sz s 2" unfolding t using ne by simp_all
    have "linked ?t ((xs @ [i]) @ j # ys') as"
      by (rule linked_fields_cong [OF lk0 _ _ _ _ _ z0]) (use linked_sorted [OF lk0] in \<open>simp_all add: t(1,2,3)\<close>)
    then obtain s1 where r: "remove_region j ?t = Some s1"
      and lk: "linked s1 ((xs @ [i]) @ ys') as" and p: "ptr s1 = ptr ?t" and z: "sz s1 = sz ?t"
      and u: "used s1 = (used ?t)(j := False)"
      and k: "kbytes s1 = memset (kbytes ?t) (ptr ?t j) 0 (sz ?t j)"
      by (rule linked_remove_free)
    have kt: "kbytes ?t = kbytes s" by simp
    have z2: "sz s1 = (sz s)(i := sz s i + sz s j)" using z unfolding t .
    have p2: "ptr s1 = ptr s" using p unfolding t .
    have u2: "used s1 = (used s)(j := False)" using u unfolding t .
    have k2: "kbytes s1 = memset (kbytes s) (ptr s j) 0 (sz s j)"
      using k ne(3) unfolding t kt by simp
    have mem: "kbytes s1 = kbytes s"
      using k2 memset_zeroed [of "kbytes s" "ptr s j" "sz s j"] zj bj by (simp add: blk_def)
    have "unat (sz s i + sz s j) = unat (sz s i) + unat (sz s j)"
      using True adj bi bj by (intro unat_add_nowrap) simp
    with ne True adj Cons z2 p2 have "map (blk s1) (i # ys') = merge_head (map (blk s) (i # ys))"
      by (auto simp: blk_def)
    moreover have "links s1 (xs @ i # ys') as"
      using L Cons lk u2 by (auto simp: links_def linked_def)
    moreover have "map (blk s1) (xs @ as) = map (blk s) (xs @ as)"
      using ne z2 p2 by (auto simp: blk_def)
    moreover have "coalesce i s = Some s1"
      using r n True by (simp add: coalesce_def are_adjacent_def flip: fields)
    ultimately show ?thesis
      using that [of s1 ys'] mem p2 Cons by auto
  qed
qed

definition apart :: "block list \<Rightarrow> bool" where
  "apart bs = sorted_wrt (\<lambda>b c. fst b + snd b \<le> fst c) bs"

lemma ltrim_refines:
  assumes L: "links s (xs @ i # ys) as" and n: "n \<le> sz s i" "n \<noteq> 0"
    and B: "in_storage (blk s i)" "zeroed (kbytes s) (blk s i)" and D: "apart (map (blk s) (i # ys))"
  obtains s1 fs where "ltrim i n s = Some (s1, ptr s i)" "links s1 (xs @ fs) as"
    "map (blk s1) fs = trim (unat n) (blk s i) @ map (blk s) ys" "length fs \<le> Suc (length ys)"
    "map (blk s1) (xs @ as) = map (blk s) (xs @ as)" "kbytes s1 = kbytes s"
proof (cases "sz s i = n")
  case True
  have lk: "linked s (xs @ i # ys) as" using L by (simp add: links_def)
  obtain s1 where r: "remove_region i s = Some s1" and lk1: "linked s1 (xs @ ys) as"
    and f: "ptr s1 = ptr s" "sz s1 = sz s" and u: "used s1 = (used s)(i := False)"
    and k: "kbytes s1 = memset (kbytes s) (ptr s i) 0 (sz s i)"
    using lk by (rule linked_remove_free)
  have "kbytes s1 = kbytes s"
    using k memset_zeroed [of "kbytes s" "ptr s i" "sz s i"] B by (simp add: blk_def in_storage_def)
  moreover have "links s1 (xs @ ys) as"
    using L lk1 u by (auto simp: links_def linked_def)
  moreover have "blk s1 = blk s" by (simp add: blk_def f fun_eq_iff)
  moreover have "ltrim i n s = Some (s1, ptr s i)"
    using r True by (simp add: ltrim_def flip: fields)
  ultimately show ?thesis using that [of s1 ys] True by (simp add: trim_def)
next
  case False
  let ?s1 = "upd_region i (\<lambda>r. r\<lparr>r_size := r_size r - n, r_ptr := r_ptr r + n\<rparr>) s"
  have t: "nxt ?s1 = nxt s" "prv ?s1 = prv s" "used ?s1 = used s"
    "sz ?s1 = (sz s)(i := sz s i - n)" "ptr ?s1 = (ptr s)(i := ptr s i + n)" "kbytes ?s1 = kbytes s"
    by (auto simp: fields fun_eq_iff)
  have lk: "linked s (xs @ i # ys) as" using L by (simp add: links_def)
  then have ne: "i \<noteq> 0" "i \<noteq> 2" "i \<notin> set xs" "i \<notin> set as" "i \<notin> set ys" by (auto simp: linked_def)
  have lt: "n < sz s i" using n False by simp
  have pn: "unat (ptr s i + n) = unat (ptr s i) + unat n"
    using B lt by (auto simp: in_storage_def word_less_nat_alt intro: unat_add_nowrap)
  have sn: "unat (sz s i - n) = unat (sz s i) - unat n"
    using n(1) by (simp add: unat_sub_nowrap word_le_nat_alt)
  have "ptr s i < ptr s i + n" using pn n by (simp add: word_less_nat_alt unat_gt_0)
  moreover have "ptr s i + n < ptr s j" if "j \<in> set ys" for j
    using that D pn lt by (auto simp: apart_def word_less_nat_alt)
  ultimately have srt: "sorted_wrt (\<lambda>i j. ptr ?s1 i < ptr ?s1 j) (xs @ i # ys)"
    using linked_sorted(1) [OF lk] ne unfolding t
    by (auto simp: sorted_wrt_append intro: less_trans intro!: sorted_wrt_mono_rel [of _ "\<lambda>i j. ptr s i < ptr s j"])
  have srt2: "sorted_wrt (\<lambda>i j. ptr ?s1 i < ptr ?s1 j) as"
    using linked_sorted(2) [OF lk] by (rule sorted_ptr_cong) (use ne in \<open>auto simp: t\<close>)
  have "linked ?s1 (xs @ i # ys) as"
    by (rule linked_fields_cong [OF lk _ _ _ _ _ _ _ srt srt2]) (use ne in \<open>simp_all add: t\<close>)
  then have "links ?s1 (xs @ i # ys) as" using L by (simp add: links_def t)
  moreover have "map (blk ?s1) (i # ys) = trim (unat n) (blk s i) @ map (blk s) ys"
    using ne lt pn sn by (auto simp: blk_def t trim_def word_less_nat_alt)
  moreover have "map (blk ?s1) (xs @ as) = map (blk s) (xs @ as)"
    using ne by (auto simp: blk_def t)
  moreover have "ltrim i n s = Some (?s1, ptr s i)"
    using lt False n(1) by (auto simp: ltrim_def Let_def simp flip: fields)
  ultimately show ?thesis using that [of ?s1 "i # ys"] by simp
qed

lemma linked_new_slot:
  assumes L: "linked s fs as" and k: "k \<notin> set (0 # 2 # fs @ as)"
  shows "linked (upd_region k f s) fs as"
proof -
  let ?t = "upd_region k f s"
  have eq: "nxt ?t i = nxt s i \<and> prv ?t i = prv s i" "ptr ?t i = ptr s i" "sz ?t i = sz s i"
    if "i \<in> set (0 # 2 # fs @ as)" for i
    using that k by (auto simp: fields)
  have srt: "sorted_wrt (\<lambda>i j. ptr ?t i < ptr ?t j) fs" "sorted_wrt (\<lambda>i j. ptr ?t i < ptr ?t j) as"
    using linked_sorted [OF L] by (auto intro: sorted_ptr_cong simp: eq)
  show ?thesis
    by (rule linked_fields_cong [OF L _ _ eq(1) _ _ _ _ srt]) (simp_all add: eq)
qed

lemma claim_refines:
  assumes L: "links s (xs @ i # ys) as" and n: "n \<le> sz s i" "n \<noteq> 0"
    and B: "in_storage (blk s i)" "zeroed (kbytes s) (blk s i)" and D: "apart (map (blk s) (i # ys))"
    and room: "length (xs @ i # ys) + length as + 2 < MAX_REGIONS" and new: "ptr s i \<notin> ptr s ` set as"
  obtains s' fs as' where "claim i n s = Some (s', ptr s i)" "links s' (xs @ fs) as'"
    "map (blk s') fs = trim (unat n) (blk s i) @ map (blk s) ys" "map (blk s') xs = map (blk s) xs"
    "map (blk s') as' = insert_at fst (unat (ptr s i), unat n) (map (blk s) as)" "kbytes s' = kbytes s"
proof -
  obtain s1 fs where s1: "ltrim i n s = Some (s1, ptr s i)" and L1: "links s1 (xs @ fs) as"
    and b1: "map (blk s1) fs = trim (unat n) (blk s i) @ map (blk s) ys" and len: "length fs \<le> Suc (length ys)"
    and o1: "map (blk s1) (xs @ as) = map (blk s) (xs @ as)" and k1: "kbytes s1 = kbytes s"
    using L n B D by (rule ltrim_refines)
  have room1: "length (xs @ fs) + length as + 2 < MAX_REGIONS" using room len by simp
  let ?new = "\<lambda>r. r\<lparr>r_ptr := ptr s i, r_size := n, r_next := None, r_prev := None, r_in_use := True\<rparr>"
  obtain k where k: "k < MAX_REGIONS" "k \<notin> set (0 # 2 # (xs @ fs) @ as)"
    and s2: "new_region (ptr s i) n s1 = (upd_region k ?new s1, Some k)"
    using L1 room1 by (rule new_region_found)
  let ?s2 = "upd_region k ?new s1"
  have t: "ptr ?s2 = (ptr s1)(k := ptr s i)" "sz ?s2 = (sz s1)(k := n)" "used ?s2 = (used s1)(k := True)"
    by (auto simp: fields fun_eq_iff)
  have L2: "linked ?s2 (xs @ fs) as" using linked_new_slot L1 k(2) by (auto simp: links_def)
  have blk2: "blk ?s2 j = blk s1 j" if "j \<in> set (xs @ fs @ as)" for j
    using that k(2) by (auto simp: blk_def t)
  have old: "ptr s1 j = ptr s j" if "j \<in> set as" for j
    using o1 that by (auto simp: blk_def word_unat_eq_iff)
  have fresh: "ptr ?s2 k \<notin> ptr ?s2 ` set as" using new old k(2) by (auto simp: t image_iff)
  have pos: "0 < ptr ?s2 k" using B by (auto simp: t in_storage_def word_less_nat_alt)
  obtain s3 where s3: "add_region (Some k) (Some 2) ?s2 = Some (s3, Some k)"
    and L3: "linked s3 (xs @ fs) (insert_at (ptr ?s2) k as)"
    and f3: "ptr s3 = ptr ?s2" "sz s3 = sz ?s2" "used s3 = used ?s2" and k3: "kbytes s3 = kbytes ?s2"
    using L2 k(1) k(2) pos fresh by (rule linked_add_alloc)
  have b3: "blk s3 = blk ?s2" by (simp add: blk_def f3 fun_eq_iff)
  have "allocated_regions ?s2 = Some 2" using L2 unfolding linked_def by simp
  then have "claim i n s = Some (s3, ptr s i)"
    using s1 s2 s3 by (simp add: claim_def Let_def)
  moreover have "links s3 (xs @ fs) (insert_at (ptr ?s2) k as)"
    using L1 L3 k(1) by (auto simp: links_def f3 t)
  moreover have "map (blk s3) fs = trim (unat n) (blk s i) @ map (blk s) ys" "map (blk s3) xs = map (blk s) xs"
    using o1 by (auto simp: b3 blk2 simp flip: b1)
  moreover have "map (blk s3) (insert_at (ptr ?s2) k as) = insert_at fst (blk s3 k) (map (blk s3) as)"
    by (simp add: insert_at_def takeWhile_map dropWhile_map comp_def f3(1) word_less_nat_alt)
  moreover have "blk s3 k = (unat (ptr s i), unat n)" by (simp add: b3 blk_def t)
  moreover have "map (blk s3) as = map (blk s) as"
    using o1 by (auto simp: b3 blk2)
  ultimately show ?thesis using that k3 k1 by simp
qed

text \<open>The free list is usable: in the storage area, without overlaps, and all zero.\<close>

definition usable :: "memory \<Rightarrow> block list \<Rightarrow> bool" where
  "usable m bs \<longleftrightarrow> (\<forall>b \<in> set bs. in_storage b \<and> zeroed m b) \<and> apart bs"

lemma usable_Cons:
  "usable m (b # bs) \<longleftrightarrow>
     in_storage b \<and> zeroed m b \<and> (\<forall>c \<in> set bs. fst b + snd b \<le> fst c) \<and> usable m bs"
  by (auto simp: usable_def apart_def)

lemma zeroed_join: "zeroed m (p, z) \<Longrightarrow> zeroed m (p + z, y) \<Longrightarrow> zeroed m (p, z + y)"
  unfolding zeroed_def by (auto simp: not_less add.assoc) (meson not_less)

lemma usable_merge_head: "usable m bs \<Longrightarrow> usable m (merge_head bs)"
  by (cases bs rule: merge_head.cases) (auto simp: usable_Cons in_storage_def zeroed_join)

lemma addresses_merge_head: "fst ` set (merge_head bs) \<subseteq> fst ` set bs"
  by (cases bs rule: merge_head.cases) auto

lemma first_fit_unfold:
  "merge_head bs = b # rest \<Longrightarrow>
   first_fit n bs = (if n \<le> snd b then (trim n b @ rest, Some (fst b))
                     else let (free, res) = first_fit n rest in (b # free, res))"
  "merge_head bs = [] \<Longrightarrow> first_fit n bs = ([], None)"
  by (simp_all add: first_fit.simps [of n bs])

lemma kmalloc_loop_refines:
  assumes "links s (xs @ ys) as" "usable (kbytes s) (map (blk s) ys)" "n \<noteq> 0"
    "length (xs @ ys) + length as + 2 < MAX_REGIONS" "ptr s ` set ys \<inter> ptr s ` set as = {}"
  shows "\<exists>s' fs as' r. kmalloc_loop n (first_of ys None) s = Some (s', r) \<and> links s' (xs @ fs) as' \<and>
    a_malloc (unat n) (map (blk s) ys) (map (blk s) as) = (map (blk s') fs, map (blk s') as', unat r) \<and>
    map (blk s') xs = map (blk s) xs \<and> kbytes s' = kbytes s"
  using assms
proof (induction "length ys" arbitrary: s xs ys rule: less_induct)
  case less
  show ?case
  proof (cases ys)
    case Nil
    then show ?thesis using less.prems(1)
      by (rule_tac x = s in exI, rule_tac x = "[]" in exI, rule_tac x = as in exI) (simp add: kmalloc_loop.simps a_malloc_def first_fit_unfold)
  next
    case (Cons i ys')
    have B: "\<forall>j \<in> set (i # ys'). in_storage (blk s j) \<and> zeroed (kbytes s) (blk s j)"
      using less.prems(2) Cons by (auto simp: usable_def)
    obtain s1 ys1 where c: "coalesce i s = Some s1" and L1: "links s1 (xs @ i # ys1) as"
      and m: "map (blk s1) (i # ys1) = merge_head (map (blk s) (i # ys'))"
      and o: "map (blk s1) (xs @ as) = map (blk s) (xs @ as)" and k: "kbytes s1 = kbytes s"
      and p: "ptr s1 = ptr s" and sub: "set ys1 \<subseteq> set ys'" and len: "length ys1 \<le> length ys'"
      using less.prems(1) [unfolded Cons] B by (rule coalesce_refines)
    have U: "usable (kbytes s1) (map (blk s1) (i # ys1))"
      using usable_merge_head [OF less.prems(2)] by (simp only: m k Cons)
    have room: "length (xs @ i # ys1) + length as + 2 < MAX_REGIONS" using less.prems(4) len Cons by simp
    have new: "ptr s1 ` set (i # ys1) \<inter> ptr s1 ` set as = {}" using less.prems(5) sub Cons p by auto
    have ff: "first_fit N (map (blk s) ys) = (if N \<le> unat (sz s1 i) then (trim N (blk s1 i) @ map (blk s1) ys1, Some (unat (ptr s1 i)))
        else let (free, res) = first_fit N (map (blk s1) ys1) in (blk s1 i # free, res))" for N
      using m Cons first_fit_unfold(1) [of "map (blk s) ys" "blk s1 i" "map (blk s1) ys1"] by simp
    have step: "kmalloc_loop n (first_of ys None) s =
      (if n \<le> sz s1 i then claim i n s1 else kmalloc_loop n (first_of ys1 None) s1)"
      using c Cons links_next [OF L1] by (subst kmalloc_loop.simps) (simp flip: fields)
    show ?thesis
    proof (cases "n \<le> sz s1 i")
      case True
      have B1: "in_storage (blk s1 i)" "zeroed (kbytes s1) (blk s1 i)" "apart (map (blk s1) (i # ys1))"
        "ptr s1 i \<notin> ptr s1 ` set as" using U new by (auto simp: usable_def)
      obtain s' fs as' where "claim i n s1 = Some (s', ptr s1 i)" "links s' (xs @ fs) as'"
        "map (blk s') fs = trim (unat n) (blk s1 i) @ map (blk s1) ys1" "map (blk s') xs = map (blk s1) xs"
        "map (blk s') as' = insert_at fst (unat (ptr s1 i), unat n) (map (blk s1) as)" "kbytes s' = kbytes s1"
        using L1 True less.prems(3) B1(1-3) room B1(4) by (rule claim_refines)
      then show ?thesis
        using step True ff [of "unat n"] o k
        by (rule_tac x = s' in exI, rule_tac x = fs in exI, rule_tac x = as' in exI, rule_tac x = "ptr s1 i" in exI)
           (auto simp: a_malloc_def word_le_nat_alt cong: map_cong)
    next
      case False
      have "links s1 ((xs @ [i]) @ ys1) as" "usable (kbytes s1) (map (blk s1) ys1)"
        "length ((xs @ [i]) @ ys1) + length as + 2 < MAX_REGIONS" "ptr s1 ` set ys1 \<inter> ptr s1 ` set as = {}"
        using L1 U room new by (auto simp: usable_Cons)
      moreover have oas: "map (blk s1) as = map (blk s) as" using o by simp
      ultimately obtain s' fs as' r where "kmalloc_loop n (first_of ys1 None) s1 = Some (s', r)"
        "links s' ((xs @ [i]) @ fs) as'" "kbytes s' = kbytes s1" "map (blk s') (xs @ [i]) = map (blk s1) (xs @ [i])"
        "a_malloc (unat n) (map (blk s1) ys1) (map (blk s) as) = (map (blk s') fs, map (blk s') as', unat r)"
        using less.hyps [of ys1 s1 "xs @ [i]"] less.prems(3) len Cons by (auto simp: oas)
      then show ?thesis
        using step False ff [of "unat n"] o k
        by (rule_tac x = s' in exI, rule_tac x = "i # fs" in exI, rule_tac x = as' in exI, rule_tac x = r in exI)
           (auto simp: a_malloc_def word_le_nat_alt split: prod.splits option.splits)
    qed
  qed
qed

text \<open>
  \<open>heap s free alloc\<close>: the region lists of \<open>s\<close> hold the blocks \<open>free\<close> and
  \<open>alloc\<close>, no two of them overlap, the free ones are all zero, and together they make up
  the 24MB of storage.
\<close>

definition area :: "block \<Rightarrow> nat set" where
  "area b = {fst b..<fst b + snd b}"

definition areas :: "block list \<Rightarrow> nat set" where
  "areas bs = \<Union> (area ` set bs)"

definition heap_inv :: "memory \<Rightarrow> block list \<Rightarrow> block list \<Rightarrow> bool" where
  "heap_inv m free alloc \<longleftrightarrow> usable m free \<and> apart alloc \<and> (\<forall>b \<in> set alloc. in_storage b) \<and>
     areas free \<inter> areas alloc = {} \<and> areas free \<union> areas alloc = {MB 192..<MB 216}"

definition heap :: "kmem \<Rightarrow> block list \<Rightarrow> block list \<Rightarrow> bool" where
  "heap s free alloc \<longleftrightarrow>
     (\<exists>fs as. links s fs as \<and> map (blk s) fs = free \<and> map (blk s) as = alloc) \<and>
     heap_inv (kbytes s) free alloc"

lemma areas_simps [simp]:
  "areas [] = {}" "areas (b # bs) = area b \<union> areas bs" "areas (bs @ cs) = areas bs \<union> areas cs"
  by (auto simp: areas_def)

lemma start_in_area: "in_storage b \<Longrightarrow> fst b \<in> area b"
  by (simp add: area_def in_storage_def)

lemma in_areas: "b \<in> set bs \<Longrightarrow> x \<in> area b \<Longrightarrow> x \<in> areas bs"
  by (auto simp: areas_def)

lemma distinct_addresses:
  assumes "areas (map (blk s) fs) \<inter> areas (map (blk s) as) = {}"
    "\<forall>i \<in> set fs. in_storage (blk s i)" "\<forall>i \<in> set as. in_storage (blk s i)"
  shows "ptr s ` set fs \<inter> ptr s ` set as = {}"
proof -
  have "ptr s i \<noteq> ptr s j" if "i \<in> set fs" "j \<in> set as" for i j
  proof -
    have "unat (ptr s i) \<in> areas (map (blk s) fs)" "unat (ptr s j) \<in> areas (map (blk s) as)"
      using that assms(2,3) start_in_area [of "blk s i"] start_in_area [of "blk s j"]
      by (auto intro: in_areas [of "blk s i"] in_areas [of "blk s j"])
    then show ?thesis using assms(1) by auto
  qed
  then show ?thesis by auto
qed

lemma kmalloc_skips_sentinel:
  assumes "links s fs as" "\<forall>i \<in> set fs. in_storage (blk s i)" "n \<noteq> 0"
  shows "kmalloc n s = kmalloc_loop n (first_of fs None) s"
proof -
  have f: "free_regions s = Some 0" "ptr s 0 = 0" "sz s 0 = 0" "nxt s 0 = first_of fs None"
    using assms(1) by (auto simp: links_def linked_def)
  have "coalesce 0 s = Some s"
  proof (cases fs)
    case (Cons i js)
    have "ptr s i \<noteq> 0" using assms(2) Cons by (auto simp: in_storage_def)
    then show ?thesis using f Cons by (simp add: coalesce_def are_adjacent_def flip: fields)
  qed (use f in \<open>simp add: coalesce_def flip: fields\<close>)
  then show ?thesis
    using f assms(3) unfolding kmalloc_def by (subst kmalloc_loop.simps) (simp flip: fields)
qed

text \<open>The first fit keeps the heap invariant: it only moves bytes from free to allocated.\<close>

lemma areas_merge_head: "areas (merge_head bs) = areas bs"
  by (cases bs rule: merge_head.cases) (auto simp: area_def)

lemma areas_insert_at: "areas (insert_at f b bs) = area b \<union> areas bs"
  by (simp add: areas_def)

text \<open>
  \<open>carve\<close> collects what one search does to the free blocks \<open>bs\<close>: the remaining blocks
  are usable, and they and the block handed out divide the bytes there were between them.
\<close>

definition carve :: "memory \<Rightarrow> nat \<Rightarrow> block list \<Rightarrow> block list \<times> nat option \<Rightarrow> bool" where
  "carve m n bs r \<longleftrightarrow>
     usable m (fst r) \<and>
     (case snd r of
        None \<Rightarrow> areas (fst r) = areas bs \<and> (\<forall>b \<in> set (fst r). snd b < n)
      | Some p \<Rightarrow> in_storage (p, n) \<and> zeroed m (p, n) \<and>
          areas (fst r) \<union> area (p, n) = areas bs \<and> areas (fst r) \<inter> area (p, n) = {})"

lemma carve_hit:
  assumes "usable m (b # rest)" "n \<le> snd b" "0 < n"
  shows "carve m n (b # rest) (trim n b @ rest, Some (fst b))"
proof -
  have u: "in_storage b" "zeroed m b" "\<forall>c \<in> set rest. fst b + snd b \<le> fst c" "usable m rest"
    using assms(1) by (auto simp: usable_Cons)
  have "in_storage (fst b, n)" "zeroed m (fst b, n)"
    using u assms(2,3) by (auto simp: in_storage_def zeroed_def)
  moreover have "usable m (trim n b @ rest)"
    using u assms(2,3) by (auto simp: trim_def usable_Cons in_storage_def zeroed_def)
  moreover have "areas (trim n b) \<union> area (fst b, n) = area b" "areas (trim n b) \<inter> area (fst b, n) = {}"
    using assms(2) by (auto simp: trim_def area_def)
  moreover have "areas rest \<inter> area (fst b, n) = {}"
    using u(3) assms(2) by (fastforce simp: areas_def area_def)
  ultimately show ?thesis by (auto simp: carve_def)
qed

lemma carve_miss:
  assumes "usable m (b # rest)" "snd b < n" "carve m n rest r"
  shows "carve m n (b # rest) (b # fst r, snd r)"
proof -
  have u: "in_storage b" "zeroed m b" "\<forall>c \<in> set rest. fst b + snd b \<le> fst c"
    using assms(1) by (auto simp: usable_Cons)
  have sub: "areas (fst r) \<subseteq> areas rest" and rest: "usable m (fst r)"
    using assms(3) by (auto simp: carve_def split: option.splits)
  have above: "fst b + snd b \<le> x" if "x \<in> areas rest" for x
    using that u(3) by (fastforce simp: areas_def area_def)
  have "fst b + snd b \<le> fst c" if "c \<in> set (fst r)" for c
    using that rest sub above in_areas [OF that start_in_area] by (auto simp: usable_def)
  then have "usable m (b # fst r)" using rest u by (simp add: usable_Cons)
  moreover have "area b \<inter> area (p, n) = {}" if "snd r = Some p" for p
    using assms(3) that above by (fastforce simp: carve_def area_def)
  ultimately show ?thesis
    using assms(2,3) by (cases "snd r") (auto simp: carve_def)
qed

lemma first_fit_carves:
  assumes "usable m bs" "0 < n"
  shows "carve m n bs (first_fit n bs)"
  using assms
proof (induction n bs rule: first_fit.induct)
  case (1 n bs)
  have U: "usable m (merge_head bs)" using 1 by (simp add: usable_merge_head)
  have "carve m n (merge_head bs) (first_fit n bs)"
  proof (cases "merge_head bs")
    case Nil
    then show ?thesis by (simp add: first_fit_unfold carve_def usable_def apart_def)
  next
    case (Cons b rest)
    then have U': "usable m (b # rest)" using U by simp
    show ?thesis
    proof (cases "n \<le> snd b")
      case True
      with carve_hit [OF U' True] 1(3) Cons show ?thesis by (simp add: first_fit_unfold)
    next
      case False
      then have "carve m n rest (first_fit n rest)"
        using 1 Cons U' by (simp add: usable_Cons)
      with carve_miss [OF U'] False Cons show ?thesis
        by (simp add: first_fit_unfold split_beta Let_def)
    qed
  qed
  then show ?case by (simp only: carve_def areas_merge_head)
qed

lemma apart_insert_at:
  assumes "apart bs" "\<forall>b \<in> set (c # bs). 0 < snd b" "area c \<inter> areas bs = {}"
  shows "apart (insert_at fst c bs)"
  using assms
proof (induction bs)
  case Nil
  then show ?case by (simp add: insert_at_def apart_def)
next
  case (Cons b bs)
  have below: "fst x + snd x \<le> fst y" if "fst x \<le> fst y" "area x \<inter> area y = {}" "0 < snd y" for x y :: block
  proof (rule ccontr)
    assume "\<not> ?thesis"
    with that(1,3) have "fst y \<in> area x \<inter> area y" by (auto simp: area_def)
    with that(2) show False by simp
  qed
  have bc: "area b \<inter> area c = {}" "area c \<inter> area b = {}" "area c \<inter> areas bs = {}"
    using Cons.prems(3) by auto
  show ?case
  proof (cases "fst b < fst c")
    case True
    then have "fst b + snd b \<le> fst c" using below [of b c] bc Cons.prems(2) by simp
    with Cons bc True show ?thesis by (simp add: apart_def)
  next
    case False
    then have "fst c + snd c \<le> fst b" using below [of c b] bc Cons.prems(2) by simp
    with Cons.prems(1) False show ?thesis by (force simp: apart_def)
  qed
qed

lemma a_malloc_inv:
  assumes I: "heap_inv m free alloc" and n: "0 < n" and r: "a_malloc n free alloc = (free', alloc', p)"
  shows "heap_inv m free' alloc'"
    "p = 0 \<Longrightarrow> alloc' = alloc \<and> areas free' = areas free \<and> (\<forall>b \<in> set free'. snd b < n)"
    "p \<noteq> 0 \<Longrightarrow> alloc' = insert_at fst (p, n) alloc \<and> in_storage (p, n) \<and> zeroed m (p, n) \<and>
       area (p, n) \<subseteq> areas free \<and> area (p, n) \<inter> areas alloc = {}"
proof -
  have U: "usable m free" "apart alloc" "\<forall>b \<in> set alloc. in_storage b" "areas free \<inter> areas alloc = {}"
    "areas free \<union> areas alloc = {MB 192..<MB 216}" using I by (auto simp: heap_inv_def)
  note C = first_fit_carves [OF U(1) n]
  consider "first_fit n free = (free', None)" "alloc' = alloc" "p = 0"
    | "first_fit n free = (free', Some p)" "alloc' = insert_at fst (p, n) alloc"
    using r by (auto simp: a_malloc_def split: prod.splits option.splits)
  note cases_r = this
  show "heap_inv m free' alloc'"
    using cases_r
  proof cases
    case 1
    with C U show ?thesis by (auto simp: carve_def heap_inv_def)
  next
    case 2
    then have c: "usable m free'" "in_storage (p, n)" "areas free' \<union> area (p, n) = areas free"
      "areas free' \<inter> area (p, n) = {}" using C by (auto simp: carve_def)
    have "apart alloc'"
      unfolding 2(2) using U c(3) n by (intro apart_insert_at) (auto simp: in_storage_def)
    then show ?thesis using c U 2(2) by (auto simp: heap_inv_def areas_insert_at)
  qed
  show "alloc' = alloc \<and> areas free' = areas free \<and> (\<forall>b \<in> set free'. snd b < n)" if "p = 0"
    using cases_r by cases (use C that in \<open>auto simp: carve_def in_storage_def\<close>)
  show "alloc' = insert_at fst (p, n) alloc \<and> in_storage (p, n) \<and> zeroed m (p, n) \<and>
       area (p, n) \<subseteq> areas free \<and> area (p, n) \<inter> areas alloc = {}" if "p \<noteq> 0"
    using cases_r by cases (use C U(4) that in \<open>auto simp: carve_def\<close>)
qed

lemma kmalloc_refines:
  assumes H: "heap s free alloc" and n: "n \<noteq> 0" and room: "length free + length alloc + 2 < MAX_REGIONS"
  obtains s' free' alloc' r where "kmalloc n s = Some (s', r)" "heap s' free' alloc'"
    "a_malloc (unat n) free alloc = (free', alloc', unat r)" "kbytes s' = kbytes s"
proof -
  obtain fs as where L: "links s fs as" and f: "free = map (blk s) fs" "alloc = map (blk s) as"
    and I: "heap_inv (kbytes s) free alloc" using H by (auto simp: heap_def)
  have st: "\<forall>i \<in> set fs. in_storage (blk s i)" "\<forall>i \<in> set as. in_storage (blk s i)"
    using I by (auto simp: heap_inv_def usable_def f)
  have new: "ptr s ` set fs \<inter> ptr s ` set as = {}"
    using I st by (intro distinct_addresses) (auto simp: heap_inv_def f)
  have "links s ([] @ fs) as" "usable (kbytes s) (map (blk s) fs)"
    using L I by (auto simp: heap_inv_def f)
  from kmalloc_loop_refines [OF this n _ new] room
  obtain s' fs' as' r where k: "kmalloc_loop n (first_of fs None) s = Some (s', r)" "links s' fs' as'"
    "a_malloc (unat n) free alloc = (map (blk s') fs', map (blk s') as', unat r)" "kbytes s' = kbytes s"
    by (auto simp: f)
  have "heap_inv (kbytes s') (map (blk s') fs') (map (blk s') as')"
    using a_malloc_inv(1) [OF I _ k(3)] n k(4) by (simp add: unat_gt_0)
  then have "heap s' (map (blk s') fs') (map (blk s') as')" using k(2) by (auto simp: heap_def)
  moreover have "kmalloc n s = Some (s', r)" using k(1) kmalloc_skips_sentinel [OF L st(1) n] by simp
  ultimately show ?thesis using that k(3,4) by blast
qed

text \<open>Freeing: the region moves from one list to the other and its bytes are cleared.\<close>

lemma kfree_loop_list:
  "dseg (nxt s) q a ys None \<Longrightarrow>
   kfree_loop p (first_of ys None) s =
     (case List.find (\<lambda>i. ptr s i = p) ys of None \<Rightarrow> Some s | Some i \<Rightarrow> release i s)"
proof (induction ys arbitrary: a)
  case Nil
  show ?case by (subst kfree_loop.simps) simp
next
  case (Cons y ys)
  then show ?case by (subst kfree_loop.simps) (auto simp flip: fields)
qed

lemma release_refines:
  assumes L: "links s fs (xs @ i # ys)" and B: "in_storage (blk s i)" and new: "ptr s i \<notin> ptr s ` set fs"
  obtains s' where "release i s = Some s'" "links s' (insert_at (ptr s) i fs) (xs @ ys)" "blk s' = blk s"
    "kbytes s' = memset (kbytes s) (ptr s i) 0 (sz s i)"
proof -
  have lk: "linked s fs (xs @ i # ys)" using L by (simp add: links_def)
  obtain s1 where r1: "remove_region i s = Some s1" and L1: "linked s1 fs (xs @ ys)"
    and f1: "ptr s1 = ptr s" "sz s1 = sz s" "used s1 = (used s)(i := False)"
    and k1: "kbytes s1 = memset (kbytes s) (ptr s i) 0 (sz s i)"
    using lk by (rule linked_remove_alloc)
  have i: "i < MAX_REGIONS" "i \<notin> set (0 # 2 # fs @ xs @ ys)" "0 < ptr s1 i" "ptr s1 i \<notin> ptr s1 ` set fs"
    using lk B new f1(1) by (auto simp: linked_def in_storage_def word_less_nat_alt)
  obtain s2 where r2: "add_region (Some i) (Some 0) s1 = Some (s2, Some i)"
    and L2: "linked s2 (insert_at (ptr s1) i fs) (xs @ ys)"
    and f2: "ptr s2 = ptr s1" "sz s2 = sz s1" "used s2 = used s1" and k2: "kbytes s2 = kbytes s1"
    using L1 i by (rule linked_add_free)
  let ?s' = "upd_region i (\<lambda>r. r\<lparr>r_in_use := True\<rparr>) s2"
  have t: "nxt ?s' = nxt s2" "prv ?s' = prv s2" "ptr ?s' = ptr s2" "sz ?s' = sz s2" "used ?s' = (used s2)(i := True)"
    by (auto simp: fields fun_eq_iff)
  have L3: "linked ?s' (insert_at (ptr s) i fs) (xs @ ys)"
    using L2 unfolding linked_def t f1 by simp
  have "links ?s' (insert_at (ptr s) i fs) (xs @ ys)"
    using L L3 i(1) by (auto simp: links_def t f1 f2)
  moreover have "free_regions s1 = Some 0" using L1 by (simp add: linked_def)
  then have "release i s = Some ?s'" using r1 r2 by (simp add: release_def)
  moreover have "blk ?s' = blk s" by (simp add: blk_def t f1 f2 fun_eq_iff)
  ultimately show ?thesis using that k1 k2 by simp
qed

lemma kfree_skips_sentinel:
  assumes "links s fs as" "p \<noteq> 0"
  shows "kfree p s = (case List.find (\<lambda>i. ptr s i = p) as of None \<Rightarrow> Some s | Some i \<Rightarrow> release i s)"
proof -
  have f: "allocated_regions s = Some 2" "ptr s 2 = 0" and d: "dseg (nxt s) (prv s) None (2 # as) None"
    using assms(1) by (auto simp: links_def linked_def)
  have "kfree p s = kfree_loop p (first_of (2 # as) None) s" using f assms(2) by (simp add: kfree_def)
  also have "\<dots> = (case List.find (\<lambda>i. ptr s i = p) (2 # as) of None \<Rightarrow> Some s | Some i \<Rightarrow> release i s)"
    by (rule kfree_loop_list [OF d])
  finally show ?thesis using f assms(2) by simp
qed

definition clear_area :: "block \<Rightarrow> memory \<Rightarrow> memory" where
  "clear_area b m = (\<lambda>a. if unat a \<in> area b then 0 else m a)"

lemma memset_clear_area:
  assumes "in_storage (unat p, unat n)"
  shows "memset m p 0 n = clear_area (unat p, unat n) m"
proof
  fix a
  have "unat (a - p) < unat n \<longleftrightarrow> unat a \<in> area (unat p, unat n)"
  proof (cases "p \<le> a")
    case True
    then show ?thesis using unat_sub_nowrap [OF True] by (auto simp: area_def word_le_nat_alt)
  next
    case False
    have "unat a \<notin> area (unat p, unat n)" using False by (simp add: area_def word_le_nat_alt)
    moreover have "\<not> unat (a - p) < unat n"
    proof
      assume "unat (a - p) < unat n"
      then have "unat (p + (a - p)) = unat p + unat (a - p)"
        using assms by (intro unat_add_nowrap) (simp add: in_storage_def)
      then show False using False by (simp add: word_le_nat_alt)
    qed
    ultimately show ?thesis by simp
  qed
  then show "memset m p 0 n a = clear_area (unat p, unat n) m a"
    by (auto simp: memset_fill store_bytes_def clear_area_def)
qed

lemma apart_areas:
  assumes "apart (bs @ b # cs)" "\<forall>c \<in> set (bs @ b # cs). 0 < snd c"
  shows "area b \<inter> areas (bs @ cs) = {}"
  using assms by (fastforce simp: apart_def sorted_wrt_append areas_def area_def)

lemma a_free_inv:
  assumes I: "heap_inv m free (bs @ b # cs)"
  shows "heap_inv (clear_area b m) (insert_at fst b free) (bs @ cs)"
proof -
  have U: "usable m free" "apart (bs @ b # cs)" "\<forall>c \<in> set (bs @ b # cs). in_storage c"
    "areas free \<inter> areas (bs @ b # cs) = {}" "areas free \<union> areas (bs @ b # cs) = {MB 192..<MB 216}"
    using I by (auto simp: heap_inv_def)
  then have d: "area b \<inter> areas free = {}" "area b \<inter> areas (bs @ cs) = {}"
    using apart_areas [OF U(2)] by (auto simp: in_storage_def)
  have "zeroed (clear_area b m) c" if "c \<in> insert b (set free)" for c
    using that U(1) by (auto simp: zeroed_def clear_area_def area_def usable_def)
  moreover have "apart (insert_at fst b free)"
    using U d by (intro apart_insert_at) (auto simp: usable_def in_storage_def)
  ultimately have "usable (clear_area b m) (insert_at fst b free)"
    using U by (auto simp: usable_def)
  moreover have "apart (bs @ cs)" using U(2) by (auto simp: apart_def sorted_wrt_append)
  ultimately show ?thesis using U d by (auto simp: heap_inv_def areas_insert_at)
qed

lemma kfree_refines:
  assumes H: "heap s free alloc" and p: "p \<noteq> 0"
  obtains (unknown) "unat p \<notin> fst ` set alloc" "kfree p s = Some s"
  | (block) s' bs n cs where "alloc = bs @ (unat p, n) # cs" "kfree p s = Some s'"
      "heap s' (insert_at fst (unat p, n) free) (bs @ cs)" "kbytes s' = clear_area (unat p, n) (kbytes s)"
proof -
  obtain fs as where L: "links s fs as" and f: "free = map (blk s) fs" "alloc = map (blk s) as"
    and I: "heap_inv (kbytes s) free alloc" using H by (auto simp: heap_def)
  have st: "\<forall>i \<in> set fs. in_storage (blk s i)" "\<forall>i \<in> set as. in_storage (blk s i)"
    using I by (auto simp: heap_inv_def usable_def f)
  have new: "ptr s ` set fs \<inter> ptr s ` set as = {}"
    using I st by (intro distinct_addresses) (auto simp: heap_inv_def f)
  show ?thesis
  proof (cases "List.find (\<lambda>i. ptr s i = p) as")
    case None
    then have "unat p \<notin> fst ` set alloc" by (auto simp: f find_None_iff word_unat_eq_iff)
    then show ?thesis using unknown kfree_skips_sentinel [OF L p] None by simp
  next
    case (Some i)
    then obtain xs ys where as: "as = xs @ i # ys" "ptr s i = p" by (rule find_split)
    have i: "in_storage (blk s i)" "ptr s i \<notin> ptr s ` set fs" using st new as by auto
    obtain s' where r: "release i s = Some s'" "links s' (insert_at (ptr s) i fs) (xs @ ys)" "blk s' = blk s"
      "kbytes s' = memset (kbytes s) (ptr s i) 0 (sz s i)"
      using L [unfolded as] i by (rule release_refines)
    have k: "kbytes s' = clear_area (blk s i) (kbytes s)"
      using r(4) memset_clear_area i(1) by (simp add: blk_def)
    have al: "alloc = map (blk s) xs @ blk s i # map (blk s) ys" using f as by simp
    have "map (blk s) (insert_at (ptr s) i fs) = insert_at fst (blk s i) free"
      by (simp add: insert_at_def takeWhile_map dropWhile_map comp_def f word_less_nat_alt)
    moreover have "heap_inv (kbytes s') (insert_at fst (blk s i) free) (map (blk s) xs @ map (blk s) ys)"
      using a_free_inv I al k by simp
    ultimately have "heap s' (insert_at fst (blk s i) free) (map (blk s) xs @ map (blk s) ys)"
      using r(2,3) unfolding heap_def by (metis map_append)
    moreover have "kfree p s = Some s'" using kfree_skips_sentinel [OF L p] Some r(1) by simp
    ultimately show ?thesis using block al k as(2) by (simp add: blk_def)
  qed
qed

lemma init_mem_heap:
  assumes "\<forall>i < MAX_REGIONS. 3 \<le> i \<longrightarrow> \<not> used s i"
  shows "heap (init_mem s) [(MB 192, MB 24)] []"
proof -
  have f: "nxt (init_mem s) = (nxt s)(0 := Some 1, 1 := None, 2 := None)"
    "prv (init_mem s) = (prv s)(0 := None, 1 := Some 0, 2 := None)"
    "ptr (init_mem s) = (ptr s)(0 := 0, 1 := storage, 2 := 0)"
    "sz (init_mem s) = (sz s)(0 := 0, 1 := STORAGE_BYTES, 2 := 0)"
    "used (init_mem s) = (used s)(0 := True, 1 := True, 2 := True)"
    by (auto simp: fields init_mem_def fun_eq_iff)
  have h: "free_regions (init_mem s) = Some 0" "allocated_regions (init_mem s) = Some 2"
    by (simp_all add: init_mem_def)
  have u: "used (init_mem s) i \<longleftrightarrow> i \<in> {0, 1, 2}" if "i < MAX_REGIONS" for i
    using assms that by (auto simp: f)
  have "links (init_mem s) [1] []"
    using u by (auto simp: links_def linked_def h f MAX_REGIONS_def)
  moreover have b: "blk (init_mem s) 1 = (MB 192, MB 24)"
    by (simp add: blk_def f storage_def STORAGE_BYTES_def)
  moreover have "kbytes (init_mem s) = clear_area (MB 192, MB 24) (kbytes s)"
    using memset_clear_area [of storage STORAGE_BYTES "kbytes s"]
    by (simp add: init_mem_def storage_def STORAGE_BYTES_def in_storage_def)
  then have "heap_inv (kbytes (init_mem s)) [(MB 192, MB 24)] []"
    by (auto simp: heap_inv_def usable_def apart_def in_storage_def zeroed_def clear_area_def area_def)
  ultimately show ?thesis unfolding heap_def by (metis list.simps(8) list.simps(9))
qed

section \<open>The allocator interface\<close>

text \<open>
  What a client of the allocator may rely on. \<open>slots\<close> is how many blocks, free and
  allocated, the allocator can describe.
\<close>

locale allocator =
  fixes holds :: "'s \<Rightarrow> block list \<Rightarrow> block list \<Rightarrow> bool"
    and slots :: nat
    and mem :: "'s \<Rightarrow> memory"
    and malloc :: "u32 \<Rightarrow> 's \<Rightarrow> ('s \<times> u32) option"
    and free :: "u32 \<Rightarrow> 's \<Rightarrow> 's option"
  assumes holds_inv: "holds s fr al \<Longrightarrow> heap_inv (mem s) fr al"
    and malloc_zero: "malloc 0 s = Some (s, 0)"
    and malloc_spec: "holds s fr al \<Longrightarrow> n \<noteq> 0 \<Longrightarrow> length fr + length al < slots \<Longrightarrow>
      \<exists>s' fr' al' r. malloc n s = Some (s', r) \<and> holds s' fr' al' \<and>
        a_malloc (unat n) fr al = (fr', al', unat r) \<and> mem s' = mem s"
    and free_null: "free 0 s = Some s"
    and free_spec: "holds s fr al \<Longrightarrow> p \<noteq> 0 \<Longrightarrow>
      unat p \<notin> fst ` set al \<and> free p s = Some s \<or>
      (\<exists>s' bs n cs. al = bs @ (unat p, n) # cs \<and> free p s = Some s' \<and>
         holds s' (insert_at fst (unat p, n) fr) (bs @ cs) \<and> mem s' = clear_area (unat p, n) (mem s))"

lemma length_trim: "length (trim n b) \<le> 1"
  by (simp add: trim_def)

lemma length_first_fit: "length (fst (first_fit n bs)) \<le> length bs"
proof (induction n bs rule: first_fit.induct)
  case (1 n bs)
  show ?case
  proof (cases "merge_head bs")
    case (Cons b rest)
    have "Suc (length rest) \<le> length bs" using length_merge_head [of bs] Cons by simp
    moreover have "\<not> n \<le> snd b \<Longrightarrow> length (fst (first_fit n rest)) \<le> length rest" using 1 Cons by simp
    ultimately show ?thesis
      using Cons length_trim [of n b] by (auto simp: first_fit_unfold split_beta Let_def)
  qed (simp add: first_fit_unfold)
qed

lemma length_insert_at [simp]: "length (insert_at f x xs) = Suc (length xs)"
  by (induction xs) auto

lemma length_a_malloc:
  "a_malloc n fr al = (fr', al', r) \<Longrightarrow> length fr' + length al' \<le> Suc (length fr + length al)"
  using length_first_fit [of n fr] by (auto simp: a_malloc_def split: prod.splits option.splits)

datatype heap_op = Malloc u32 | Free u32

fun run_ops :: "(u32 \<Rightarrow> 's \<Rightarrow> ('s \<times> u32) option) \<Rightarrow> (u32 \<Rightarrow> 's \<Rightarrow> 's option) \<Rightarrow> heap_op list \<Rightarrow> 's \<Rightarrow> 's option" where
  "run_ops ma fr [] s = Some s"
| "run_ops ma fr (Malloc n # ops) s = do { (s', _) \<leftarrow> ma n s; run_ops ma fr ops s' }"
| "run_ops ma fr (Free p # ops) s = do { s' \<leftarrow> fr p s; run_ops ma fr ops s' }"

fun mallocs :: "heap_op list \<Rightarrow> nat" where
  "mallocs [] = 0"
| "mallocs (Malloc n # ops) = Suc (mallocs ops)"
| "mallocs (Free p # ops) = mallocs ops"

context allocator
begin

lemma malloc_total:
  assumes "holds s fr al" "length fr + length al < slots"
  shows "\<exists>s' r fr' al'. malloc n s = Some (s', r) \<and> holds s' fr' al' \<and>
    length fr' + length al' \<le> Suc (length fr + length al)"
proof (cases "n = 0")
  case True
  then show ?thesis using malloc_zero assms(1) by force
next
  case False
  then show ?thesis using malloc_spec [OF assms(1) False assms(2)] length_a_malloc by blast
qed

lemma free_total:
  assumes "holds s fr al"
  shows "\<exists>s' fr' al'. free p s = Some s' \<and> holds s' fr' al' \<and> length fr' + length al' = length fr + length al"
proof (cases "p = 0")
  case True
  then show ?thesis using free_null assms by blast
next
  case False
  from free_spec [OF assms False] show ?thesis
  proof (elim disjE exE conjE)
    fix s' bs n cs
    assume "al = bs @ (unat p, n) # cs" "free p s = Some s'" "holds s' (insert_at fst (unat p, n) fr) (bs @ cs)"
    then show ?thesis by (intro exI [of _ s'] exI [of _ "insert_at fst (unat p, n) fr"] exI [of _ "bs @ cs"]) simp
  qed (use assms in blast)
qed

lemma run_ops_total:
  assumes "holds s fr al" "length fr + length al + mallocs ops \<le> slots"
  shows "\<exists>s' fr' al'. run_ops malloc free ops s = Some s' \<and> holds s' fr' al'"
  using assms
proof (induction ops arbitrary: s fr al)
  case Nil
  then show ?case by auto
next
  case (Cons op ops)
  show ?case
  proof (cases op)
    case (Malloc n)
    then obtain s' r fr' al' where "malloc n s = Some (s', r)" "holds s' fr' al'"
      "length fr' + length al' \<le> Suc (length fr + length al)"
      using malloc_total [OF Cons.prems(1), of n] Cons.prems(2) by auto
    then show ?thesis using Cons.IH [of s' fr' al'] Cons.prems(2) Malloc by simp
  next
    case (Free p)
    obtain s' fr' al' where "free p s = Some s'" "holds s' fr' al'"
      "length fr' + length al' = length fr + length al"
      using free_total [OF Cons.prems(1), of p] by auto
    then show ?thesis using Cons.IH [of s' fr' al'] Cons.prems(2) Free by simp
  qed
qed

lemma malloc_free_restores:
  assumes H: "holds s fr al" and "length fr + length al < slots" and n: "n \<noteq> 0"
    and m: "malloc n s = Some (s1, p)" and p: "p \<noteq> 0"
  shows "\<exists>s2 fr2. free p s1 = Some s2 \<and> holds s2 fr2 al \<and> areas fr2 = areas fr \<and> mem s2 = mem s"
proof -
  obtain fr1 al1 where h1: "holds s1 fr1 al1" and a: "a_malloc (unat n) fr al = (fr1, al1, unat p)" "mem s1 = mem s"
    using malloc_spec [OF H n assms(2)] m by auto
  have I: "heap_inv (mem s) fr al" using holds_inv [OF H] .
  have b: "al1 = insert_at fst (unat p, unat n) al" "in_storage (unat p, unat n)" "zeroed (mem s) (unat p, unat n)"
    "area (unat p, unat n) \<inter> areas al = {}"
    using a_malloc_inv(3) [OF I _ a(1)] n p by (auto simp: unat_gt_0)
  have new: "unat p \<notin> fst ` set al"
    using b(2,4) I start_in_area in_areas by (fastforce simp: heap_inv_def in_storage_def area_def)
  have "unat p \<in> fst ` set al1" using b(1) by force
  with free_spec [OF h1 p] obtain s2 bs k cs where f: "al1 = bs @ (unat p, k) # cs" "free p s1 = Some s2"
    "holds s2 (insert_at fst (unat p, k) fr1) (bs @ cs)" "mem s2 = clear_area (unat p, k) (mem s1)" by blast
  obtain ys zs where y: "al = ys @ zs" "al1 = ys @ (unat p, unat n) # zs"
    using b(1) insert_at_split [of al fst "(unat p, unat n)"] by auto
  have "(unat p, k) \<in> set al1" using f(1) by simp
  then have k: "k = unat n" using b(1) new by force
  have "(unat p, unat n) \<notin> set ys" "(unat p, unat n) \<notin> set zs" using new y(1) by force+
  then have al: "bs @ cs = al" using f(1) y k append_Cons_eq_iff [of "(unat p, unat n)" ys zs bs cs] by auto
  have "mem s2 = mem s" using f(4) a(2) b(3) k by (auto simp: clear_area_def zeroed_def area_def fun_eq_iff)
  moreover have "areas (insert_at fst (unat p, k) fr1) = areas fr"
    using I holds_inv [OF f(3)] unfolding al heap_inv_def by blast
  ultimately show ?thesis using f al by blast
qed

end

interpretation kmem: allocator heap "MAX_REGIONS - 2" kbytes kmalloc kfree
proof
  fix s n fr al
  assume H: "heap s fr al" and n: "(n :: u32) \<noteq> 0" and room: "length fr + length al < MAX_REGIONS - 2"
  have "length fr + length al + 2 < MAX_REGIONS" using room by simp
  with H n obtain s' fr' al' r where "kmalloc n s = Some (s', r)" "heap s' fr' al'"
    "a_malloc (unat n) fr al = (fr', al', unat r)" "kbytes s' = kbytes s"
    by (rule kmalloc_refines)
  then show "\<exists>s' fr' al' r. kmalloc n s = Some (s', r) \<and> heap s' fr' al' \<and>
      a_malloc (unat n) fr al = (fr', al', unat r) \<and> kbytes s' = kbytes s" by blast
next
  fix s p fr al
  assume "heap s fr al" "(p :: u32) \<noteq> 0"
  then show "unat p \<notin> fst ` set al \<and> kfree p s = Some s \<or>
      (\<exists>s' bs n cs. al = bs @ (unat p, n) # cs \<and> kfree p s = Some s' \<and>
         heap s' (insert_at fst (unat p, n) fr) (bs @ cs) \<and> kbytes s' = clear_area (unat p, n) (kbytes s))"
    by (rule kfree_refines) blast+
qed (auto simp: heap_def kmalloc_def kfree_def)

section \<open>Properties\<close>

definition boot_regions :: kmem where
  "boot_regions = \<lparr>regions = (\<lambda>_. \<lparr>r_ptr = 0, r_size = 0, r_next = None, r_prev = None, r_in_use = False\<rparr>),
     free_regions = None, allocated_regions = None, kbytes = (\<lambda>_. 7)\<rparr>"

lemma boot_heap: "heap (init_mem boot_regions) [(MB 192, MB 24)] []"
  by (rule init_mem_heap) (simp add: boot_regions_def used_def)

text \<open>
  \<open>init_mem\<close>, run on a region array whose slots from 3 up are unused (it is in
  \<^verbatim>\<open>.bss\<close>), makes one zeroed free block of the whole 24MB storage area and no
  allocated one.
\<close>

theorem init_mem_one_block:
  assumes "\<forall>i < MAX_REGIONS. 3 \<le> i \<longrightarrow> \<not> r_in_use (regions s i)"
  shows "heap (init_mem s) [(MB 192, MB 24)] []"
  using assms by (intro init_mem_heap) (simp add: used_def)

theorem init_mem_one_block_witness: "heap (init_mem boot_regions) [(MB 192, MB 24)] []"
  by (rule init_mem_one_block) (simp add: boot_regions_def)

text \<open>
  C1. With a region slot to spare, \<open>kmalloc\<close> of a non-zero size returns, keeps the heap
  invariant and does not write to memory. A non-NULL result is a block of exactly the requested
  size inside the storage area, all zero, taken from the free bytes and clear of every
  allocated block, and it is now on the allocated list; after NULL the allocated list is as it
  was and every remaining free block is too small.
\<close>

theorem kmalloc_correct:
  assumes "heap s free alloc" "n \<noteq> 0" "length free + length alloc + 2 < MAX_REGIONS"
  shows "\<exists>s' p free' alloc'. kmalloc n s = Some (s', p) \<and> heap s' free' alloc' \<and> kbytes s' = kbytes s \<and>
    (if p \<noteq> 0
     then alloc' = insert_at fst (unat p, unat n) alloc \<and> in_storage (unat p, unat n) \<and>
       zeroed (kbytes s) (unat p, unat n) \<and> area (unat p, unat n) \<subseteq> areas free \<and>
       area (unat p, unat n) \<inter> areas alloc = {}
     else alloc' = alloc \<and> areas free' = areas free \<and> (\<forall>b \<in> set free'. snd b < unat n))"
proof -
  obtain s' free' alloc' p where k: "kmalloc n s = Some (s', p)" "heap s' free' alloc'"
    "a_malloc (unat n) free alloc = (free', alloc', unat p)" "kbytes s' = kbytes s"
    using assms by (rule kmalloc_refines)
  have "heap_inv (kbytes s) free alloc" "0 < unat n" using assms by (auto simp: heap_def unat_gt_0)
  moreover have "unat p = 0 \<longleftrightarrow> p = 0" by (simp add: unat_eq_zero)
  ultimately show ?thesis
    using a_malloc_inv(2,3) [OF _ _ k(3), of "kbytes s"] k
    by (rule_tac x = s' in exI, rule_tac x = p in exI, rule_tac x = free' in exI, rule_tac x = alloc' in exI) simp
qed

theorem kmalloc_correct_witness:
  "\<exists>s' p free'. kmalloc 64 (init_mem boot_regions) = Some (s', p) \<and>
     heap s' free' (if p = 0 then [] else [(unat p, 64)])"
  using kmalloc_correct [OF boot_heap, of 64] by (auto simp: MAX_REGIONS_def split: if_splits)

text \<open>
  C27. \<open>kfree\<close> of a pointer that does not start an allocated block changes nothing; of
  the start of an allocated block, it moves that block to the free list, keeps the heap
  invariant and clears exactly the block's bytes.
\<close>

theorem kfree_correct:
  assumes "heap s free alloc" "p \<noteq> 0"
  shows "if unat p \<in> fst ` set alloc
    then \<exists>s' bs n cs. alloc = bs @ (unat p, n) # cs \<and> kfree p s = Some s' \<and>
      heap s' (insert_at fst (unat p, n) free) (bs @ cs) \<and> kbytes s' = clear_area (unat p, n) (kbytes s)
    else kfree p s = Some s"
  using kmem.free_spec [OF assms] by force

theorem kfree_correct_witness: "kfree 4096 (init_mem boot_regions) = Some (init_mem boot_regions)"
  using kfree_correct [OF boot_heap, of 4096] by simp

text \<open>
  C26. Freeing what \<open>kmalloc\<close> has just returned gives back the allocated list, the free
  bytes and the memory there were before.
\<close>

theorem kmalloc_kfree_roundtrip:
  assumes "heap s free alloc" "length free + length alloc + 2 < MAX_REGIONS" "n \<noteq> 0"
    and "kmalloc n s = Some (s1, p)" "p \<noteq> 0"
  shows "\<exists>s2 free2. kfree p s1 = Some s2 \<and> heap s2 free2 alloc \<and> areas free2 = areas free \<and> kbytes s2 = kbytes s"
proof -
  have "length free + length alloc < MAX_REGIONS - 2" using assms(2) by simp
  from kmem.malloc_free_restores [OF assms(1) this assms(3-5)] show ?thesis .
qed

lemma kmalloc_boot: "\<exists>s. kmalloc 64 (init_mem boot_regions) = Some (s, storage)"
proof -
  have "a_malloc 64 [(MB 192, MB 24)] [] = ([(MB 192 + 64, MB 24 - 64)], [(MB 192, 64)], MB 192)"
    by (simp add: a_malloc_def first_fit.simps trim_def)
  with kmem.malloc_spec [OF boot_heap, of 64] obtain s p
    where "kmalloc 64 (init_mem boot_regions) = Some (s, p)" "unat p = MB 192" by (auto simp: MAX_REGIONS_def)
  then show ?thesis by (auto simp: storage_def word_unat_eq_iff)
qed

theorem kmalloc_kfree_roundtrip_witness:
  "\<exists>s1 s2 free2. kmalloc 64 (init_mem boot_regions) = Some (s1, storage) \<and> kfree storage s1 = Some s2 \<and>
     heap s2 free2 [] \<and> areas free2 = {MB 192..<MB 216}"
proof -
  obtain s1 where k: "kmalloc 64 (init_mem boot_regions) = Some (s1, storage)" using kmalloc_boot ..
  with kmalloc_kfree_roundtrip [OF boot_heap _ _ k] show ?thesis
    by (auto simp: MAX_REGIONS_def storage_def area_def)
qed

text \<open>
  C2. After \<open>init_mem\<close>, any sequence of \<open>kmalloc\<close> and \<open>kfree\<close> calls, with
  whatever arguments, that allocates at most 497 times runs to its end without following a NULL
  pointer, and leaves a heap in order.
\<close>

theorem kmem_runs:
  assumes "\<forall>i < MAX_REGIONS. 3 \<le> i \<longrightarrow> \<not> r_in_use (regions s i)" "mallocs ops \<le> MAX_REGIONS - 3"
  shows "\<exists>s' free alloc. run_ops kmalloc kfree ops (init_mem s) = Some s' \<and> heap s' free alloc"
proof -
  have "heap (init_mem s) [(MB 192, MB 24)] []" using assms(1) by (intro init_mem_heap) (simp add: used_def)
  then show ?thesis using assms(2) by (intro kmem.run_ops_total) (auto simp: MAX_REGIONS_def)
qed

theorem kmem_runs_witness:
  "\<exists>s' free alloc. run_ops kmalloc kfree [Malloc 10, Free 4096, Malloc 0, Free 0] (init_mem boot_regions) = Some s' \<and>
     heap s' free alloc"
  by (rule kmem_runs) (simp_all add: boot_regions_def MAX_REGIONS_def)

text \<open>
  With every slot of the region array in use, cutting a block off a larger region follows
  the NULL that \<open>new_region\<close> returned: \<open>kmalloc\<close> does not report the failure.
\<close>

theorem claim_no_slot:
  assumes "\<forall>j < MAX_REGIONS. r_in_use (regions s j)" "i < MAX_REGIONS" "n < r_size (regions s i)"
    and "allocated_regions s \<noteq> None"
  shows "claim i n s = None"
proof -
  let ?t = "upd_region i (\<lambda>r. r\<lparr>r_size := r_size r - n, r_ptr := r_ptr r + n\<rparr>) s"
  have "new_region_from js p n ?t = (?t, None)" if "set js \<subseteq> {..<MAX_REGIONS}" for js p
    using that assms(1) by (induction js) auto
  then have "new_region p n ?t = (?t, None)" for p by (simp add: new_region_def lessThan_atLeast0)
  then show ?thesis using assms(3,4) by (auto simp: claim_def ltrim_def Let_def add_region_def)
qed

theorem claim_no_slot_witness:
  "claim 1 64 \<lparr>regions = (\<lambda>_. \<lparr>r_ptr = 0, r_size = 100, r_next = None, r_prev = None, r_in_use = True\<rparr>),
     free_regions = Some 0, allocated_regions = Some 2, kbytes = (\<lambda>_. 0)\<rparr> = None"
  by (rule claim_no_slot) (simp_all add: MAX_REGIONS_def)

end
