(* ===== verification/Filesystem.thy ===== *)
theory Filesystem
  imports Lib_String Kmem
begin

text \<open>
  The read-only file system \<^verbatim>\<open>fs.c\<close>. The image GRUB loads is part of the machine memory;
  an inode, a directory entry and a data block are addresses computed as the C code computes
  them, with the sizes of \<^verbatim>\<open>fs.h\<close>. 32-bit results are words, \<open>- 1\<close> is the error.
\<close>

section \<open>State\<close>

record fs =
  fs_start :: u32
  inodes :: u32
  dentries :: u32
  data_blocks :: u32

record dentry =
  d_name :: "u8 list"
  d_type :: u32
  d_inode :: u32

datatype file_type = FileRTC | FileTerminal | FileRegular | FileDirectory

text \<open>
  A \<^verbatim>\<open>file_ops_t\<close> is one of the four tables of \<^verbatim>\<open>syscall.c\<close>, named here after the
  variables there; \<open>None\<close> stands for a pointer that was never set.
\<close>

datatype file_ops = Terminal_funcs | Fs_funcs | Dir_funcs | Rtc_funcs

record file_info =
  f_ops :: "file_ops option"
  inode_ptr :: u32
  pos :: u32
  f_type :: file_type
  can_write :: bool
  can_read :: bool
  in_use :: bool

definition NAME_MAX :: u32 where
  "NAME_MAX = 32"

definition sizeof_master_entry :: u32 where
  "sizeof_master_entry = 64"

definition sizeof_dentry :: u32 where
  "sizeof_dentry = 64"

definition sizeof_inode :: u32 where
  "sizeof_inode = 4096"

definition sizeof_bootblock :: u32 where
  "sizeof_bootblock = 4096"

section \<open>The boot block\<close>

definition get_master_entry_addr :: "fs \<Rightarrow> u32" where
  "get_master_entry_addr f = fs_start f"

definition get_num_dentries :: "fs \<Rightarrow> memory \<Rightarrow> u32" where
  "get_num_dentries f m = load32 m (get_master_entry_addr f)"

definition get_num_inodes :: "fs \<Rightarrow> memory \<Rightarrow> u32" where
  "get_num_inodes f m = load32 m (get_master_entry_addr f + 4)"

definition get_num_data_blocks :: "fs \<Rightarrow> memory \<Rightarrow> u32" where
  "get_num_data_blocks f m = load32 m (get_master_entry_addr f + 8)"

definition set_fs_start :: "u32 \<Rightarrow> memory \<Rightarrow> fs \<Rightarrow> fs" where
  "set_fs_start addr m f =
     (let f1 = f\<lparr>fs_start := addr, inodes := addr + sizeof_bootblock, dentries := addr + sizeof_master_entry\<rparr>
      in f1\<lparr>data_blocks := addr + sizeof_bootblock + get_num_inodes f1 m * sizeof_inode\<rparr>)"

definition get_inode_ptr :: "fs \<Rightarrow> u32 \<Rightarrow> u32" where
  "get_inode_ptr f inode = inodes f + inode * sizeof_inode"

definition fs_open :: u32 where
  "fs_open = - 1"

definition fs_write :: "file_info \<Rightarrow> u32 \<Rightarrow> u32 \<Rightarrow> u32" where
  "fs_write file buf nbytes = - 1"

definition fs_close :: "file_info \<Rightarrow> u32" where
  "fs_close file = 0"

section \<open>Directory entries\<close>

definition dentry_addr :: "fs \<Rightarrow> u32 \<Rightarrow> u32" where
  "dentry_addr f i = dentries f + i * sizeof_dentry"

definition load_dentry :: "memory \<Rightarrow> u32 \<Rightarrow> dentry" where
  "load_dentry m a = \<lparr>d_name = bytes m a 32, d_type = load32 m (a + 32), d_inode = load32 m (a + 36)\<rparr>"

definition read_dentry_by_index :: "fs \<Rightarrow> memory \<Rightarrow> u32 \<Rightarrow> u32 \<times> dentry option" where
  "read_dentry_by_index f m index =
     (if get_num_dentries f m \<le> index then (- 1, None)
      else (0, Some (load_dentry m (dentry_addr f index))))"

definition name_reader :: "dentry \<Rightarrow> reader" where
  "name_reader d = (\<lambda>i. if unat i < length (d_name d) then d_name d ! unat i else 0)"

text \<open>
  The loop of \<^verbatim>\<open>read_dentry_by_name\<close>. Its local copy of the entry is always filled in,
  because the index is below the number of entries.
\<close>

function find_dentry :: "fs \<Rightarrow> memory \<Rightarrow> reader \<Rightarrow> u32 \<Rightarrow> u32 \<times> dentry option" where
  "find_dentry f m fname i =
     (if i < get_num_dentries f m then
        (case read_dentry_by_index f m i of
           (_, Some d) \<Rightarrow>
             if strncmp fname (name_reader d) NAME_MAX = 0 then (0, Some d) else find_dentry f m fname (i + 1)
         | (_, None) \<Rightarrow> find_dentry f m fname (i + 1))
      else (- 1, None))"
  by pat_completeness auto
termination
  by (relation "measure (\<lambda>(f, m, s, i). unat (get_num_dentries f m) - unat i)") (auto simp: count_up_less)

definition read_dentry_by_name :: "fs \<Rightarrow> memory \<Rightarrow> reader \<Rightarrow> (u32 \<times> dentry option) option" where
  "read_dentry_by_name f m fname = do {
     bucket \<leftarrow> strlen fname;
     if bucket < 1 \<or> bucket > NAME_MAX then Some (- 1, None)
     else Some (find_dentry f m fname 0)
   }"

section \<open>File data\<close>

definition block_number :: "memory \<Rightarrow> u32 \<Rightarrow> u32 \<Rightarrow> u32" where
  "block_number m inode cur_block = load32 m (inode + 4 + cur_block * 4)"

definition byte_ptr :: "fs \<Rightarrow> memory \<Rightarrow> u32 \<Rightarrow> u32 \<Rightarrow> u32" where
  "byte_ptr f m inode offset = data_blocks f + block_number m inode (offset div 4096) * 4096 + offset mod 4096"

text \<open>
  \<open>length\<close> is an \<open>int32_t\<close>: the loop test is signed, while the comparison with
  \<open>bytes_left_in_block\<close> is unsigned.
\<close>

definition chunk_size :: "u32 \<Rightarrow> u32 \<Rightarrow> u32" where
  "chunk_size offset len = (let left = 4096 - offset mod 4096 in if len > left then left else len)"

lemma chunk_size_pos: "0 <s len \<Longrightarrow> 0 < unat (chunk_size offset len) \<and> chunk_size offset len \<le> len"
proof -
  assume "0 <s len"
  then have "len \<noteq> 0" by auto
  moreover have "offset mod 4096 < 4096" by (simp add: word_less_nat_alt unat_mod)
  then have "4096 - offset mod 4096 \<noteq> 0" by auto
  ultimately show ?thesis by (auto simp: chunk_size_def Let_def unat_gt_0)
qed

lemma chunk_size_decreases: "0 <s len \<Longrightarrow> unat (len - chunk_size offset len) < unat len"
  using chunk_size_pos [of len offset] by (auto simp: unat_sub word_le_nat_alt)

function read_loop :: "fs \<Rightarrow> u32 \<Rightarrow> u32 \<Rightarrow> u32 \<Rightarrow> u32 \<Rightarrow> u32 \<Rightarrow> memory \<Rightarrow> memory \<times> u32" where
  "read_loop f inode offset buf len copied m =
     (if 0 <s len then
        (if get_num_data_blocks f m \<le> block_number m inode (offset div 4096) then (m, - 1)
         else
           let n = chunk_size offset len;
               m1 = memcpy m buf (byte_ptr f m inode offset) n
           in read_loop f inode (offset + n) (buf + n) (len - n) (copied + n) m1)
      else (m, copied))"
  by pat_completeness auto
termination
  by (relation "measure (\<lambda>(f, inode, offset, buf, len, copied, m). unat len)") (auto simp: chunk_size_decreases)

declare read_loop.simps [simp del] find_dentry.simps [simp del]

definition read_data :: "fs \<Rightarrow> u32 \<Rightarrow> u32 \<Rightarrow> u32 \<Rightarrow> u32 \<Rightarrow> memory \<Rightarrow> memory \<times> u32" where
  "read_data f inode offset buf len m =
     (let file_length = load32 m inode in
      if file_length div 4096 > 1023 then (m, - 1)
      else if offset > file_length then (m, 0)
      else
        let len1 = (if len > file_length - offset then file_length - offset else len)
        in read_loop f inode offset buf len1 0 m)"

definition file_read :: "fs \<Rightarrow> file_info \<Rightarrow> u32 \<Rightarrow> u32 \<Rightarrow> memory \<Rightarrow> memory \<times> file_info \<times> u32" where
  "file_read f file buf len m =
     (let (m1, bytes_read) = read_data f (inode_ptr file) (pos file) buf len m
      in (m1, file\<lparr>pos := pos file + bytes_read\<rparr>, bytes_read))"

section \<open>Reading the directory\<close>

partial_function (option) copy_name :: "u32 \<Rightarrow> u32 \<Rightarrow> u32 \<Rightarrow> memory \<Rightarrow> (memory \<times> u32) option" where
  "copy_name name buf i m =
     (if m (name + i) \<noteq> 0 then copy_name name buf (i + 1) (m(buf + i := m (name + i))) else Some (m, i))"

function pad_name :: "u32 \<Rightarrow> u32 \<Rightarrow> int \<Rightarrow> memory \<Rightarrow> memory" where
  "pad_name buf len i m = (if i < sint len then pad_name buf len (i + 1) (m(buf + of_int i := 0)) else m)"
  by pat_completeness auto
termination by (relation "measure (\<lambda>(buf, len, i, m). nat (sint len - i))") auto

declare pad_name.simps [simp del]

definition read_directory_index :: "fs \<Rightarrow> u32 \<Rightarrow> u32 \<Rightarrow> u32 \<Rightarrow> memory \<Rightarrow> (memory \<times> u32) option" where
  "read_directory_index f filenum buf len m =
     (if get_num_dentries f m \<le> filenum then Some (m, 0)
      else do {
        (m1, i) \<leftarrow> copy_name (dentry_addr f filenum) buf 0 m;
        Some (pad_name buf len (sint i) m1, i)
      })"

definition directory_read :: "fs \<Rightarrow> file_info \<Rightarrow> u32 \<Rightarrow> u32 \<Rightarrow> memory \<Rightarrow> (memory \<times> file_info \<times> u32) option" where
  "directory_read f file buf len m = do {
     (m1, bytes_read) \<leftarrow> read_directory_index f (pos file) buf len m;
     Some (m1, file\<lparr>pos := pos file + 1\<rparr>, bytes_read)
   }"

text \<open>
  \<^verbatim>\<open>get_executables\<close>: the names are in blocks of the kernel allocator, \<open>dir\<close> is the
  caller's array (with as many elements as it says).
\<close>

function get_executables_loop :: "fs \<Rightarrow> int \<Rightarrow> int \<Rightarrow> u32 list \<Rightarrow> kmem \<Rightarrow> (kmem \<times> u32 list \<times> int) option" where
  "get_executables_loop f num_files filenum dir s =
     (if filenum < num_files then
        (case kmalloc NAME_MAX s of
           None \<Rightarrow> None
         | Some (s1, p) \<Rightarrow>
             let dir1 = dir[nat filenum := p] in
             if p = 0 then Some (s1, dir1, filenum - 1)
             else (case read_directory_index f (of_int filenum) p NAME_MAX (kbytes s1) of
                 None \<Rightarrow> None
               | Some (m2, bytes_read) \<Rightarrow>
                   let s2 = s1\<lparr>kbytes := m2\<rparr> in
                   if bytes_read = 0 then
                     (case kfree p s2 of None \<Rightarrow> None | Some s3 \<Rightarrow> Some (s3, dir1[nat filenum := 0], filenum))
                   else get_executables_loop f num_files (filenum + 1) dir1 s2))
      else Some (s, dir, filenum))"
  by pat_completeness auto
termination by (relation "measure (\<lambda>(f, num_files, filenum, dir, s). nat (num_files - filenum))") auto

declare get_executables_loop.simps [simp del]

definition get_executables :: "fs \<Rightarrow> u32 list \<Rightarrow> int \<Rightarrow> kmem \<Rightarrow> (kmem \<times> u32 list \<times> int) option" where
  "get_executables f dir num_files s = get_executables_loop f num_files 0 dir s"

section \<open>Inode and block maps\<close>

text \<open>
  These fill an array of the caller, which has as many elements as \<open>size\<close> says. The
  return value is the number of entries, or \<open>- 1\<close>.
\<close>

definition get_inode_map :: "fs \<Rightarrow> memory \<Rightarrow> u32 list \<Rightarrow> u32 list \<times> u32" where
  "get_inode_map f m inode_map =
     (let n = get_num_dentries f m in
      if unat n > length inode_map then (inode_map, - 1)
      else (map (\<lambda>i. load32 m (dentry_addr f (of_nat i) + 36)) [0..<unat n] @ drop (unat n) inode_map, n))"

definition get_inode_data_block_map :: "fs \<Rightarrow> memory \<Rightarrow> u32 \<Rightarrow> u32 list \<Rightarrow> (u32 list \<times> u32) option" where
  "get_inode_data_block_map f m index db_map =
     (case snd (read_dentry_by_index f m index) of
        None \<Rightarrow> None
      | Some d \<Rightarrow>
          let inode = get_inode_ptr f (d_inode d);
              num_blocks = load32 m inode div 4096 + 1
          in if unat num_blocks > length db_map then Some (db_map, - 1)
             else Some (map (\<lambda>i. load32 m (inode + of_nat i * 4)) [0..<unat num_blocks] @ drop (unat num_blocks) db_map,
                        num_blocks))"

text \<open>
  \<^verbatim>\<open>get_data_block_map\<close> copies the first \<open>inode_num_blocks\<close> elements of its local
  array of ten; more than ten, or a \<open>db_map\<close> that is full, is an access out of bounds.
\<close>

fun block_map_loop :: "fs \<Rightarrow> memory \<Rightarrow> nat list \<Rightarrow> u32 list \<Rightarrow> u32 list \<Rightarrow> nat \<Rightarrow> (u32 list \<times> nat) option" where
  "block_map_loop f m [] inode_db_map db_map k = Some (db_map, k)"
| "block_map_loop f m (i # is) inode_db_map db_map k =
     (case get_inode_data_block_map f m (of_nat i) inode_db_map of
        None \<Rightarrow> None
      | Some (inode_db_map', n) \<Rightarrow>
          if unat n > length inode_db_map' \<or> k + unat n > length db_map then None
          else block_map_loop f m is inode_db_map'
                 (take k db_map @ take (unat n) inode_db_map' @ drop (k + unat n) db_map) (k + unat n))"

definition get_data_block_map :: "fs \<Rightarrow> memory \<Rightarrow> u32 list \<Rightarrow> (u32 list \<times> u32) option" where
  "get_data_block_map f m db_map =
     (if unat (get_num_data_blocks f m) > length db_map then Some (db_map, - 1)
      else case block_map_loop f m [0..<unat (get_num_dentries f m)] (replicate 10 0) db_map 0 of
          None \<Rightarrow> None
        | Some (db_map', k) \<Rightarrow> Some (db_map', of_nat k))"

section \<open>What a file holds\<close>

text \<open>
  The abstract view: the contents of a file as a list of bytes. \<open>image\<close> is the part of
  memory a read depends on, \<open>well_formed\<close> what \<open>read_data\<close> needs of an inode: a length
  that its block table can hold and block numbers in range.
\<close>

definition file_byte :: "fs \<Rightarrow> memory \<Rightarrow> u32 \<Rightarrow> nat \<Rightarrow> u8" where
  "file_byte f m inode k = m (byte_ptr f m inode (of_nat k))"

definition contents :: "fs \<Rightarrow> memory \<Rightarrow> u32 \<Rightarrow> u8 list" where
  "contents f m inode = map (file_byte f m inode) [0..<unat (load32 m inode)]"

definition image :: "fs \<Rightarrow> memory \<Rightarrow> u32 \<Rightarrow> u32 set" where
  "image f m inode = span (fs_start f + 8) 4 \<union> span inode 4096 \<union>
     (\<Union>k < unat (load32 m inode). {byte_ptr f m inode (of_nat k)})"

definition well_formed :: "fs \<Rightarrow> memory \<Rightarrow> u32 \<Rightarrow> bool" where
  "well_formed f m inode \<longleftrightarrow> unat (load32 m inode) \<le> 1023 * 4096 \<and>
     (\<forall>k < unat (load32 m inode). block_number m inode (of_nat k div 4096) < get_num_data_blocks f m)"

text \<open>Bytes \<open>o\<close> to \<open>o + n\<close> of a file.\<close>

definition piece :: "fs \<Rightarrow> memory \<Rightarrow> u32 \<Rightarrow> nat \<Rightarrow> nat \<Rightarrow> u8 list" where
  "piece f m inode off n = map (file_byte f m inode) [off..<off + n]"

lemma length_piece [simp]: "length (piece f m inode off n) = n"
  by (simp add: piece_def)

lemma piece_contents: "off + n \<le> unat (load32 m inode) \<Longrightarrow> piece f m inode off n = take n (drop off (contents f m inode))"
  by (rule nth_equalityI) (simp_all add: piece_def contents_def)

lemma piece_append: "piece f m inode off (a + b) = piece f m inode off a @ piece f m inode (off + a) b"
  using upt_add_eq_append [of off "off + a" b] by (simp add: piece_def add.assoc)

lemma load32_cong: "(\<And>a. a \<in> span p 4 \<Longrightarrow> m a = m' a) \<Longrightarrow> load32 m p = load32 m' p"
  by (rule load32_bytes, rule bytes_cong, assumption, simp)

text \<open>The entries of the block table and the length are in the inode.\<close>

lemma inode_word_span:
  assumes "unat i \<le> 4092" shows "span (inode + i) 4 \<subseteq> span inode 4096"
proof
  fix a assume "a \<in> span (inode + i) 4"
  then have "unat (a - (inode + i)) < 4" by (simp add: span_def)
  moreover have "a - inode = i + (a - (inode + i))" by simp
  ultimately have "unat (a - inode) < 4096"
    using assms unat_add_nowrap [of i "a - (inode + i)"] by simp
  then show "a \<in> span inode 4096" by (simp add: span_def)
qed

lemma block_entry_span:
  assumes "k < 1023 * 4096" shows "span (inode + 4 + (of_nat k div 4096) * 4) 4 \<subseteq> span inode 4096"
proof -
  have "unat (of_nat k :: u32) = k" using assms by (simp add: unat_of_nat_u32)
  then have d: "unat ((of_nat k :: u32) div 4096) = k div 4096" by (simp add: unat_div)
  have "k div 4096 < 1023" using assms by simp
  then have "unat ((of_nat k :: u32) div 4096 * 4) = k div 4096 * 4"
    using d by (simp add: unat_mult_lem [THEN iffD1])
  then have "unat (4 + (of_nat k :: u32) div 4096 * 4) \<le> 4092"
    using \<open>k div 4096 < 1023\<close> unat_add_nowrap [of 4 "(of_nat k :: u32) div 4096 * 4"] by simp
  from inode_word_span [OF this, of inode] show ?thesis by (simp add: add.assoc)
qed

lemma image_cong:
  assumes W: "unat (load32 m inode) \<le> 1023 * 4096" and eq: "\<And>a. a \<in> image f m inode \<Longrightarrow> m' a = m a"
  shows "load32 m' inode = load32 m inode" "get_num_data_blocks f m' = get_num_data_blocks f m"
    "k < unat (load32 m inode) \<Longrightarrow> block_number m' inode (of_nat k div 4096) = block_number m inode (of_nat k div 4096)"
    "k < unat (load32 m inode) \<Longrightarrow> byte_ptr f m' inode (of_nat k) = byte_ptr f m inode (of_nat k)"
    "k < unat (load32 m inode) \<Longrightarrow> file_byte f m' inode k = file_byte f m inode k"
proof -
  have eq': "m' a = m a" if "a \<in> span inode 4096" for a using that eq by (simp add: image_def)
  have "span inode 4 \<subseteq> span inode 4096" using inode_word_span [of 0 inode] by simp
  then show l: "load32 m' inode = load32 m inode" using eq' by (intro load32_cong) auto
  show "get_num_data_blocks f m' = get_num_data_blocks f m"
    unfolding get_num_data_blocks_def get_master_entry_addr_def
    using eq by (intro load32_cong) (auto simp: image_def)
  show b: "block_number m' inode (of_nat k div 4096) = block_number m inode (of_nat k div 4096)"
    if "k < unat (load32 m inode)" for k
    unfolding block_number_def using that W block_entry_span [of k inode] eq' by (intro load32_cong) auto
  show p: "byte_ptr f m' inode (of_nat k) = byte_ptr f m inode (of_nat k)" if "k < unat (load32 m inode)" for k
    using b [OF that] by (simp add: byte_ptr_def)
  show "file_byte f m' inode k = file_byte f m inode k" if "k < unat (load32 m inode)" for k
    using that p [OF that] by (auto simp: file_byte_def image_def intro!: eq)
qed

lemma byte_ptr_in_block:
  assumes "k mod 4096 + j < 4096" "k + j < 2 ^ 32"
  shows "byte_ptr f m inode (of_nat (k + j)) = byte_ptr f m inode (of_nat k) + of_nat j"
proof -
  have u: "unat (of_nat (k + j) :: u32) = k + j" "unat (of_nat k :: u32) = k"
    using assms unat_of_nat_u32 [of "k + j"] unat_of_nat_u32 [of k] by simp_all
  have "k + j = (k mod 4096 + j) + k div 4096 * 4096" by simp
  then have dm: "(k + j) div 4096 = k div 4096" "(k + j) mod 4096 = k mod 4096 + j"
    using assms(1) by (metis add.commute add_cancel_right_right div_less div_mult_self1 zero_neq_numeral,
      metis mod_less mod_mult_self1)
  have "(of_nat (k + j) :: u32) div 4096 = of_nat k div 4096"
    by (rule word_unat_eq_iff [THEN iffD2]) (use u dm in \<open>simp add: unat_div del: of_nat_add\<close>)
  moreover have "(of_nat (k + j) :: u32) mod 4096 = of_nat k mod 4096 + of_nat j"
  proof (rule word_unat_eq_iff [THEN iffD2])
    have "unat ((of_nat k :: u32) mod 4096) = k mod 4096" "unat (of_nat j :: u32) = j"
      using assms u by (simp_all add: unat_mod unat_of_nat_u32)
    then have "unat ((of_nat k :: u32) mod 4096 + of_nat j) = k mod 4096 + j"
      using assms(1) by (subst unat_add_nowrap) auto
    then show "unat ((of_nat (k + j) :: u32) mod 4096) = unat ((of_nat k :: u32) mod 4096 + of_nat j)"
      using u(1) dm by (simp add: unat_mod)
  qed
  ultimately show ?thesis by (simp add: byte_ptr_def)
qed

lemma bytes_piece:
  assumes "off mod 4096 + n \<le> 4096" "off + n < 2 ^ 32"
  shows "bytes m (byte_ptr f m inode (of_nat off)) n = piece f m inode off n"
  using assms by (intro nth_equalityI) (auto simp: piece_def file_byte_def byte_ptr_in_block simp del: of_nat_add)

lemma chunk_size_fits:
  assumes "off < 2 ^ 32"
  shows "off mod 4096 + unat (chunk_size (of_nat off) len) \<le> 4096"
proof -
  have "unat ((of_nat off :: u32) mod 4096) = off mod 4096" using assms by (simp add: unat_mod unat_of_nat_u32)
  then have "unat (4096 - (of_nat off :: u32) mod 4096) = 4096 - off mod 4096"
    by (simp add: unat_sub word_le_nat_alt)
  then show ?thesis by (auto simp: chunk_size_def Let_def word_less_nat_alt)
qed

lemma image_well_formed_cong:
  assumes W: "well_formed f m inode" and eq: "\<And>a. a \<in> image f m inode \<Longrightarrow> m' a = m a"
  shows "image f m' inode = image f m inode" "well_formed f m' inode"
    "off + n \<le> unat (load32 m inode) \<Longrightarrow> piece f m' inode off n = piece f m inode off n"
proof -
  have l: "unat (load32 m inode) \<le> 1023 * 4096" using W by (simp add: well_formed_def)
  note c = image_cong [OF l eq]
  show "image f m' inode = image f m inode" using c(1,4) by (auto simp: image_def)
  show "well_formed f m' inode" using W c(1,2,3) by (simp add: well_formed_def)
  show "piece f m' inode off n = piece f m inode off n" if "off + n \<le> unat (load32 m inode)"
    using that c(5) by (simp add: piece_def)
qed

lemma memcpy_block:
  assumes "bytes m src (unat n) = piece f m inode off (unat n)" "off + unat n \<le> unat (load32 m inode)"
    and src: "\<And>j. j < unat n \<Longrightarrow> src + of_nat j \<in> image f m inode"
    and D: "span buf (unat n) \<inter> image f m inode = {}"
  shows "memcpy m buf src n = store_bytes m buf (piece f m inode off (unat n))"
proof -
  have "unat n \<le> unat (buf - src)"
  proof (rule ccontr)
    assume c: "\<not> ?thesis"
    then have "src + of_nat (unat (buf - src)) \<in> image f m inode" by (intro src) simp
    then have "buf \<in> image f m inode" by simp
    moreover have "buf \<in> span buf (unat n)" using c by (simp add: span_def)
    ultimately show False using D by auto
  qed
  then show ?thesis using assms(1) by (simp add: memcpy_copy)
qed

lemma read_loop_copies:
  assumes "well_formed f m inode" "off + unat len \<le> unat (load32 m inode)"
    "span buf (unat len) \<inter> image f m inode = {}"
  shows "read_loop f inode (of_nat off) buf len copied m =
    (store_bytes m buf (piece f m inode off (unat len)), copied + len)"
  using assms
proof (induction "unat len" arbitrary: off buf len copied m rule: less_induct)
  case less
  have L: "unat (load32 m inode) \<le> 1023 * 4096" using less.prems(1) by (simp add: well_formed_def)
  show ?case
  proof (cases "len = 0")
    case True
    then show ?thesis by (subst read_loop.simps) (simp add: piece_def)
  next
    case False
    define n where "n = chunk_size (of_nat off) len"
    let ?src = "byte_ptr f m inode (of_nat off)"
    let ?m = "store_bytes m buf (piece f m inode off (unat n))"
    have pos: "0 <s len" using False less.prems(2) L by (simp add: sless_small)
    have n: "0 < unat n" "unat n \<le> unat len" "unat (len - n) = unat len - unat n"
      using chunk_size_pos [OF pos, of "of_nat off"] by (auto simp: n_def word_le_nat_alt unat_sub)
    have fit: "off mod 4096 + unat n \<le> 4096" "off + unat n < 2 ^ 32"
      using chunk_size_fits [of off len] less.prems(2) L n by (auto simp: n_def)
    have src: "?src + of_nat j \<in> image f m inode" if "j < unat n" for j
    proof -
      have "off + j \<in> {..<unat (load32 m inode)}" using that less.prems(2) n by simp
      then have "byte_ptr f m inode (of_nat (off + j)) \<in> image f m inode" unfolding image_def by blast
      then show ?thesis using that byte_ptr_in_block [of off j f m inode] fit by simp
    qed
    have sub: "span buf (unat n) \<subseteq> span buf (unat len)" "span (buf + n) (unat (len - n)) \<subseteq> span buf (unat len)"
    proof -
      have "unat (a - buf) < unat len" if "unat (a - (buf + n)) < unat len - unat n" for a
        using that unat_add_nowrap [of n "a - (buf + n)"] unat_u32_less [of len] by simp
      then show "span buf (unat n) \<subseteq> span buf (unat len)" "span (buf + n) (unat (len - n)) \<subseteq> span buf (unat len)"
        using n by (auto simp: span_def)
    qed
    have copy: "memcpy m buf ?src n = ?m"
      using bytes_piece [OF fit, of m f inode] less.prems(2,3) n src sub(1) by (intro memcpy_block) auto
    have eq: "?m a = m a" if "a \<in> image f m inode" for a
      using that less.prems(3) sub(1) by (intro store_bytes_outside) auto
    have c: "image f ?m inode = image f m inode" "well_formed f ?m inode"
      "piece f ?m inode (off + unat n) (unat (len - n)) = piece f m inode (off + unat n) (unat (len - n))"
      using image_well_formed_cong [OF less.prems(1), of ?m] eq n less.prems(2) by simp_all
    have l: "load32 ?m inode = load32 m inode" using image_cong(1) [OF L eq] .
    have "block_number m inode (of_nat off div 4096) < get_num_data_blocks f m"
      using less.prems(1,2) n by (simp add: well_formed_def)
    then have "read_loop f inode (of_nat off) buf len copied m =
        read_loop f inode (of_nat (off + unat n)) (buf + n) (len - n) (copied + n) ?m"
      using pos copy by (subst read_loop.simps) (auto simp: n_def Let_def)
    also have "\<dots> = (store_bytes ?m (buf + n) (piece f ?m inode (off + unat n) (unat (len - n))), copied + n + (len - n))"
    proof (rule less.hyps)
      show "unat (len - n) < unat len" using n by simp
      show "off + unat n + unat (len - n) \<le> unat (load32 ?m inode)"
        using n(2) less.prems(2) unfolding l n(3) by linarith
      show "span (buf + n) (unat (len - n)) \<inter> image f ?m inode = {}"
        using Int_mono [OF sub(2) order_refl, of "image f m inode"] unfolding c(1) less.prems(3) by simp
    qed (rule c(2))
    also have "piece f ?m inode (off + unat n) (unat (len - n)) = piece f m inode (off + unat n) (unat (len - n))"
      by (rule c(3))
    also have "store_bytes ?m (buf + n) (piece f m inode (off + unat n) (unat (len - n))) =
        store_bytes m buf (piece f m inode off (unat len))"
      using n piece_append [of f m inode off "unat n" "unat (len - n)"] unat_u32_le [of len]
      by (simp add: store_bytes_append)
    finally show ?thesis by simp
  qed
qed

lemma read_data_copies:
  assumes W: "well_formed f m inode"
    and n: "n = min (unat len) (unat (load32 m inode) - unat offset)"
    and D: "span buf n \<inter> image f m inode = {}"
  shows "read_data f inode offset buf len m =
    (store_bytes m buf (take n (drop (unat offset) (contents f m inode))), of_nat n)"
proof -
  let ?fl = "load32 m inode"
  have L: "unat ?fl \<le> 1023 * 4096" using W by (simp add: well_formed_def)
  then have ok: "\<not> ?fl div 4096 > 1023" by (simp add: word_less_nat_alt unat_div div_le_mono [of _ "1023 * 4096", simplified])
  show ?thesis
  proof (cases "offset > ?fl")
    case True
    then have "n = 0" using n by (simp add: word_less_nat_alt)
    then show ?thesis using True ok by (simp add: read_data_def)
  next
    case False
    define l where "l = (if len > ?fl - offset then ?fl - offset else len)"
    have "unat (?fl - offset) = unat ?fl - unat offset" using False by (simp add: unat_sub)
    then have l: "unat l = n" using n by (auto simp: l_def word_less_nat_alt not_less min_def)
    have bound: "unat offset + n \<le> unat ?fl" using n False by (auto simp: word_less_nat_alt)
    have "read_data f inode offset buf len m = read_loop f inode (of_nat (unat offset)) buf l 0 m"
      using False ok by (simp add: read_data_def l_def Let_def)
    also have "\<dots> = (store_bytes m buf (piece f m inode (unat offset) (unat l)), 0 + l)"
      using W bound D l by (intro read_loop_copies) auto
    finally show ?thesis using piece_contents [OF bound] l by auto
  qed
qed

section \<open>Reading a file from front to back\<close>

text \<open>
  The interface a reading program relies on: each call hands over the next bytes of what is left,
  and hands over nothing only when nothing is left.
\<close>

fun read_all :: "('s \<Rightarrow> 's \<times> 'b list) \<Rightarrow> nat \<Rightarrow> 's \<Rightarrow> 'b list option" where
  "read_all rd 0 s = None"
| "read_all rd (Suc fuel) s =
     (let (s', bs) = rd s in if bs = [] then Some [] else map_option (\<lambda>r. bs @ r) (read_all rd fuel s'))"

locale sequential_reader =
  fixes ok :: "'s \<Rightarrow> bool" and left :: "'s \<Rightarrow> 'b list" and rd :: "'s \<Rightarrow> 's \<times> 'b list"
  assumes rd_ok: "ok s \<Longrightarrow> ok (fst (rd s))"
    and rd_next: "ok s \<Longrightarrow> snd (rd s) @ left (fst (rd s)) = left s"
    and rd_end: "ok s \<Longrightarrow> snd (rd s) = [] \<Longrightarrow> left s = []"
begin

lemma read_all_left: "ok s \<Longrightarrow> length (left s) < fuel \<Longrightarrow> read_all rd fuel s = Some (left s)"
proof (induction fuel arbitrary: s)
  case (Suc fuel)
  obtain s' bs where r: "rd s = (s', bs)" by fastforce
  show ?case
  proof (cases "bs = []")
    case True
    then show ?thesis using r rd_end [OF Suc.prems(1)] by simp
  next
    case False
    have n: "bs @ left s' = left s" using rd_next [OF Suc.prems(1)] r by simp
    then have "length (left s') < fuel" using Suc.prems(2) False by (cases bs) (auto simp: n [symmetric])
    then show ?thesis using r False n Suc.IH [of s'] rd_ok [OF Suc.prems(1)] by simp
  qed
qed simp

end

definition open_ok :: "fs \<Rightarrow> u32 \<Rightarrow> u32 \<Rightarrow> memory \<times> file_info \<Rightarrow> bool" where
  "open_ok f buf len s \<longleftrightarrow> (case s of (m, file) \<Rightarrow>
     well_formed f m (inode_ptr file) \<and> span buf (unat len) \<inter> image f m (inode_ptr file) = {} \<and>
     pos file \<le> load32 m (inode_ptr file) \<and> len \<noteq> 0)"

definition unread :: "fs \<Rightarrow> memory \<times> file_info \<Rightarrow> u8 list" where
  "unread f s = (case s of (m, file) \<Rightarrow> drop (unat (pos file)) (contents f m (inode_ptr file)))"

definition read_step :: "fs \<Rightarrow> u32 \<Rightarrow> u32 \<Rightarrow> memory \<times> file_info \<Rightarrow> (memory \<times> file_info) \<times> u8 list" where
  "read_step f buf len s = (case s of (m, file) \<Rightarrow>
     let (m1, file1, n) = file_read f file buf len m in ((m1, file1), bytes m1 buf (unat n)))"

lemma contents_cong:
  assumes "well_formed f m inode" "\<And>a. a \<in> image f m inode \<Longrightarrow> m' a = m a"
  shows "contents f m' inode = contents f m inode" "load32 m' inode = load32 m inode"
proof -
  have l: "unat (load32 m inode) \<le> 1023 * 4096" using assms(1) by (simp add: well_formed_def)
  show "load32 m' inode = load32 m inode" using image_cong(1) [OF l assms(2)] .
  then show "contents f m' inode = contents f m inode"
    using image_cong(5) [OF l assms(2)] by (simp add: contents_def)
qed

lemma length_contents [simp]: "length (contents f m inode) = unat (load32 m inode)"
  by (simp add: contents_def)

lemma read_step_effect:
  assumes "open_ok f buf len (m, file)"
  defines "bs \<equiv> take (unat len) (unread f (m, file))"
  shows "read_step f buf len (m, file) =
    ((store_bytes m buf bs, file\<lparr>pos := pos file + of_nat (length bs)\<rparr>), bs)" (is ?step)
    and "open_ok f buf len (fst (read_step f buf len (m, file)))" (is ?ok)
    and "unread f (fst (read_step f buf len (m, file))) = drop (unat len) (unread f (m, file))" (is ?left)
proof -
  let ?i = "inode_ptr file" and ?m = "store_bytes m buf bs"
  have o: "well_formed f m ?i" "span buf (unat len) \<inter> image f m ?i = {}" "pos file \<le> load32 m ?i" "len \<noteq> 0"
    using assms(1) by (auto simp: open_ok_def)
  define n where "n = min (unat len) (unat (load32 m ?i) - unat (pos file))"
  have len: "length bs = n" by (simp add: bs_def unread_def n_def min.commute)
  have sub: "span buf n \<inter> image f m ?i = {}" using o(2) by (auto simp: span_def n_def)
  have bs: "take n (drop (unat (pos file)) (contents f m ?i)) = bs"
    by (simp add: bs_def unread_def n_def min_def)
  have n32: "n < 2 ^ 32" using unat_u32_less [of len] by (simp add: n_def)
  then have u: "unat (of_nat n :: u32) = n" by (simp add: unat_of_nat_u32)
  have r: "read_data f ?i (pos file) buf len m = (?m, of_nat n)"
    using read_data_copies [OF o(1) n_def sub] bs by simp
  have "bytes ?m buf n = bs" using bytes_store_bytes [of bs m buf] len n32 by simp
  with r show s: ?step by (simp add: read_step_def file_read_def len u)
  have eq: "?m a = m a" if "a \<in> image f m ?i" for a
    using that sub len by (intro store_bytes_outside) auto
  note c = image_well_formed_cong [OF o(1) eq] contents_cong [OF o(1) eq]
  have p: "unat (pos file + of_nat n) = unat (pos file) + n"
    using u n_def unat_u32_less [of "load32 m ?i"] o(3) by (simp add: unat_add_nowrap word_le_nat_alt)
  then have "pos file + of_nat n \<le> load32 m ?i" using o(3) by (auto simp: word_le_nat_alt n_def)
  then show ?ok using o(2,4) c by (simp add: s open_ok_def len)
  have "drop (unat (pos file) + n) (contents f m ?i) = drop (unat len) (drop (unat (pos file)) (contents f m ?i))"
    by (cases "unat len \<le> unat (load32 m ?i) - unat (pos file)") (auto simp: n_def add.commute min_def)
  then show ?left using c p by (simp add: s unread_def len)
qed

interpretation regular_file: sequential_reader "open_ok f buf len" "unread f" "read_step f buf len" for f buf len
proof
  fix s
  assume o: "open_ok f buf len s"
  obtain m fi where s: "s = (m, fi)" by fastforce
  note e = read_step_effect [OF o [unfolded s]]
  show "open_ok f buf len (fst (read_step f buf len s))" using e(2) s by simp
  show "snd (read_step f buf len s) @ unread f (fst (read_step f buf len s)) = unread f s"
    using e(1,3) s by simp
  show "unread f s = []" if "snd (read_step f buf len s) = []"
    using that e(1) o s by (auto simp: open_ok_def unat_eq_zero)
qed

section \<open>Looking up and listing names\<close>

definition entry_name :: "fs \<Rightarrow> memory \<Rightarrow> nat \<Rightarrow> u8 list" where
  "entry_name f m i = upto_nul 32 (at m (dentry_addr f (of_nat i)))"

lemma name_reader_upto: "upto_nul 32 (name_reader (load_dentry m a)) = upto_nul 32 (at m a)"
  by (rule chunk_cong) (simp add: name_reader_def load_dentry_def at_def unat_of_nat_u32)

lemma find_dentry_first:
  assumes "i \<le> get_num_dentries f m"
  shows "find_dentry f m fname i =
    (case List.find (\<lambda>k. entry_name f m k = upto_nul 32 fname) [unat i..<unat (get_num_dentries f m)] of
       None \<Rightarrow> (- 1, None) | Some k \<Rightarrow> (0, Some (load_dentry m (dentry_addr f (of_nat k)))))"
  using assms
proof (induction i rule: count_up_induct [of "get_num_dentries f m"])
  case (step i)
  show ?case
  proof (cases "i < get_num_dentries f m")
    case True
    have u: "unat i < unat (get_num_dentries f m)" "unat (i + 1) = Suc (unat i)"
      using True by (auto simp: word_less_nat_alt [symmetric] unat_Suc_less)
    have "strncmp fname (name_reader (load_dentry m (dentry_addr f i))) NAME_MAX = 0 \<longleftrightarrow>
        entry_name f m (unat i) = upto_nul 32 fname"
      by (auto simp: strncmp_zero NAME_MAX_def name_reader_upto entry_name_def)
    moreover have "i + 1 \<le> get_num_dentries f m" using True by (simp add: inc_le)
    ultimately show ?thesis using step.IH True u
      by (subst find_dentry.simps) (auto simp: read_dentry_by_index_def upt_conv_Cons)
  next
    case False
    then show ?thesis by (subst find_dentry.simps) (auto simp: word_less_nat_alt)
  qed
qed

lemma store_one: "store_bytes m p [b] = m(p := b)"
  by (simp add: store_bytes_Cons)

lemma copy_name_bytes:
  assumes s: "str (at m name) nm" and D: "span buf (length nm) \<inter> span name (Suc (length nm)) = {}"
  shows "copy_name name buf 0 m = Some (store_bytes m buf nm, of_nat (length nm))"
proof -
  have small: "length nm < 2 ^ 31" using s by (simp add: str_def)
  have rd: "store_bytes m buf (take j nm) (name + of_nat i) = m (name + of_nat i)"
    if "i \<le> length nm" for i j
  proof (rule store_bytes_outside)
    have "name + of_nat i \<in> span name (Suc (length nm))" using that small by (intro in_span) auto
    moreover have "span buf (length (take j nm)) \<subseteq> span buf (length nm)" by (auto simp: span_def)
    ultimately show "name + of_nat i \<notin> span buf (length (take j nm))" using D by auto
  qed
  have "copy_name name buf (of_nat j) (store_bytes m buf (take j nm)) = Some (store_bytes m buf nm, of_nat (length nm))"
    if "j \<le> length nm" for j
    using that
  proof (induction j rule: inc_induct)
    case base
    then show ?case using s rd [of "length nm" "length nm"] by (subst copy_name.simps) (simp add: str_def at_def)
  next
    case (step j)
    have b: "m (name + of_nat j) = nm ! j" using s step.hyps by (simp add: str_def at_def)
    have "store_bytes m buf (take (Suc j) nm) = (store_bytes m buf (take j nm))(buf + of_nat j := nm ! j)"
      using step.hyps small store_bytes_append [of "take j nm" "[nm ! j]" m buf]
      by (simp add: take_Suc_conv_app_nth store_one)
    moreover have "nm ! j \<noteq> 0" using s step.hyps nth_mem [of j nm] by (metis str_def)
    ultimately show ?case using step b rd [of j j]
      by (subst copy_name.simps) (simp add: add.commute fun_upd_def)
  qed
  from this [of 0] show ?thesis by simp
qed

lemma pad_name_bytes:
  assumes "unat len < 2 ^ 31"
  shows "pad_name buf len (int i) m = store_bytes m (buf + of_nat i) (replicate (unat len - i) 0)"
proof -
  have sl: "sint len = int (unat len)" using assms by (intro sint_small) simp
  show ?thesis
proof (induction "unat len - i" arbitrary: i m)
  case 0
  then have "\<not> int i < sint len" unfolding sl by linarith
  then show ?case using 0 by (subst pad_name.simps) simp
next
  case (Suc k)
  then have "int i < sint len" unfolding sl by linarith
  moreover have "unat len - i = Suc (unat len - Suc i)" "k = unat len - Suc i" using Suc.hyps(2) by auto
  ultimately show ?case
    using Suc.hyps(1) [of "Suc i"] unat_u32_less [of len]
    by (subst pad_name.simps) (simp add: store_bytes_Cons algebra_simps)
qed
qed

lemma read_directory_bytes:
  assumes "filenum < get_num_dentries f m" and s: "str (at m (dentry_addr f filenum)) nm"
    and D: "span buf (length nm) \<inter> span (dentry_addr f filenum) (Suc (length nm)) = {}" and len: "unat len < 2 ^ 31"
  shows "read_directory_index f filenum buf len m =
    Some (store_bytes m buf (nm @ replicate (unat len - length nm) 0), of_nat (length nm))"
proof -
  have n: "length nm < 2 ^ 31" using s by (simp add: str_def)
  then have "sint (of_nat (length nm) :: u32) = int (length nm)" by (simp add: sint_small unat_of_nat_u32)
  then have "read_directory_index f filenum buf len m =
      Some (pad_name buf len (int (length nm)) (store_bytes m buf nm), of_nat (length nm))"
    using assms(1) copy_name_bytes [OF s D] by (auto simp: read_directory_index_def)
  also have "\<dots> = Some (store_bytes m buf (nm @ replicate (unat len - length nm) 0), of_nat (length nm))"
    using pad_name_bytes [OF len] n len by (simp add: store_bytes_append)
  finally show ?thesis .
qed

lemma read_dentry_by_name_cases:
  assumes "str fname bs"
  shows "read_dentry_by_name f m fname =
    Some (if bs = [] \<or> 32 < length bs then (- 1, None)
      else case List.find (\<lambda>k. entry_name f m k = bs) [0..<unat (get_num_dentries f m)] of
          None \<Rightarrow> (- 1, None) | Some k \<Rightarrow> (0, Some (load_dentry m (dentry_addr f (of_nat k)))))"
proof -
  have len: "unat (of_nat (length bs) :: u32) = length bs" using assms by (simp add: str_def unat_of_nat_u32)
  have "upto_nul 32 fname = bs" if "length bs \<le> 32" using assms that by (rule upto_nul_str)
  moreover have "bs = [] \<longleftrightarrow> length bs < 1" by auto
  ultimately show ?thesis
    using strlen_str [OF assms] len find_dentry_first [of 0 f m fname]
    by (simp add: read_dentry_by_name_def NAME_MAX_def word_less_nat_alt)
qed

section \<open>Properties\<close>

text \<open>
  A small image for the witnesses: one entry \<open>a\<close> whose inode has three bytes in block 0,
  with the image at address 0, the inode at 4096 and the block at 8192.
\<close>

definition tiny_image :: memory where
  "tiny_image a = (if a = 0 \<or> a = 4 \<or> a = 8 then 1 else if a = 64 then 97 else if a = 96 then 2
     else if a = 4096 then 3 else if a = 8192 then 104 else if a = 8193 then 105 else if a = 8194 then 10 else 0)"

definition tiny_fs :: fs where
  "tiny_fs = set_fs_start 0 tiny_image \<lparr>fs_start = 0, inodes = 0, dentries = 0, data_blocks = 0\<rparr>"

lemma tiny_fs_simps [simp]:
  "fs_start tiny_fs = 0" "inodes tiny_fs = 4096" "dentries tiny_fs = 64" "data_blocks tiny_fs = 8192"
  by (simp_all add: tiny_fs_def set_fs_start_def Let_def get_num_inodes_def get_master_entry_addr_def
      load32_def tiny_image_def sizeof_bootblock_def sizeof_master_entry_def sizeof_inode_def)

lemma tiny_loads [simp]:
  "load32 tiny_image 4096 = 3" "get_num_data_blocks tiny_fs tiny_image = 1" "get_num_dentries tiny_fs tiny_image = 1"
  "load32 tiny_image 4100 = 0"
  by (simp_all add: load32_def tiny_image_def get_num_data_blocks_def get_num_dentries_def get_master_entry_addr_def)

lemma all_less_three: "(\<forall>k < (3 :: nat). P k) \<longleftrightarrow> P 0 \<and> P 1 \<and> P 2"
  by (simp add: less_Suc_eq numeral_3_eq_3 numeral_2_eq_2) blast

lemma less_three_set: "{..<3 :: nat} = {0, 1, 2}"
  by auto

lemma tiny_bytes [simp]:
  "byte_ptr tiny_fs tiny_image 4096 0 = 8192" "byte_ptr tiny_fs tiny_image 4096 1 = 8193"
  "byte_ptr tiny_fs tiny_image 4096 2 = 8194"
  by (simp_all add: byte_ptr_def block_number_def)

lemma tiny_well_formed: "well_formed tiny_fs tiny_image 4096"
  by (simp add: well_formed_def all_less_three block_number_def)

lemma tiny_image_set: "image tiny_fs tiny_image 4096 = span 8 4 \<union> span 4096 4096 \<union> {8192, 8193, 8194}"
  by (auto simp: image_def less_three_set)

lemma tiny_contents: "contents tiny_fs tiny_image 4096 = [104, 105, 10]"
  by (simp add: contents_def file_byte_def upt_rec tiny_image_def)

lemma span_three: "span p 3 = {p, p + 1, p + 2}"
proof -
  have "a \<in> {p, p + 1, p + 2}" if "unat (a - p) < 3" for a
  proof -
    have "unat (a - p) = unat (0 :: u32) \<or> unat (a - p) = unat (1 :: u32) \<or> unat (a - p) = unat (2 :: u32)"
      using that by auto
    then have "a - p = 0 \<or> a - p = 1 \<or> a - p = 2" by (simp only: word_unat_eq_iff)
    then show ?thesis by (auto simp: algebra_simps)
  qed
  moreover have "unat (a - p) < 3" if "a \<in> {p, p + 1, p + 2}" for a using that by auto
  ultimately show ?thesis by (auto simp: span_def)
qed

lemma tiny_disjoint: "span 0x5000 3 \<inter> image tiny_fs tiny_image 4096 = {}"
  by (simp add: tiny_image_set span_three) (simp add: span_def)

lemma tiny_lookup:
  "read_dentry_by_name tiny_fs tiny_image (\<lambda>i. if i = 0 then 97 else 0) = Some (0, Some (load_dentry tiny_image 64))"
proof -
  have "str (\<lambda>i. if i = 0 then 97 else 0) [97]" by (simp add: str_def)
  moreover have "entry_name tiny_fs tiny_image 0 = [97]"
    by (simp add: entry_name_def chunk_def at_def dentry_addr_def tiny_image_def upt_rec)
  ultimately show ?thesis
    using read_dentry_by_name_cases [of "\<lambda>i. if i = 0 then 97 else 0" "[97]" tiny_fs tiny_image] by (simp add: upt_rec dentry_addr_def)
qed

text \<open>
  C13. For a well-formed inode and a buffer clear of the image, \<open>read_data\<close> returns the
  number of bytes between the offset and the end of the file, at most \<open>len\<close> (read as an
  unsigned number, so a negative length reads to the end), and stores exactly those bytes of
  the file at the buffer and nothing elsewhere.
\<close>

theorem read_data_correct:
  assumes "well_formed f m inode"
    and "n = min (unat len) (unat (load32 m inode) - unat offset)"
    and "span buf n \<inter> image f m inode = {}"
  shows "read_data f inode offset buf len m =
    (store_bytes m buf (take n (drop (unat offset) (contents f m inode))), of_nat n)"
  using assms by (rule read_data_copies)

theorem read_data_correct_witness:
  "read_data tiny_fs 4096 1 0x5000 100 tiny_image = (store_bytes tiny_image 0x5000 [105, 10], 2)"
proof -
  have "span 0x5000 2 \<subseteq> span 0x5000 3" by (auto simp: span_def)
  then have "span 0x5000 2 \<inter> image tiny_fs tiny_image 4096 = {}" using tiny_disjoint by auto
  then show ?thesis
    using read_data_correct [OF tiny_well_formed, of 2 100 1 "0x5000"] by (simp add: tiny_contents)
qed

text \<open>
  A program that reads an open file again and again with \<open>file_read\<close> into the same
  buffer until it gets 0 bytes collects exactly what was left of the file, for every non-zero
  buffer length.
\<close>

theorem file_read_until_end:
  assumes "open_ok f buf len (m, file)"
  shows "read_all (read_step f buf len) (Suc (unat (load32 m (inode_ptr file)))) (m, file) =
    Some (drop (unat (pos file)) (contents f m (inode_ptr file)))"
proof -
  have "length (unread f (m, file)) < Suc (unat (load32 m (inode_ptr file)))" by (simp add: unread_def)
  from regular_file.read_all_left [OF assms this] show ?thesis by (simp add: unread_def)
qed

theorem file_read_until_end_witness:
  "read_all (read_step tiny_fs 0x5000 3) 4
     (tiny_image, \<lparr>f_ops = Some Fs_funcs, inode_ptr = 4096, pos = 0, f_type = FileRegular, can_write = False, can_read = True, in_use = True\<rparr>)
   = Some [104, 105, 10]"
proof -
  have "open_ok tiny_fs 0x5000 3 (tiny_image,
      \<lparr>f_ops = Some Fs_funcs, inode_ptr = 4096, pos = 0, f_type = FileRegular, can_write = False, can_read = True, in_use = True\<rparr>)"
    using tiny_well_formed tiny_disjoint by (simp add: open_ok_def)
  from file_read_until_end [OF this] show ?thesis by (simp add: tiny_contents)
qed

text \<open>
  \<open>read_dentry_by_name\<close> rejects names that are empty or longer than 32 characters;
  for any other name it returns the first directory entry whose name, cut at 32 bytes, is that
  name, and \<open>- 1\<close> when there is none.
\<close>

theorem read_dentry_by_name_first:
  assumes "str fname bs"
  shows "read_dentry_by_name f m fname =
    Some (if bs = [] \<or> 32 < length bs then (- 1, None)
      else case List.find (\<lambda>k. entry_name f m k = bs) [0..<unat (get_num_dentries f m)] of
          None \<Rightarrow> (- 1, None) | Some k \<Rightarrow> (0, Some (load_dentry m (dentry_addr f (of_nat k)))))"
  using assms by (rule read_dentry_by_name_cases)

theorem read_dentry_by_name_first_witness:
  "read_dentry_by_name tiny_fs tiny_image (\<lambda>i. if i = 0 then 97 else 0) =
     Some (0, Some (load_dentry tiny_image 64))"
proof -
  have "str (\<lambda>i. if i = 0 then 97 else 0) [97]" by (simp add: str_def)
  moreover have "entry_name tiny_fs tiny_image 0 = [97]"
    by (simp add: entry_name_def chunk_def at_def dentry_addr_def tiny_image_def upt_rec)
  ultimately show ?thesis
    using read_dentry_by_name_first [of "\<lambda>i. if i = 0 then 97 else 0" "[97]" tiny_fs tiny_image]
    by (simp add: upt_rec dentry_addr_def)
qed

text \<open>
  \<open>read_directory_index\<close> copies the NUL-terminated string at the entry's name, pads the
  buffer with zeros up to \<open>len\<close> and returns the length of the string. Neither the 32 bytes
  of the name field nor \<open>len\<close> bounds the copy.
\<close>

theorem read_directory_index_copies:
  assumes "filenum < get_num_dentries f m" "str (at m (dentry_addr f filenum)) nm"
    and "span buf (length nm) \<inter> span (dentry_addr f filenum) (Suc (length nm)) = {}" "unat len < 2 ^ 31"
  shows "read_directory_index f filenum buf len m =
    Some (store_bytes m buf (nm @ replicate (unat len - length nm) 0), of_nat (length nm))"
  using assms by (rule read_directory_bytes)

theorem read_directory_index_copies_witness:
  "read_directory_index tiny_fs 0 0x5000 2 tiny_image = Some (store_bytes tiny_image 0x5000 [97, 0], 1)"
proof -
  have "str (at tiny_image (dentry_addr tiny_fs 0)) [97]" by (simp add: str_def at_def dentry_addr_def tiny_image_def)
  moreover have "span 0x5000 (length [97 :: u8]) \<inter> span (dentry_addr tiny_fs 0) (Suc (length [97 :: u8])) = {}"
  proof -
    have "a = 0x5000" if "a \<in> span 0x5000 1" for a using that by (simp add: span_def unat_eq_zero)
    then have "span 0x5000 1 = {0x5000 :: u32}" by (auto simp: span_def)
    then show ?thesis by (simp add: span_def dentry_addr_def)
  qed
  ultimately show ?thesis
    using read_directory_index_copies [of 0 tiny_fs tiny_image "[97]" "0x5000" 2] by simp
qed

text \<open>
  For a file of \<open>1023 * 4096 + 1\<close> bytes the check of the length lets the read go on,
  and the number of its last block is read from the word after the inode.
\<close>

theorem read_data_past_inode:
  assumes "load32 m inode = 0x3FF001"
  shows "read_data f inode 0x3FF000 buf 1 m =
    (if get_num_data_blocks f m \<le> load32 m (inode + sizeof_inode) then (m, - 1)
     else (memcpy m buf (data_blocks f + load32 m (inode + sizeof_inode) * 4096) 1, 1))"
proof -
  have pos: "0 <s (1 :: u32)" "\<not> 0 <s (0 :: u32)" by (simp_all add: sless_small)
  have done_loop: "read_loop f inode off' b' 0 c m' = (m', c)" for off' b' c m'
    using pos by (subst read_loop.simps) simp
  have b: "block_number m inode (0x3FF000 div 4096) = load32 m (inode + sizeof_inode)"
  proof -
    have "(0x3FF000 :: u32) div 4096 = 1023" "inode + 4 + 1023 * 4 = inode + 4096" by simp_all
    then show ?thesis by (simp only: block_number_def sizeof_inode_def)
  qed
  have "read_data f inode 0x3FF000 buf 1 m = read_loop f inode 0x3FF000 buf 1 0 m"
    using assms by (simp add: read_data_def)
  then show ?thesis
    using pos b done_loop by (subst (asm) read_loop.simps) (simp add: chunk_size_def byte_ptr_def)
qed

theorem read_data_past_inode_witness:
  "read_data tiny_fs 4096 0x3FF000 0x5000 1 (store32 (\<lambda>_. 0) 4096 0x3FF001) =
     (store32 (\<lambda>_. 0) 4096 0x3FF001, - 1)"
proof -
  have "load32 (store32 (\<lambda>_. 0) 4096 0x3FF001) 4096 = 0x3FF001" by (rule load32_store32)
  moreover have "get_num_data_blocks tiny_fs (store32 (\<lambda>_. 0) 4096 0x3FF001) = 0"
    by (simp add: get_num_data_blocks_def get_master_entry_addr_def load32_def store32_def store_bytes_def)
  ultimately show ?thesis using read_data_past_inode [of _ 4096 tiny_fs "0x5000"] by simp
qed

text \<open>
  When the file is too long for its inode, \<open>file_read\<close> returns \<open>- 1\<close> and also moves
  the file position back by one, so that the next read starts at another place.
\<close>

theorem file_read_error_moves_back:
  assumes "load32 m (inode_ptr file) div 4096 > 1023"
  shows "file_read f file buf len m = (m, file\<lparr>pos := pos file - 1\<rparr>, - 1)"
  using assms by (simp add: file_read_def read_data_def)

theorem file_read_error_moves_back_witness:
  "pos (fst (snd (file_read tiny_fs
     \<lparr>f_ops = Some Fs_funcs, inode_ptr = 0, pos = 0, f_type = FileRegular, can_write = False, can_read = True, in_use = True\<rparr>
     0 1 (\<lambda>_. 0xFF)))) = 0xFFFFFFFF"
proof -
  have "load32 (\<lambda>_. 0xFF) 0 div 4096 > 1023" by (simp add: load32_def)
  then show ?thesis
    by (subst file_read_error_moves_back) simp_all
qed

end
