(* ===== verification/Task_Queue.thy ===== *)
theory Task_Queue
  imports Dll
begin

text \<open>
  The run queue of \<^verbatim>\<open>task.c\<close>: a doubly linked queue of tasks, the rotation that
  \<open>next_task\<close> performs and the choice \<open>schedule\<close> makes. A \<^verbatim>\<open>task_t*\<close> is an
  address or NULL (\<open>None\<close>), the tasks are a heap from addresses to records, and a process
  is named by its pid. Following NULL is \<open>None\<close>, and so is a loop that does not end.
\<close>

section \<open>State\<close>

datatype task_status = TaskActive | TaskIdle | TaskSleeping

record task =
  t_process :: nat
  t_status :: task_status
  t_next :: "u32 option"
  t_prev :: "u32 option"

record task_queue =
  tasks :: "u32 \<Rightarrow> task"
  q_head :: "u32 option"
  q_tail :: "u32 option"
  num_tasks :: u32

definition upd_task :: "u32 \<Rightarrow> (task \<Rightarrow> task) \<Rightarrow> task_queue \<Rightarrow> task_queue" where
  "upd_task t f q = q\<lparr>tasks := (tasks q)(t := f (tasks q t))\<rparr>"

lemma upd_task_simps [simp]:
  "tasks (upd_task t f q) = (tasks q)(t := f (tasks q t))"
  "q_head (upd_task t f q) = q_head q" "q_tail (upd_task t f q) = q_tail q" "num_tasks (upd_task t f q) = num_tasks q"
  by (simp_all add: upd_task_def)

section \<open>Queue operations\<close>

definition init_taskqueue :: "task_queue \<Rightarrow> task_queue" where
  "init_taskqueue q = q\<lparr>q_head := None, q_tail := None, num_tasks := 0\<rparr>"

definition push_head_task :: "u32 \<Rightarrow> task_queue \<Rightarrow> task_queue" where
  "push_head_task t q =
     (let q1 = upd_task t (\<lambda>r. r\<lparr>t_prev := None\<rparr>) q;
          q2 = (case q_head q1 of
                  None \<Rightarrow> q1\<lparr>q_tail := Some t\<rparr>
                | Some h \<Rightarrow> upd_task h (\<lambda>r. r\<lparr>t_prev := Some t\<rparr>) q1);
          q3 = upd_task t (\<lambda>r. r\<lparr>t_next := q_head q2\<rparr>) q2
      in q3\<lparr>q_head := Some t, num_tasks := num_tasks q3 + 1\<rparr>)"

definition push_tail_task :: "u32 \<Rightarrow> task_queue \<Rightarrow> task_queue" where
  "push_tail_task t q =
     (let q1 = upd_task t (\<lambda>r. r\<lparr>t_next := None\<rparr>) q;
          q2 = (case q_tail q1 of
                  None \<Rightarrow> q1\<lparr>q_head := Some t\<rparr>
                | Some l \<Rightarrow> upd_task l (\<lambda>r. r\<lparr>t_next := Some t\<rparr>) q1);
          q3 = upd_task t (\<lambda>r. r\<lparr>t_prev := q_tail q2\<rparr>) q2
      in q3\<lparr>q_tail := Some t, num_tasks := num_tasks q3 + 1\<rparr>)"

text \<open>
  \<open>unlink_task\<close> is the branch of \<open>remove_task\<close> for a queue with two or more tasks, one
  state per \<open>if\<close>. \<open>remove_task\<close> takes a pointer, and returns NULL (no task) for a
  task that is not the only one.
\<close>

definition unlink_task :: "u32 \<Rightarrow> task_queue \<Rightarrow> task_queue option" where
  "unlink_task t q = do {
     let q1 = (case t_prev (tasks q t) of
                 None \<Rightarrow> q
               | Some p \<Rightarrow> upd_task p (\<lambda>r. r\<lparr>t_next := t_next (tasks q t)\<rparr>) q);
     q2 \<leftarrow> (if q_head q1 = Some t then do {
              h \<leftarrow> t_next (tasks q1 t);
              Some (upd_task h (\<lambda>r. r\<lparr>t_prev := None\<rparr>) (q1\<lparr>q_head := Some h\<rparr>))
            } else Some q1);
     let q3 = (case t_next (tasks q2 t) of
                 None \<Rightarrow> q2
               | Some n \<Rightarrow> upd_task n (\<lambda>r. r\<lparr>t_prev := t_prev (tasks q2 t)\<rparr>) q2);
     (if q_tail q3 = Some t then do {
        l \<leftarrow> t_prev (tasks q3 t);
        Some (upd_task l (\<lambda>r. r\<lparr>t_next := None\<rparr>) (q3\<lparr>q_tail := Some l\<rparr>))
      } else Some q3)
   }"

definition remove_task :: "u32 option \<Rightarrow> task_queue \<Rightarrow> (task_queue \<times> u32 option) option" where
  "remove_task tp q =
     (if num_tasks q \<le> 1 \<and> tp \<noteq> q_head q then Some (q, None)
      else do {
        q1 \<leftarrow> (if num_tasks q \<le> 1 then Some (q\<lparr>q_head := None, q_tail := None\<rparr>)
              else do { t \<leftarrow> tp; unlink_task t q });
        t \<leftarrow> tp;
        Some ((upd_task t (\<lambda>r. r\<lparr>t_next := None, t_prev := None\<rparr>) q1)\<lparr>num_tasks := num_tasks q1 - 1\<rparr>, Some t)
      })"

definition pop_head_task :: "task_queue \<Rightarrow> (task_queue \<times> u32 option) option" where
  "pop_head_task q = remove_task (q_head q) q"

definition pop_tail_task :: "task_queue \<Rightarrow> (task_queue \<times> u32 option) option" where
  "pop_tail_task q = remove_task (q_tail q) q"

definition next_task :: "task_queue \<Rightarrow> (task_queue \<times> u32 option) option" where
  "next_task q =
     (if q_head q = None then Some (q, None)
      else do {
        (q1, top) \<leftarrow> pop_head_task q;
        t \<leftarrow> top;
        Some (push_tail_task t q1, Some t)
      })"

definition idle_task :: "u32 \<Rightarrow> task_queue \<Rightarrow> task_queue" where
  "idle_task t q = upd_task t (\<lambda>r. r\<lparr>t_status := TaskIdle\<rparr>) q"

text \<open>
  The loop of \<open>schedule\<close>. The counter \<open>tasks_remaining\<close> is unsigned, so the test
  \<open>tasks_remaining >= 0\<close> always holds; it is kept here as it is written.
\<close>

partial_function (option) schedule_loop :: "u32 \<Rightarrow> task_queue \<Rightarrow> (task_queue \<times> u32 option) option" where
  "schedule_loop tasks_remaining q = do {
     r \<leftarrow> next_task q;
     if snd r \<noteq> None \<and> t_status (tasks (fst r) (the (snd r))) \<noteq> TaskActive \<and> 0 \<le> tasks_remaining - 1
     then schedule_loop (tasks_remaining - 1) (fst r)
     else Some r
   }"

text \<open>
  \<open>schedule\<close> from the task \<open>from_task\<close>: the rotated queue and, when another task was
  chosen, the task to switch to.
\<close>

definition schedule :: "u32 \<Rightarrow> task_queue \<Rightarrow> (task_queue \<times> u32 option) option" where
  "schedule from_task q = do {
     (q1, to_task) \<leftarrow> schedule_loop (num_tasks q) q;
     Some (q1, if to_task \<noteq> None \<and> to_task \<noteq> Some from_task then to_task else None)
   }"

section \<open>The queue as a list\<close>

definition tnx :: "task_queue \<Rightarrow> u32 \<Rightarrow> u32 option" where
  "tnx q t = t_next (tasks q t)"

definition tpv :: "task_queue \<Rightarrow> u32 \<Rightarrow> u32 option" where
  "tpv q t = t_prev (tasks q t)"

definition tst :: "task_queue \<Rightarrow> u32 \<Rightarrow> task_status" where
  "tst q t = t_status (tasks q t)"

definition tproc :: "task_queue \<Rightarrow> u32 \<Rightarrow> nat" where
  "tproc q t = t_process (tasks q t)"

lemmas task_fields = tnx_def tpv_def tst_def tproc_def

definition queued :: "task_queue \<Rightarrow> u32 list \<Rightarrow> bool" where
  "queued q ts \<longleftrightarrow> dseg (tnx q) (tpv q) None ts None \<and> distinct ts \<and>
     q_head q = first_of ts None \<and> q_tail q = last_of None ts \<and>
     num_tasks q = of_nat (length ts) \<and> length ts < 2 ^ 32 - 1"

text \<open>Status and process of every task are as they were.\<close>

definition same_tasks :: "task_queue \<Rightarrow> task_queue \<Rightarrow> bool" where
  "same_tasks q q' \<longleftrightarrow> tst q' = tst q \<and> tproc q' = tproc q"

lemma same_tasks_trans: "same_tasks q q1 \<Longrightarrow> same_tasks q1 q2 \<Longrightarrow> same_tasks q q2"
  by (simp add: same_tasks_def)

lemma init_queued: "queued (init_taskqueue q) []"
  by (simp add: queued_def init_taskqueue_def)

lemma push_head_fields:
  assumes "q_head q = first_of ts None" "t \<notin> set ts"
  shows "tnx (push_head_task t q) = (tnx q)(t := q_head q)"
    "tpv (push_head_task t q) = (link_next (q_head q) (Some t) (tpv q))(t := None)"
    "same_tasks q (push_head_task t q)"
    "q_head (push_head_task t q) = Some t" "q_tail (push_head_task t q) = (if q_head q = None then Some t else q_tail q)"
    "num_tasks (push_head_task t q) = num_tasks q + 1"
  using assms first_of_in [of ts None t] by (auto simp: push_head_task_def Let_def task_fields fun_eq_iff same_tasks_def split: option.split)

lemma queued_push_head:
  assumes Q: "queued q ts" and t: "t \<notin> set ts" and room: "length ts + 1 < 2 ^ 32 - 1"
  shows "queued (push_head_task t q) (t # ts)" "same_tasks q (push_head_task t q)"
proof -
  have h: "q_head q = first_of ts None" using Q by (simp add: queued_def)
  note f = push_head_fields [OF h t]
  show "same_tasks q (push_head_task t q)" by (rule f)
  have "dseg (tnx (push_head_task t q)) (tpv (push_head_task t q)) None (t # ts) None"
    using Q t unfolding f(1,2) by (cases ts) (auto simp: queued_def)
  then show "queued (push_head_task t q) (t # ts)"
    using Q t room f by (cases ts) (auto simp: queued_def add.commute)
qed

lemma push_tail_fields:
  assumes "q_tail q = last_of None ts" "t \<notin> set ts"
  shows "tpv (push_tail_task t q) = (tpv q)(t := q_tail q)"
    "tnx (push_tail_task t q) = (link_next (q_tail q) (Some t) (tnx q))(t := None)"
    "same_tasks q (push_tail_task t q)"
    "q_tail (push_tail_task t q) = Some t" "q_head (push_tail_task t q) = (if q_tail q = None then Some t else q_head q)"
    "num_tasks (push_tail_task t q) = num_tasks q + 1"
  using assms last_of_in [of None ts t]
  by (auto simp: push_tail_task_def Let_def task_fields fun_eq_iff same_tasks_def split: option.split)

lemma queued_push_tail:
  assumes Q: "queued q ts" and t: "t \<notin> set ts" and room: "length ts + 1 < 2 ^ 32 - 1"
  shows "queued (push_tail_task t q) (ts @ [t])" "same_tasks q (push_tail_task t q)"
proof -
  have l: "q_tail q = last_of None ts" using Q by (simp add: queued_def)
  note f = push_tail_fields [OF l t]
  show "same_tasks q (push_tail_task t q)" by (rule f)
  have "dseg (tnx (push_tail_task t q)) (tpv (push_tail_task t q)) None (ts @ [t]) None"
    using Q t unfolding f(1,2) by (cases ts rule: rev_cases) (auto simp: queued_def)
  then show "queued (push_tail_task t q) (ts @ [t])"
    using Q t room f by (cases ts rule: rev_cases) (auto simp: queued_def add.commute)
qed

text \<open>
  Removing a task. \<open>unlink_fields\<close> is the combined effect of the four \<open>if\<close>s.
\<close>

lemma unlink_fields:
  assumes Q: "queued q (xs @ t # ys)" and two: "xs @ ys \<noteq> []"
  obtains q' where "unlink_task t q = Some q'"
    "tnx q' = link_next (last_of None xs) (first_of ys None) (tnx q)"
    "tpv q' = link_next (first_of ys None) (last_of None xs) (tpv q)"
    "same_tasks q q'" "q_head q' = first_of (xs @ ys) None" "q_tail q' = last_of None (xs @ ys)"
    "num_tasks q' = num_tasks q"
proof -
  have d: "dseg (tnx q) (tpv q) None (xs @ t # ys) None" and dist: "distinct (xs @ t # ys)"
    and h: "q_head q = first_of (xs @ t # ys) None" and l: "q_tail q = last_of None (xs @ t # ys)"
    using Q by (auto simp: queued_def)
  have links: "t_prev (tasks q t) = last_of None xs" "t_next (tasks q t) = first_of ys None"
    using d by (auto simp: task_fields)
  consider (first) y zs where "xs = []" "ys = y # zs" | (last) zs x where "xs = zs @ [x]" "ys = []"
    | (middle) zs x y ws where "xs = zs @ [x]" "ys = y # ws"
    using two by (cases xs rule: rev_cases; cases ys) auto
  then show ?thesis
  proof cases
    case first
    then have "q_tail q \<noteq> Some t" "y \<noteq> t" using l dist last_of_in [of "Some y" zs t] by auto
    then show ?thesis using first links h l
      by (intro that [of "the (unlink_task t q)"])
         (auto simp: unlink_task_def Let_def task_fields fun_eq_iff same_tasks_def)
  next
    case last
    then have "q_head q \<noteq> Some t" using h dist by (cases zs) auto
    then show ?thesis using last links h l dist
      by (intro that [of "the (unlink_task t q)"])
         (auto simp: unlink_task_def Let_def task_fields fun_eq_iff same_tasks_def)
  next
    case middle
    then have "q_head q \<noteq> Some t" using h dist by (cases zs) auto
    moreover have "q_tail q \<noteq> Some t" using l dist middle last_of_in [of "Some y" ws t] by auto
    ultimately show ?thesis using middle links h l dist
      by (intro that [of "the (unlink_task t q)"])
         (auto simp: unlink_task_def Let_def task_fields fun_eq_iff same_tasks_def)
  qed
qed

lemma unlinked_dseg:
  assumes "dseg nx pv None (xs @ t # ys) None" "distinct (xs @ t # ys)"
  shows "dseg (link_next (last_of None xs) (first_of ys None) nx) (link_next (first_of ys None) (last_of None xs) pv)
    None (xs @ ys) None"
proof (cases "xs = []")
  case True
  with assms show ?thesis using dseg_relink_prev [of nx pv "Some t" ys None None] by simp
next
  case False
  have "pv t = last_of None xs" "nx t = first_of ys None" using assms(1) by simp_all
  with dseg_unlink [OF assms False] show ?thesis by simp
qed

lemma queued_remove:
  assumes Q: "queued q (xs @ t # ys)"
  obtains q' where "remove_task (Some t) q = Some (q', Some t)" "queued q' (xs @ ys)" "same_tasks q q'"
proof (cases "xs @ ys = []")
  case True
  then have "num_tasks q = 1" "q_head q = Some t" using Q by (auto simp: queued_def)
  then show ?thesis using True
    by (intro that [of "fst (the (remove_task (Some t) q))"])
       (auto simp: remove_task_def queued_def same_tasks_def task_fields fun_eq_iff)
next
  case False
  have len: "length (xs @ t # ys) < 2 ^ 32 - 1" "num_tasks q = of_nat (length (xs @ t # ys))" "distinct (xs @ t # ys)"
    "dseg (tnx q) (tpv q) None (xs @ t # ys) None" using Q by (auto simp: queued_def)
  have two: "2 \<le> length (xs @ t # ys)" using False by (cases xs; cases ys) auto
  then have big: "\<not> num_tasks q \<le> 1"
    using len(1,2) unat_of_nat_u32 [of "length (xs @ t # ys)"] False unfolding word_le_nat_alt len(2) by simp
  obtain q1 where q1: "unlink_task t q = Some q1"
    "tnx q1 = link_next (last_of None xs) (first_of ys None) (tnx q)"
    "tpv q1 = link_next (first_of ys None) (last_of None xs) (tpv q)"
    "same_tasks q q1" "q_head q1 = first_of (xs @ ys) None" "q_tail q1 = last_of None (xs @ ys)"
    "num_tasks q1 = num_tasks q" using Q False by (rule unlink_fields)
  let ?q = "(upd_task t (\<lambda>r. r\<lparr>t_next := None, t_prev := None\<rparr>) q1)\<lparr>num_tasks := num_tasks q1 - 1\<rparr>"
  have f: "tnx ?q = (tnx q1)(t := None)" "tpv ?q = (tpv q1)(t := None)" "same_tasks q1 ?q"
    by (auto simp: task_fields fun_eq_iff same_tasks_def)
  have "dseg (tnx q1) (tpv q1) None (xs @ ys) None"
    using unlinked_dseg [OF len(4,3)] q1(2,3) by simp
  then have "dseg (tnx ?q) (tpv ?q) None (xs @ ys) None"
    using len(3) unfolding f(1,2) by simp
  then have "queued ?q (xs @ ys)" using len q1(5-7) by (auto simp: queued_def)
  moreover have "remove_task (Some t) q = Some (?q, Some t)" using big q1(1) by (simp add: remove_task_def)
  ultimately show ?thesis using that same_tasks_trans [OF q1(4) f(3)] by blast
qed

lemma queued_pop_head:
  assumes "queued q (t # ts)"
  obtains q' where "pop_head_task q = Some (q', Some t)" "queued q' ts" "same_tasks q q'"
proof -
  have "queued q ([] @ t # ts)" "q_head q = Some t" using assms by (auto simp: queued_def)
  then show ?thesis using that queued_remove [of q "[]" t ts] by (auto simp: pop_head_task_def)
qed

lemma queued_pop_tail:
  assumes "queued q (ts @ [t])"
  obtains q' where "pop_tail_task q = Some (q', Some t)" "queued q' ts" "same_tasks q q'"
proof -
  have "q_tail q = Some t" using assms by (auto simp: queued_def)
  then show ?thesis using that queued_remove [OF assms] by (auto simp: pop_tail_task_def)
qed

lemma queued_next:
  assumes Q: "queued q (t # ts)"
  obtains q' where "next_task q = Some (q', Some t)" "queued q' (ts @ [t])" "same_tasks q q'"
proof -
  obtain q1 where q1: "pop_head_task q = Some (q1, Some t)" "queued q1 ts" "same_tasks q q1"
    using Q by (rule queued_pop_head)
  have t: "t \<notin> set ts" "length ts + 1 < 2 ^ 32 - 1" "q_head q = Some t" using Q by (auto simp: queued_def)
  then have "queued (push_tail_task t q1) (ts @ [t])" "same_tasks q1 (push_tail_task t q1)"
    using queued_push_tail [OF q1(2)] by auto
  moreover have "next_task q = Some (push_tail_task t q1, Some t)" using q1(1) t by (simp add: next_task_def)
  ultimately show ?thesis using that same_tasks_trans [OF q1(3)] by blast
qed

section \<open>Rotation\<close>

text \<open>
  The interface of a rotating queue: \<open>holds q ts\<close> gives its elements in order, \<open>rot\<close>
  takes the first one and puts it at the end, and keeps what \<open>attr\<close> says of the elements.
  A client sees the elements come round in turn.
\<close>

fun rotations :: "('q \<Rightarrow> ('q \<times> 'a option) option) \<Rightarrow> nat \<Rightarrow> 'q \<Rightarrow> ('q \<times> 'a list) option" where
  "rotations rot 0 q = Some (q, [])"
| "rotations rot (Suc n) q = do {
     (q1, t) \<leftarrow> rot q;
     (q2, ts) \<leftarrow> rotations rot n q1;
     Some (q2, case t of None \<Rightarrow> ts | Some x \<Rightarrow> x # ts)
   }"

locale rotating_queue =
  fixes holds :: "'q \<Rightarrow> 'a list \<Rightarrow> bool" and attr :: "'q \<Rightarrow> 'a \<Rightarrow> 'b"
    and rot :: "'q \<Rightarrow> ('q \<times> 'a option) option"
  assumes rot_nonempty: "holds q (t # ts) \<Longrightarrow> \<exists>q'. rot q = Some (q', Some t) \<and> holds q' (ts @ [t]) \<and> attr q' = attr q"
    and rot_empty: "holds q [] \<Longrightarrow> rot q = Some (q, None)"
begin

lemma rotations_prefix:
  "holds q (xs @ ys) \<Longrightarrow> \<exists>q'. rotations rot (length xs) q = Some (q', xs) \<and> holds q' (ys @ xs) \<and> attr q' = attr q"
proof (induction xs arbitrary: q ys)
  case (Cons x xs)
  then obtain q1 where q1: "rot q = Some (q1, Some x)" "holds q1 (xs @ ys @ [x])" "attr q1 = attr q"
    using rot_nonempty [of q x "xs @ ys"] by auto
  then show ?case using Cons.IH [of q1 "ys @ [x]"] by auto
qed auto

lemma full_turn: "holds q ts \<Longrightarrow> \<exists>q'. rotations rot (length ts) q = Some (q', ts) \<and> holds q' ts \<and> attr q' = attr q"
  using rotations_prefix [of q ts "[]"] by simp

end

interpretation runq: rotating_queue queued "\<lambda>q t. (tst q t, tproc q t)" next_task
proof
  fix q t ts
  assume "queued q (t # ts)"
  then obtain q' where "next_task q = Some (q', Some t)" "queued q' (ts @ [t])" "same_tasks q q'" by (rule queued_next)
  then show "\<exists>q'. next_task q = Some (q', Some t) \<and> queued q' (ts @ [t]) \<and>
      (\<lambda>t. (tst q' t, tproc q' t)) = (\<lambda>t. (tst q t, tproc q t))" by (auto simp: same_tasks_def)
qed (simp add: queued_def next_task_def)

section \<open>Choosing a task\<close>

lemma schedule_loop_finds:
  assumes "queued q (xs @ t # ys)" "\<forall>x \<in> set xs. tst q x \<noteq> TaskActive" "tst q t = TaskActive"
  shows "\<exists>q'. schedule_loop r q = Some (q', Some t) \<and> queued q' (ys @ xs @ [t]) \<and> same_tasks q q'"
  using assms
proof (induction xs arbitrary: q ys r)
  case Nil
  then obtain q1 where "next_task q = Some (q1, Some t)" "queued q1 (ys @ [t])" "same_tasks q q1"
    using queued_next [of q t ys] by auto
  then show ?case using Nil by (subst schedule_loop.simps) (simp add: same_tasks_def task_fields fun_eq_iff)
next
  case (Cons x xs)
  then have "queued q (x # (xs @ t # ys))" by simp
  then obtain q1 where q1: "next_task q = Some (q1, Some x)" "queued q1 ((xs @ t # ys) @ [x])" "same_tasks q q1"
    by (rule queued_next)
  then have st: "tst q1 = tst q" by (simp add: same_tasks_def)
  have "\<exists>q'. schedule_loop (r - 1) q1 = Some (q', Some t) \<and> queued q' ((ys @ [x]) @ xs @ [t]) \<and> same_tasks q1 q'"
    using q1 Cons.prems st by (intro Cons.IH) auto
  moreover have "t_status (tasks q1 x) \<noteq> TaskActive" using Cons.prems(2) st by (simp add: task_fields fun_eq_iff)
  ultimately show ?case using q1 same_tasks_trans [OF q1(3)] by (subst schedule_loop.simps) auto
qed

lemma schedule_loop_diverges_aux:
  assumes "schedule_loop r q = Some y"
  shows "\<not> (\<exists>ts. queued q ts \<and> ts \<noteq> [] \<and> (\<forall>t \<in> set ts. tst q t \<noteq> TaskActive))"
proof (rule schedule_loop.raw_induct [OF _ assms])
  fix loop :: "u32 \<Rightarrow> task_queue \<Rightarrow> (task_queue \<times> u32 option) option" and r :: u32 and q y
  assume IH: "\<And>r q y. loop r q = Some y \<Longrightarrow>
      \<not> (\<exists>ts. queued q ts \<and> ts \<noteq> [] \<and> (\<forall>t \<in> set ts. tst q t \<noteq> TaskActive))"
    and body: "next_task q \<bind> (\<lambda>p. if snd p \<noteq> None \<and> t_status (tasks (fst p) (the (snd p))) \<noteq> TaskActive \<and> 0 \<le> r - 1
      then loop (r - 1) (fst p) else Some p) = Some y"
  show "\<not> (\<exists>ts. queued q ts \<and> ts \<noteq> [] \<and> (\<forall>t \<in> set ts. tst q t \<noteq> TaskActive))"
  proof
    assume "\<exists>ts. queued q ts \<and> ts \<noteq> [] \<and> (\<forall>t \<in> set ts. tst q t \<noteq> TaskActive)"
    then obtain t ts where q: "queued q (t # ts)" "\<forall>x \<in> set (t # ts). tst q x \<noteq> TaskActive"
      by (metis neq_Nil_conv)
    obtain q1 where q1: "next_task q = Some (q1, Some t)" "queued q1 (ts @ [t])" "same_tasks q q1"
      using q(1) by (rule queued_next)
    then have "t_status (tasks q1 t) \<noteq> TaskActive" using q(2) by (simp add: same_tasks_def task_fields fun_eq_iff)
    then have "loop (r - 1) q1 = Some y" using body q1(1) by simp
    from IH [OF this] have "\<not> (\<exists>ts. queued q1 ts \<and> ts \<noteq> [] \<and> (\<forall>t \<in> set ts. tst q1 t \<noteq> TaskActive))" .
    then have "ts @ [t] = [] \<or> (\<exists>x \<in> set (ts @ [t]). tst q1 x = TaskActive)" using q1(2) by blast
    then show False using q1(3) q(2) by (auto simp: same_tasks_def)
  qed
qed

section \<open>Properties\<close>

text \<open>Two tasks at the addresses 16 and 32, the second one idle, for the witnesses.\<close>

definition two_tasks :: task_queue where
  "two_tasks = \<lparr>tasks = (\<lambda>t. if t = 16
       then \<lparr>t_process = 1, t_status = TaskActive, t_next = Some 32, t_prev = None\<rparr>
       else \<lparr>t_process = 2, t_status = TaskIdle, t_next = None, t_prev = Some 16\<rparr>),
     q_head = Some 16, q_tail = Some 32, num_tasks = 2\<rparr>"

lemma two_tasks_queued: "queued two_tasks [16, 32]"
  by (simp add: queued_def two_tasks_def task_fields)

text \<open>
  C18. \<open>remove_task\<close> of a task of the queue, wherever it stands, unlinks just that task,
  keeps the order of the others and a well-formed queue, and clears no other field of any task.
\<close>

theorem remove_task_correct:
  assumes "queued q (xs @ t # ys)"
  shows "\<exists>q'. remove_task (Some t) q = Some (q', Some t) \<and> queued q' (xs @ ys) \<and> same_tasks q q'"
  using assms by (rule queued_remove) blast

theorem remove_task_correct_witness:
  "\<exists>q'. remove_task (Some 32) two_tasks = Some (q', Some 32) \<and> queued q' [16]"
  using remove_task_correct [of two_tasks "[16]" 32 "[]"] two_tasks_queued by auto

text \<open>
  C19. Calling \<open>next_task\<close> once for every task of the queue returns each task exactly once,
  in queue order, and leaves the queue in the order it was: round robin.
\<close>

theorem next_task_round_robin:
  assumes "queued q ts"
  shows "\<exists>q'. rotations next_task (length ts) q = Some (q', ts) \<and> queued q' ts \<and> same_tasks q q'"
  using runq.full_turn [OF assms] by (auto simp: same_tasks_def fun_eq_iff)

theorem next_task_round_robin_witness:
  "\<exists>q'. rotations next_task 2 two_tasks = Some (q', [16, 32]) \<and> queued q' [16, 32]"
  using next_task_round_robin [OF two_tasks_queued] by (auto simp: numeral_2_eq_2)

text \<open>
  When the run queue has an active task, \<open>schedule\<close> returns; it chooses the first
  active task in queue order, rotates the queue just past it, and asks for a switch exactly when
  that task is not the running one.
\<close>

theorem schedule_picks_first_active:
  assumes "queued q (xs @ t # ys)" "\<forall>x \<in> set xs. t_status (tasks q x) \<noteq> TaskActive" "t_status (tasks q t) = TaskActive"
  shows "\<exists>q'. schedule from_task q = Some (q', if t = from_task then None else Some t) \<and>
    queued q' (ys @ xs @ [t]) \<and> same_tasks q q'"
proof -
  have "\<exists>q'. schedule_loop (num_tasks q) q = Some (q', Some t) \<and> queued q' (ys @ xs @ [t]) \<and> same_tasks q q'"
    using assms by (intro schedule_loop_finds) (auto simp: task_fields)
  then show ?thesis by (auto simp: schedule_def)
qed

theorem schedule_picks_first_active_witness:
  "\<exists>q'. schedule 32 two_tasks = Some (q', Some 16) \<and> queued q' [32, 16]"
proof -
  have "t_status (tasks two_tasks 16) = TaskActive" by (simp add: two_tasks_def)
  then show ?thesis using schedule_picks_first_active [of two_tasks "[]" 16 "[32]" 32] two_tasks_queued by auto
qed

text \<open>
  C36. When every task of a non-empty run queue is idle, \<open>schedule\<close> never returns: the
  counter that is meant to stop the search is unsigned and is compared with \<open>>= 0\<close>.
\<close>

theorem schedule_all_idle_hangs:
  assumes "queued q ts" "ts \<noteq> []" "\<forall>t \<in> set ts. t_status (tasks q t) \<noteq> TaskActive"
  shows "schedule from_task q = None"
proof (cases "schedule_loop (num_tasks q) q")
  case (Some y)
  from schedule_loop_diverges_aux [OF this] assms show ?thesis by (auto simp: task_fields)
qed (simp add: schedule_def)

theorem schedule_all_idle_hangs_witness: "schedule 16 (idle_task 16 two_tasks) = None"
proof -
  have "queued (idle_task 16 two_tasks) [16, 32]"
    by (simp add: queued_def two_tasks_def task_fields idle_task_def)
  moreover have "\<forall>t \<in> set [16, 32]. t_status (tasks (idle_task 16 two_tasks) t) \<noteq> TaskActive"
    by (simp add: idle_task_def two_tasks_def)
  ultimately show ?thesis using schedule_all_idle_hangs [of _ "[16, 32]"] by blast
qed

end
