(* ===== verification/Paging.thy ===== *)
theory Paging
  imports Kmem
begin

text \<open>
  The page tables of \<^verbatim>\<open>paging.c\<close>: one page directory and three page tables for each
  process, held in the static array \<open>page_tables\<close>. A directory or table entry is the
  32-bit word the unions of \<^verbatim>\<open>x86_desc.h\<close> describe. Where the linker puts the array is
  \<open>pt_base\<close>. \<open>walk\<close> is the address translation of the i386, which says what the
  tables mean.
\<close>

section \<open>State\<close>

datatype privilege = KernelPrivilege | UserPrivilege

record paging =
  pd :: "nat \<Rightarrow> nat \<Rightarrow> u32"
  pt :: "nat \<Rightarrow> nat \<Rightarrow> nat \<Rightarrow> u32"
  pt_base :: u32
  page_pid :: nat
  cr0 :: u32
  cr3 :: u32
  cr4 :: u32

definition MAX_PROCESSES :: nat where
  "MAX_PROCESSES = 100"

text \<open>An entry assigned by \<open>e.addr = address; e.flags = flags\<close>.\<close>

definition entry :: "u32 \<Rightarrow> u32 \<Rightarrow> u32" where
  "entry address flags = (address AND NOT (mask 12)) OR (flags AND mask 12)"

definition pd_addr :: "paging \<Rightarrow> nat \<Rightarrow> u32" where
  "pd_addr s pid = pt_base s + of_nat pid * 0x4000"

definition pt_addr :: "paging \<Rightarrow> nat \<Rightarrow> nat \<Rightarrow> u32" where
  "pt_addr s pid ptid = pt_base s + of_nat pid * 0x4000 + 0x1000 + of_nat ptid * 0x1000"

section \<open>Operations\<close>

definition set_pde :: "nat \<Rightarrow> u32 \<Rightarrow> u32 \<Rightarrow> nat \<Rightarrow> paging \<Rightarrow> paging" where
  "set_pde index address flags pid s =
     s\<lparr>pd := (pd s)(pid := (pd s pid)(index := entry address flags))\<rparr>"

definition set_pte :: "nat \<Rightarrow> u32 \<Rightarrow> u32 \<Rightarrow> nat \<Rightarrow> nat \<Rightarrow> paging \<Rightarrow> paging" where
  "set_pte index address flags pid pt_index s =
     s\<lparr>pt := (pt s)(pid := (pt s pid)(pt_index := (pt s pid pt_index)(index := entry address flags)))\<rparr>"

definition load_pages :: "nat \<Rightarrow> paging \<Rightarrow> paging" where
  "load_pages pid s = s\<lparr>page_pid := pid, cr3 := pd_addr s pid + 0x18\<rparr>"

definition map_4mb_page :: "u32 \<Rightarrow> u32 \<Rightarrow> nat \<Rightarrow> privilege \<Rightarrow> paging \<Rightarrow> paging" where
  "map_4mb_page p_addr v_addr pid privilege s =
     (let index = unat (v_addr div 0x400000) in
      if privilege = KernelPrivilege then set_pde index p_addr 0x09B pid s
      else set_pde index p_addr 0x09F pid s)"

definition map_4kb_page :: "u32 \<Rightarrow> u32 \<Rightarrow> nat \<Rightarrow> privilege \<Rightarrow> nat \<Rightarrow> paging \<Rightarrow> paging" where
  "map_4kb_page p_addr v_addr pid privilege ptid s =
     (let pd_index = unat (v_addr div 0x400000);
          pt_index = unat ((v_addr mod 0x400000) div 0x1000);
          s1 = set_pde pd_index (pt_addr s pid ptid) 0x1F pid s
      in set_pte pt_index p_addr 0x1F pid ptid s1)"

definition clear_page_table :: "nat \<Rightarrow> nat \<Rightarrow> paging \<Rightarrow> paging" where
  "clear_page_table pid ptid s =
     fold (\<lambda>i s.
        let s1 = (if pd s pid i AND NOT (mask 12) = pt_addr s pid ptid
                  then s\<lparr>pd := (pd s)(pid := (pd s pid)(i := 0))\<rparr> else s)
        in s1\<lparr>pt := (pt s1)(pid := (pt s1 pid)(ptid := (pt s1 pid ptid)(i := 0)))\<rparr>) [0..<1024] s"

definition remap_4kb_page :: "u32 \<Rightarrow> u32 \<Rightarrow> nat \<Rightarrow> privilege \<Rightarrow> nat \<Rightarrow> paging \<Rightarrow> paging" where
  "remap_4kb_page new_p_addr new_v_addr pid new_privilege ptid s =
     map_4kb_page new_p_addr new_v_addr pid new_privilege ptid (clear_page_table pid ptid s)"

definition copy_4kb_page :: "u32 \<Rightarrow> u32 \<Rightarrow> memory \<Rightarrow> memory" where
  "copy_4kb_page dest src m = memcpy m dest src 0x1000"

definition enable_paging :: "paging \<Rightarrow> paging" where
  "enable_paging s = s\<lparr>cr0 := cr0 s OR 0x80000000\<rparr>"

text \<open>
  \<open>init_paging\<close>: its two loops over the processes. The fourth and fifth arguments of the
  4KB mapping are \<open>0, KernelPrivilege\<close>, which as numbers are a privilege 0 and a table 0.
\<close>

definition total_pages :: nat where
  "total_pages = (let n = unat STORAGE_BYTES div MB 4
                  in if unat STORAGE_BYTES mod MB 4 \<noteq> 0 then n + 1 else n)"

definition MBw :: "nat \<Rightarrow> u32" where
  "MBw n = of_nat n * 0x100000"

definition init_common :: "nat \<Rightarrow> paging \<Rightarrow> paging" where
  "init_common i s =
     (let s1 = fold (\<lambda>j. map_4kb_page (of_nat j * 0x1000) (of_nat j * 0x1000) i KernelPrivilege 0) [1..<1024] s;
          s2 = map_4mb_page (MBw 4) (MBw 4) i KernelPrivilege s1
      in fold (\<lambda>k. map_4mb_page (MBw (192 + k * 4)) (MBw (192 + k * 4)) i KernelPrivilege) [0..<total_pages] s2)"

definition init_process :: "nat \<Rightarrow> paging \<Rightarrow> paging" where
  "init_process i s =
     (let s1 = map_4mb_page (MBw (4 + 4 * i)) (MBw (4 + 4 * i)) 0 KernelPrivilege s;
          s2 = map_4mb_page (MBw (4 + 4 * i)) (MBw (4 + 4 * i)) i KernelPrivilege s1
      in map_4mb_page (MBw (4 + 4 * i)) (MBw 128) i UserPrivilege s2)"

definition init_paging :: "paging \<Rightarrow> paging" where
  "init_paging s =
     (let s0 = s\<lparr>cr0 := cr0 s OR 0x1000, cr4 := cr4 s OR 0x90\<rparr>;
          s1 = fold init_common [0..<MAX_PROCESSES] s0;
          s2 = fold init_process [1..<MAX_PROCESSES] s1
      in load_pages 0 s2)"

section \<open>Address translation\<close>

text \<open>
  \<open>walk s pid v\<close>: the physical address of \<open>v\<close> under the directory of \<open>pid\<close> and
  whether user code may use it; \<open>None\<close> is a page fault.
\<close>

definition table_at :: "paging \<Rightarrow> nat \<Rightarrow> u32 \<Rightarrow> nat option" where
  "table_at s pid a = List.find (\<lambda>ptid. pt_addr s pid ptid = a) [0, 1, 2]"

definition walk :: "paging \<Rightarrow> nat \<Rightarrow> u32 \<Rightarrow> (u32 \<times> bool) option" where
  "walk s pid v =
     (let pde = pd s pid (unat (v div 0x400000)) in
      if \<not> bit pde 0 then None
      else if bit pde 7 then Some ((pde AND NOT (mask 22)) OR (v AND mask 22), bit pde 2)
      else case table_at s pid (pde AND NOT (mask 12)) of
          None \<Rightarrow> None
        | Some ptid \<Rightarrow>
            let pte = pt s pid ptid (unat ((v mod 0x400000) div 0x1000)) in
            if \<not> bit pte 0 then None
            else Some ((pte AND NOT (mask 12)) OR (v AND mask 12), bit pde 2 \<and> bit pte 2))"

lemma bit_entry: "bit (entry a f) n \<longleftrightarrow> (if n < 12 then bit f n else bit a n)"
  using bit_imp_le_length [of a n] by (auto simp: entry_def bit_simps)

lemma entry_page: "entry a f AND NOT (mask 12) = a AND NOT (mask 12)"
  by (rule bit_word_eqI) (auto simp: bit_entry bit_simps)

lemma entry_big_page: "entry a f AND NOT (mask 22) = a AND NOT (mask 22)"
  by (rule bit_word_eqI) (auto simp: bit_entry bit_simps)

lemma flag_bits [simp]:
  "bit (0x9B :: u32) 0" "bit (0x9B :: u32) 7" "\<not> bit (0x9B :: u32) 2"
  "bit (0x9F :: u32) 0" "bit (0x9F :: u32) 7" "bit (0x9F :: u32) 2"
  "bit (0x1F :: u32) 0" "\<not> bit (0x1F :: u32) 7" "bit (0x1F :: u32) 2"
  by simp_all

lemma set_simps [simp]:
  "pd (set_pde i a fl p s) = (pd s)(p := (pd s p)(i := entry a fl))"
  "pt (set_pde i a fl p s) = pt s" "pt_base (set_pde i a fl p s) = pt_base s"
  "pt (set_pte i a fl p k s) = (pt s)(p := (pt s p)(k := (pt s p k)(i := entry a fl)))"
  "pd (set_pte i a fl p k s) = pd s" "pt_base (set_pte i a fl p k s) = pt_base s"
  by (simp_all add: set_pde_def set_pte_def)

definition flags_of :: "privilege \<Rightarrow> u32" where
  "flags_of p = (if p = KernelPrivilege then 0x9B else 0x9F)"

lemma map_4mb_simps [simp]:
  "pd (map_4mb_page p v i pr s) = (pd s)(i := (pd s i)(unat (v div 0x400000) := entry p (flags_of pr)))"
  "pt (map_4mb_page p v i pr s) = pt s" "pt_base (map_4mb_page p v i pr s) = pt_base s"
  by (simp_all add: map_4mb_page_def flags_of_def Let_def)

lemma map_4kb_simps [simp]:
  "pd (map_4kb_page p v i pr k s) = (pd s)(i := (pd s i)(unat (v div 0x400000) := entry (pt_addr s i k) 0x1F))"
  "pt (map_4kb_page p v i pr k s) =
     (pt s)(i := (pt s i)(k := (pt s i k)(unat ((v mod 0x400000) div 0x1000) := entry p 0x1F)))"
  "pt_base (map_4kb_page p v i pr k s) = pt_base s"
  by (simp_all add: map_4kb_page_def Let_def)

lemma pt_addr_simps [simp]:
  "pt_addr (map_4mb_page p v i pr s) j l = pt_addr s j l" "pt_addr (map_4kb_page p v i pr k s) j l = pt_addr s j l"
  by (simp_all add: pt_addr_def)

lemma walk_cong:
  assumes "pd s' pid (unat (v div 0x400000)) = pd s pid (unat (v div 0x400000))" "pt s' pid = pt s pid" "pt_base s' = pt_base s"
  shows "walk s' pid v = walk s pid v"
proof -
  have t: "table_at s' pid = table_at s pid" using assms(3) by (simp add: table_at_def pt_addr_def fun_eq_iff)
  show ?thesis unfolding walk_def assms(1,2) t ..
qed

lemma walk_big:
  assumes "pd s pid (unat (v div 0x400000)) = entry p (flags_of pr)"
  shows "walk s pid v = Some ((p AND NOT (mask 22)) OR (v AND mask 22), pr = UserPrivilege)"
  using assms by (cases pr) (simp_all add: walk_def bit_entry entry_big_page flags_of_def)

section \<open>What \<open>init_paging\<close> sets up\<close>

lemma unat_MBw: "n < 4096 \<Longrightarrow> unat (MBw n) = MB n"
  by (simp add: MBw_def unat_word_ariths unat_of_nat_u32)

lemma MBw_index: "i < 1023 \<Longrightarrow> unat (MBw (4 + 4 * i) div 0x400000) = Suc i"
  by (simp add: unat_div unat_MBw)

lemma unat_page: "j < 1024 \<Longrightarrow> unat (of_nat j * 0x1000 :: u32) = j * 4096"
  by (simp add: unat_word_ariths unat_of_nat_u32)

lemma page_index:
  assumes "j < 1024"
  shows "unat ((of_nat j * 0x1000 :: u32) div 0x400000) = 0"
    "unat (((of_nat j * 0x1000 :: u32) mod 0x400000) div 0x1000) = j"
  using assms unat_page [OF assms] by (simp_all add: unat_div unat_mod)

definition low_pages :: "nat \<Rightarrow> nat \<Rightarrow> paging \<Rightarrow> paging" where
  "low_pages i n s = fold (\<lambda>j. map_4kb_page (of_nat j * 0x1000) (of_nat j * 0x1000) i KernelPrivilege 0) [1..<Suc n] s"

lemma low_pages_simps:
  "low_pages i 0 s = s"
  "low_pages i (Suc n) s =
     map_4kb_page (of_nat (Suc n) * 0x1000) (of_nat (Suc n) * 0x1000) i KernelPrivilege 0 (low_pages i n s)"
  by (simp_all add: low_pages_def)

lemma low_pages_base: "pt_base (low_pages i n s) = pt_base s"
  by (induction n) (simp_all add: low_pages_simps)

lemma low_pages_pd:
  "0 < n \<Longrightarrow> n \<le> 1023 \<Longrightarrow> pd (low_pages i n s) = (pd s)(i := (pd s i)(0 := entry (pt_addr s i 0) 0x1F))"
proof (induction n)
  case (Suc n)
  have "pt_addr (low_pages i n s) i 0 = pt_addr s i 0" by (simp add: pt_addr_def low_pages_base)
  then show ?case using Suc page_index [of "Suc n"] by (cases "n = 0") (auto simp: low_pages_simps fun_eq_iff simp del: of_nat_Suc)
qed simp

lemma low_pages_pt:
  "n \<le> 1023 \<Longrightarrow> pt (low_pages i n s) = (pt s)(i := (pt s i)
     (0 := (\<lambda>j. if 1 \<le> j \<and> j \<le> n then entry (of_nat j * 0x1000) 0x1F else pt s i 0 j)))"
proof (induction n)
  case (Suc n)
  then show ?case using page_index [of "Suc n"]
    by (auto simp: low_pages_simps fun_eq_iff le_Suc_eq simp del: of_nat_Suc)
qed (auto simp: low_pages_simps fun_eq_iff)

lemma total_pages_6: "total_pages = 6"
  by (simp add: total_pages_def STORAGE_BYTES_def)

definition common_entry :: "u32 \<Rightarrow> (nat \<Rightarrow> u32) \<Rightarrow> nat \<Rightarrow> u32" where
  "common_entry table g idx =
     (if idx = 0 then entry table 0x1F else if idx = 1 \<or> 48 \<le> idx \<and> idx < 54 then entry (MBw (4 * idx)) 0x9B
      else g idx)"

lemma init_common_effect:
  "pd (init_common i s) = (pd s)(i := common_entry (pt_addr s i 0) (pd s i))"
  "pt (init_common i s) = (pt s)(i := (pt s i)(0 := (\<lambda>j. if 1 \<le> j \<and> j \<le> 1023 then entry (of_nat j * 0x1000) 0x1F else pt s i 0 j)))"
  "pt_base (init_common i s) = pt_base s"
proof -
  have u: "fold (\<lambda>j. map_4kb_page (of_nat j * 0x1000) (of_nat j * 0x1000) i KernelPrivilege 0) [1..<1024] s = low_pages i 1023 s"
    by (simp add: low_pages_def)
  have u6: "[0..<6] = [0, 1, 2, 3, 4, 5 :: nat]" by (simp add: upt_rec)
  have x: "unat (MBw 4 div 0x400000) = 1" "unat (MBw 192 div 0x400000) = 48" "unat (MBw 196 div 0x400000) = 49"
    "unat (MBw 200 div 0x400000) = 50" "unat (MBw 204 div 0x400000) = 51" "unat (MBw 208 div 0x400000) = 52"
    "unat (MBw 212 div 0x400000) = 53" by (simp_all add: unat_div unat_MBw)
  have six: "48 \<le> idx \<and> idx < 54 \<longleftrightarrow> idx \<in> {48, 49, 50, 51, 52, 53 :: nat}" for idx by auto
  note f = low_pages_pd [of 1023 i s, simplified] low_pages_pt [of 1023 i s, simplified] low_pages_base
  show "pd (init_common i s) = (pd s)(i := common_entry (pt_addr s i 0) (pd s i))"
    unfolding init_common_def u total_pages_6 u6 Let_def
    by (rule ext) (auto simp: f x common_entry_def six flags_of_def fun_eq_iff)
  show "pt (init_common i s) = (pt s)(i := (pt s i)(0 := (\<lambda>j. if 1 \<le> j \<and> j \<le> 1023 then entry (of_nat j * 0x1000) 0x1F else pt s i 0 j)))"
    "pt_base (init_common i s) = pt_base s"
    unfolding init_common_def u total_pages_6 u6 Let_def by (simp_all add: f)
qed

lemma fold_common:
  fixes s :: paging
  defines "t \<equiv> \<lambda>n. fold init_common [0..<n] s"
  shows "pd (t n) = (\<lambda>i. if i < n then common_entry (pt_addr s i 0) (pd s i) else pd s i)"
    "pt (t n) = (\<lambda>i. if i < n then (pt s i)(0 := (\<lambda>j. if 1 \<le> j \<and> j \<le> 1023 then entry (of_nat j * 0x1000) 0x1F else pt s i 0 j)) else pt s i)"
    "pt_base (t n) = pt_base s"
proof -
  have b: "pt_base (t n) = pt_base s" for n
    unfolding t_def by (induction n) (simp_all add: init_common_effect(3))
  then show "pt_base (t n) = pt_base s" .
  have a: "pt_addr (fold init_common [0..<n] s) i k = pt_addr s i k" for n i k
    using b by (simp add: pt_addr_def t_def)
  show "pd (t n) = (\<lambda>i. if i < n then common_entry (pt_addr s i 0) (pd s i) else pd s i)"
    unfolding t_def
  proof (induction n)
    case (Suc n)
    show ?case by (rule ext) (auto simp: init_common_effect(1) a Suc less_Suc_eq)
  qed simp
  show "pt (t n) = (\<lambda>i. if i < n then (pt s i)(0 := (\<lambda>j. if 1 \<le> j \<and> j \<le> 1023 then entry (of_nat j * 0x1000) 0x1F else pt s i 0 j)) else pt s i)"
    unfolding t_def
  proof (induction n)
    case (Suc n)
    show ?case by (rule ext) (auto simp: init_common_effect(2) Suc less_Suc_eq fun_eq_iff cong: if_cong)
  qed simp
qed

lemma init_process_effect:
  assumes "0 < i" "i < 100"
  shows "pd (init_process i s) = (pd s)
      (0 := (pd s 0)(Suc i := entry (MBw (4 + 4 * i)) 0x9B),
       i := (pd s i)(Suc i := entry (MBw (4 + 4 * i)) 0x9B, 32 := entry (MBw (4 + 4 * i)) 0x9F))"
    "pt (init_process i s) = pt s" "pt_base (init_process i s) = pt_base s"
proof -
  have x: "unat (MBw (4 + 4 * i) div 0x400000) = Suc i" "unat (MBw 128 div 0x400000) = 32"
    using assms MBw_index [of i] by (simp_all add: unat_div unat_MBw)
  show "pd (init_process i s) = (pd s)
      (0 := (pd s 0)(Suc i := entry (MBw (4 + 4 * i)) 0x9B),
       i := (pd s i)(Suc i := entry (MBw (4 + 4 * i)) 0x9B, 32 := entry (MBw (4 + 4 * i)) 0x9F))"
    using assms by (simp add: init_process_def Let_def x flags_of_def fun_eq_iff)
  show "pt (init_process i s) = pt s" "pt_base (init_process i s) = pt_base s"
    by (simp_all add: init_process_def Let_def)
qed

definition own_entry :: "nat \<Rightarrow> (nat \<Rightarrow> u32) \<Rightarrow> nat \<Rightarrow> u32" where
  "own_entry i g = g(Suc i := entry (MBw (4 + 4 * i)) 0x9B, 32 := entry (MBw (4 + 4 * i)) 0x9F)"

lemma fold_process:
  assumes "n \<le> 99"
  shows "0 < i \<Longrightarrow> pd (fold init_process [1..<Suc n] s) i = (if i \<le> n then own_entry i (pd s i) else pd s i)"
    "pt (fold init_process [1..<Suc n] s) = pt s" "pt_base (fold init_process [1..<Suc n] s) = pt_base s"
  using assms
proof (induction n arbitrary: i)
  case (Suc n)
  have e: "fold init_process [1..<Suc (Suc n)] s = init_process (Suc n) (fold init_process [1..<Suc n] s)" by simp
  note f = init_process_effect [of "Suc n" "fold init_process [1..<Suc n] s"]
  {
    case 1
    then show ?case unfolding e using f(1) Suc by (auto simp: own_entry_def le_Suc_eq)
  next
    case 2
    then show ?case unfolding e using f(2) Suc by simp
  next
    case 3
    then show ?case unfolding e using f(3) Suc by simp
  }
qed auto

lemma init_paging_tables:
  assumes "0 < i" "i < MAX_PROCESSES"
  shows "pd (init_paging s) i = own_entry i (common_entry (pt_addr s i 0) (pd s i))"
    "pt (init_paging s) i 0 = (\<lambda>j. if 1 \<le> j \<and> j \<le> 1023 then entry (of_nat j * 0x1000) 0x1F else pt s i 0 j)"
    "pt_base (init_paging s) = pt_base s"
proof -
  let ?s0 = "s\<lparr>cr0 := cr0 s OR 0x1000, cr4 := cr4 s OR 0x90\<rparr>"
  let ?s1 = "fold init_common [0..<MAX_PROCESSES] ?s0"
  have s2: "fold init_process [1..<MAX_PROCESSES] t = fold init_process [1..<Suc 99] t" for t
    by (simp add: MAX_PROCESSES_def)
  have p: "pd (init_paging s) = pd (fold init_process [1..<Suc 99] ?s1)"
    "pt (init_paging s) = pt (fold init_process [1..<Suc 99] ?s1)"
    "pt_base (init_paging s) = pt_base (fold init_process [1..<Suc 99] ?s1)"
    unfolding init_paging_def Let_def load_pages_def s2 by simp_all
  have a: "pt_addr ?s0 i 0 = pt_addr s i 0" by (simp add: pt_addr_def)
  show "pd (init_paging s) i = own_entry i (common_entry (pt_addr s i 0) (pd s i))"
    using assms fold_process(1) [of 99 i ?s1] fold_common(1) [of MAX_PROCESSES ?s0] unfolding p a by (simp add: MAX_PROCESSES_def a)
  show "pt (init_paging s) i 0 = (\<lambda>j. if 1 \<le> j \<and> j \<le> 1023 then entry (of_nat j * 0x1000) 0x1F else pt s i 0 j)"
    using assms fold_process(2) [of 99 ?s1] fold_common(2) [of MAX_PROCESSES ?s0] unfolding p by (simp cong: if_cong)
  show "pt_base (init_paging s) = pt_base s"
    using fold_process(3) [of 99 ?s1] fold_common(3) [of MAX_PROCESSES ?s0] unfolding p by simp
qed

section \<open>Properties\<close>

definition blank_tables :: paging where
  "blank_tables = \<lparr>pd = (\<lambda>_ _. 0), pt = (\<lambda>_ _ _. 0), pt_base = 0x500000, page_pid = 0, cr0 = 0, cr3 = 0, cr4 = 0\<rparr>"

lemma MBw_aligned: "MBw (4 * i) AND NOT (mask 22) = MBw (4 * i)"
proof (rule bit_word_eqI)
  fix n assume "n < LENGTH(32)"
  have e: "MBw (4 * i) = push_bit 22 (of_nat i)" by (simp add: MBw_def push_bit_eq_mult)
  show "bit (MBw (4 * i) AND NOT (mask 22)) n = bit (MBw (4 * i)) n"
    unfolding e by (auto simp: bit_simps)
qed

lemma MBw_page: "MBw (4 + 4 * i) AND NOT (mask 22) = MBw (4 + 4 * i)"
  using MBw_aligned [of "Suc i"] by simp

lemma page_split: "(p AND NOT (mask 22)) OR (v AND mask 22) = q \<Longrightarrow> q AND NOT (mask 22) = p AND NOT (mask 22)" for p :: u32
  by (rule bit_word_eqI) (auto simp: bit_simps)

lemma page_offset: "((p AND NOT (mask 22)) OR (v AND mask 22)) AND mask 22 = v AND mask 22" for p :: u32
  by (rule bit_word_eqI) (auto simp: bit_simps)

lemma walk_user_page:
  assumes "0 < i" "i < MAX_PROCESSES" "unat (v div 0x400000) = 32"
  shows "walk (init_paging s) i v = Some (MBw (4 + 4 * i) OR (v AND mask 22), True)"
proof -
  have "pd (init_paging s) i (unat (v div 0x400000)) = entry (MBw (4 + 4 * i)) (flags_of UserPrivilege)"
    using assms by (simp add: init_paging_tables own_entry_def flags_of_def)
  from walk_big [OF this] show ?thesis by (simp add: MBw_page)
qed

text \<open>
  \<open>map_4mb_page\<close> makes every address of the 4MB page of \<open>v_addr\<close> translate to the
  same offset in the page of \<open>p_addr\<close>, open to user code exactly when the privilege is
  \<open>UserPrivilege\<close>, and changes the translation of no address in another page and of no other
  process.
\<close>

theorem map_4mb_page_walk:
  "walk (map_4mb_page p_addr v_addr pid privilege s) pid' v =
     (if pid' = pid \<and> v div 0x400000 = v_addr div 0x400000
      then Some ((p_addr AND NOT (mask 22)) OR (v AND mask 22), privilege = UserPrivilege)
      else walk s pid' v)"
proof (cases "pid' = pid \<and> v div 0x400000 = v_addr div 0x400000")
  case True
  then show ?thesis by (simp add: walk_big [of _ _ _ p_addr privilege])
next
  case False
  then have "pid' = pid \<Longrightarrow> unat (v div 0x400000) \<noteq> unat (v_addr div 0x400000)" by (simp add: word_unat_eq_iff)
  then have "pd (map_4mb_page p_addr v_addr pid privilege s) pid' (unat (v div 0x400000)) = pd s pid' (unat (v div 0x400000))"
    by auto
  from walk_cong [OF this] show ?thesis using False by auto
qed

text \<open>
  C11. After \<open>init_paging\<close> every process sees its own 4MB of physical memory, at
  \<open>4 + 4 * pid\<close> MB, at the virtual address 128MB with user access, and two processes never
  share a byte of it.
\<close>

theorem init_paging_user_isolated:
  assumes "0 < i" "i < MAX_PROCESSES" "0 < j" "j < MAX_PROCESSES" "i \<noteq> j"
    and "unat (v div 0x400000) = 32" "unat (w div 0x400000) = 32"
  shows "\<exists>p q. walk (init_paging s) i v = Some (p, True) \<and> walk (init_paging s) j w = Some (q, True) \<and> p \<noteq> q \<and>
    p AND NOT (mask 22) = MBw (4 + 4 * i) \<and> p AND mask 22 = v AND mask 22"
proof -
  let ?p = "MBw (4 + 4 * i) OR (v AND mask 22)" and ?q = "MBw (4 + 4 * j) OR (w AND mask 22)"
  have top: "?p AND NOT (mask 22) = MBw (4 + 4 * i)" "?q AND NOT (mask 22) = MBw (4 + 4 * j)"
    using page_split [of "MBw (4 + 4 * i)" v] page_split [of "MBw (4 + 4 * j)" w] by (simp_all add: MBw_page)
  have "MBw (4 + 4 * i) \<noteq> MBw (4 + 4 * j)"
    using assms unat_MBw [of "4 + 4 * i"] unat_MBw [of "4 + 4 * j"] by (auto simp: MAX_PROCESSES_def)
  then have "?p \<noteq> ?q" using top by auto
  moreover have "?p AND mask 22 = v AND mask 22"
    using page_offset [of "MBw (4 + 4 * i)" v] by (simp add: MBw_page)
  ultimately show ?thesis
    using walk_user_page [OF assms(1,2,6), of s] walk_user_page [OF assms(3,4,7), of s] top(1) by blast
qed

theorem init_paging_user_isolated_witness:
  "\<exists>p q. walk (init_paging blank_tables) 1 0x08048000 = Some (p, True) \<and>
     walk (init_paging blank_tables) 2 0x08048000 = Some (q, True) \<and> p \<noteq> q"
  using init_paging_user_isolated [of 1 2 "0x08048000" "0x08048000" blank_tables] by (auto simp: MAX_PROCESSES_def)

text \<open>
  With tables that start out empty, as they do in \<^verbatim>\<open>.bss\<close>, the only addresses user
  code of a process can use after \<open>init_paging\<close> are its own page at 128MB and the first 4MB:
  the kernel page at 4MB, the kernel heap and the other processes are out of reach.
\<close>

theorem init_paging_user_reach:
  assumes "0 < i" "i < MAX_PROCESSES" "\<And>idx. pd s i idx = 0"
    and w: "walk (init_paging s) i v = Some (p, True)"
  shows "v div 0x400000 = 32 \<or> v < 0x400000"
proof (rule ccontr)
  assume "\<not> ?thesis"
  then have v: "unat (v div 0x400000) \<noteq> 32" "unat (v div 0x400000) \<noteq> 0"
    by (auto simp: word_unat_eq_iff word_less_nat_alt unat_div)
  let ?idx = "unat (v div 0x400000)"
  have e: "pd (init_paging s) i ?idx = 0 \<or> (\<exists>a. pd (init_paging s) i ?idx = entry a (flags_of KernelPrivilege))"
    using assms(1-3) v by (auto simp: init_paging_tables own_entry_def common_entry_def flags_of_def)
  then show False
  proof
    assume "pd (init_paging s) i ?idx = 0"
    then show False using w by (simp add: walk_def)
  next
    assume "\<exists>a. pd (init_paging s) i ?idx = entry a (flags_of KernelPrivilege)"
    then show False using w walk_big [of "init_paging s" i v _ KernelPrivilege] by auto
  qed
qed

theorem init_paging_user_reach_witness:
  "walk (init_paging blank_tables) 1 0x0C000000 \<noteq> Some (0x0C000000, True)"
  using init_paging_user_reach [of 1 blank_tables "0x0C000000" "0x0C000000"]
  by (auto simp: MAX_PROCESSES_def blank_tables_def)

lemma table_at_first: "table_at s pid (pt_addr s pid 0) = Some 0"
  by (simp add: table_at_def)

lemma pt_addr_aligned:
  assumes "pt_base s AND mask 12 = 0" shows "pt_addr s pid k AND NOT (mask 12) = pt_addr s pid k"
proof -
  have "pt_addr s pid k = pt_base s + (of_nat pid * 4 + 1 + of_nat k) * 0x1000"
    by (simp add: pt_addr_def algebra_simps)
  moreover have "(pt_base s + (x * 0x1000)) AND mask 12 = 0" for x
  proof -
    have m: "a AND mask 12 = 0 \<longleftrightarrow> unat a mod 4096 = 0" for a :: u32
    proof -
      have "unat (a AND mask 12) = unat a mod 4096"
        by (simp add: take_bit_eq_mod unat_mod flip: take_bit_eq_mask)
      then show ?thesis by (metis unat_eq_zero)
    qed
    have "unat (pt_base s + x * 0x1000) mod 4096 = unat (pt_base s) mod 4096"
    proof -
      have c: "(y mod 4294967296) mod 4096 = y mod 4096" for y :: nat by (rule mod_mod_cancel) simp
      have "unat (x * 0x1000) mod 4096 = 0" using c [of "unat x * 4096"] by (simp add: unat_word_ariths)
      then show ?thesis
        using c [of "unat (pt_base s) + unat (x * 0x1000)"] mod_add_eq [of "unat (pt_base s)" 4096 "unat (x * 0x1000)"]
        by (simp add: unat_word_ariths(1))
    qed
    then show ?thesis using assms by (simp add: m)
  qed
  ultimately have z: "pt_addr s pid k AND mask 12 = 0" by (simp only:)
  show ?thesis
  proof (rule bit_word_eqI)
    fix n
    have "\<not> bit (pt_addr s pid k AND mask 12) n" unfolding z by simp
    then show "bit (pt_addr s pid k AND NOT (mask 12)) n = bit (pt_addr s pid k) n"
      using bit_imp_le_length [of "pt_addr s pid k" n] by (auto simp: bit_simps)
  qed
qed

lemma walk_low:
  assumes "0 < i" "i < MAX_PROCESSES" "pt_base s AND mask 12 = 0" "v < 0x400000"
  shows "walk (init_paging s) i v =
    (let j = unat v div 4096; pte = (if 1 \<le> j then entry (of_nat j * 0x1000) 0x1F else pt s i 0 0)
     in if \<not> bit pte 0 then None else Some ((pte AND NOT (mask 12)) OR (v AND mask 12), bit pte 2))"
proof -
  have v: "unat v < 4194304" using assms(4) by (simp add: word_less_nat_alt)
  then have i0: "unat (v div 0x400000) = 0" and j: "unat ((v mod 0x400000) div 0x1000) = unat v div 4096"
    by (simp_all add: unat_div unat_mod)
  have a: "pt_addr (init_paging s) i 0 = pt_addr s i 0" using init_paging_tables(3) [OF assms(1,2)] by (simp add: pt_addr_def)
  have "unat v div 4096 \<le> 1023" using v by simp
  then show ?thesis
    using assms(1,2) i0 j pt_addr_aligned [OF assms(3), of i 0] table_at_first [of "init_paging s" i]
    by (auto simp: walk_def Let_def init_paging_tables own_entry_def common_entry_def bit_entry entry_page a not_less_eq_eq)
qed

text \<open>
  The page at address 0 stays unmapped: following a NULL pointer, or one less than 4096,
  faults in every process.
\<close>

theorem init_paging_null_faults:
  assumes "0 < i" "i < MAX_PROCESSES" "pt_base s AND mask 12 = 0" "pt s i 0 0 = 0" "v < 0x1000"
  shows "walk (init_paging s) i v = None"
proof -
  have "v < 0x400000" "unat v div 4096 = 0" using assms(5) by (auto simp: word_less_nat_alt)
  then show ?thesis using walk_low [OF assms(1-3), of v] assms(4) by (simp add: Let_def)
qed

theorem init_paging_null_faults_witness: "walk (init_paging blank_tables) 1 0 = None"
proof -
  have "pt_base blank_tables AND mask 12 = 0" by (simp add: blank_tables_def flip: take_bit_eq_mask)
  then show ?thesis using init_paging_null_faults [of 1 blank_tables 0] by (simp add: MAX_PROCESSES_def blank_tables_def)
qed

text \<open>
  Every other page below 4MB, where the boot image, the video memory and the first kernel
  data are, is open to user code: \<open>map_4kb_page\<close> ignores its privilege.
\<close>

theorem init_paging_low_open:
  assumes "0 < i" "i < MAX_PROCESSES" "pt_base s AND mask 12 = 0" "0x1000 \<le> v" "v < 0x400000"
  shows "walk (init_paging s) i v = Some (v, True)"
proof -
  let ?j = "unat v div 4096"
  have u: "4096 \<le> unat v" "unat v < 4194304" using assms(4,5) by (simp_all add: word_less_nat_alt word_le_nat_alt)
  then have j: "1 \<le> ?j" "?j < 1024" by auto
  have "of_nat ?j * 0x1000 = v AND NOT (mask 12)"
  proof -
    have "v AND NOT (mask 12) = push_bit 12 (drop_bit 12 v)" by (rule bit_word_eqI) (auto simp: bit_simps)
    also have "\<dots> = of_nat ?j * 0x1000"
      using unat_of_nat_u32 [of ?j] j(2)
      by (simp add: push_bit_eq_mult drop_bit_eq_div word_unat_eq_iff unat_div unat_word_ariths unat_of_nat_u32)
    finally show ?thesis by simp
  qed
  moreover have "(v AND NOT (mask 12)) OR (v AND mask 12) = v" by (rule bit_word_eqI) (auto simp: bit_simps)
  ultimately show ?thesis
    using walk_low [OF assms(1-3,5)] j(1) by (simp add: Let_def bit_entry entry_page)
qed

theorem init_paging_low_open_witness: "walk (init_paging blank_tables) 1 0xB8000 = Some (0xB8000, True)"
proof -
  have "pt_base blank_tables AND mask 12 = 0" by (simp add: blank_tables_def flip: take_bit_eq_mask)
  then show ?thesis using init_paging_low_open [of 1 blank_tables "0xB8000"] by (simp add: MAX_PROCESSES_def)
qed

text \<open>
  The user page of process 47 is the physical memory at 192MB, which is the storage of the
  kernel allocator.
\<close>

theorem init_paging_heap_exposed: "walk (init_paging s) 47 0x08000000 = Some (storage, True)"
  using walk_user_page [of 47 "0x08000000" s] by (simp add: MAX_PROCESSES_def MBw_def storage_def flip: take_bit_eq_mask)

end
