(* ===== verification/Pic.thy ===== *)
theory Pic
  imports Prelude
begin

text \<open>
  The interrupt controllers \<^verbatim>\<open>i8259.c\<close>. The state is the two mask variables and the
  sequence of bytes written to the ports, oldest first; an \<open>outb\<close> appends to it.
\<close>

section \<open>Ports\<close>

type_synonym port_log = "(u16 \<times> u8) list"

text \<open>The last byte written to a port.\<close>

definition latched :: "port_log \<Rightarrow> u16 \<Rightarrow> u8 option" where
  "latched l p = map_of (rev l) p"

lemma latched_append [simp]: "latched (l @ [(q, b)]) p = (if p = q then Some b else latched l p)"
  by (simp add: latched_def)

section \<open>State and operations\<close>

record pic =
  master_mask :: u8
  slave_mask :: u8
  ports :: port_log

definition MASTER_8259_PORT :: u16 where
  "MASTER_8259_PORT = 0x20"

definition SLAVE_8259_PORT :: u16 where
  "SLAVE_8259_PORT = 0xA0"

definition pic_outb :: "u8 \<Rightarrow> u16 \<Rightarrow> pic \<Rightarrow> pic" where
  "pic_outb b p s = s\<lparr>ports := ports s @ [(p, b)]\<rparr>"

definition send_masks :: "pic \<Rightarrow> pic" where
  "send_masks s = pic_outb (slave_mask s) (SLAVE_8259_PORT + 1) (pic_outb (master_mask s) (MASTER_8259_PORT + 1) s)"

definition i8259_init :: "pic \<Rightarrow> pic" where
  "i8259_init s =
     (let s1 = send_masks (s\<lparr>master_mask := 0xFF, slave_mask := 0xFF\<rparr>);
          s2 = pic_outb 0x01 (MASTER_8259_PORT + 1) (pic_outb 0x04 (MASTER_8259_PORT + 1)
                 (pic_outb 0x20 (MASTER_8259_PORT + 1) (pic_outb 0x11 MASTER_8259_PORT s1)))
      in pic_outb 0x01 (SLAVE_8259_PORT + 1) (pic_outb 0x02 (SLAVE_8259_PORT + 1)
           (pic_outb 0x28 (SLAVE_8259_PORT + 1) (pic_outb 0x11 SLAVE_8259_PORT s2))))"

function enable_irq :: "nat \<Rightarrow> pic \<Rightarrow> pic" where
  "enable_irq irq_num s =
     send_masks
       (if irq_num < 8 then s\<lparr>master_mask := master_mask s AND NOT (push_bit irq_num 1)\<rparr>
        else if irq_num < 16 then
          enable_irq 2 (s\<lparr>slave_mask := slave_mask s AND NOT (push_bit (irq_num - 8) 1)\<rparr>)
        else s)"
  by pat_completeness auto
termination by (relation "measure (\<lambda>(i, s). if i < 8 then 0 else 1)") auto

function disable_irq :: "nat \<Rightarrow> pic \<Rightarrow> pic" where
  "disable_irq irq_num s =
     send_masks
       (if irq_num < 8 then s\<lparr>master_mask := master_mask s OR push_bit irq_num 1\<rparr>
        else if irq_num < 16 then
          let s1 = s\<lparr>slave_mask := slave_mask s OR push_bit (irq_num - 8) 1\<rparr>
          in if slave_mask s1 = 0xFF then disable_irq 2 s1 else s1
        else s)"
  by pat_completeness auto
termination by (relation "measure (\<lambda>(i, s). if i < 8 then 0 else 1)") auto

function send_eoi :: "nat \<Rightarrow> pic \<Rightarrow> pic" where
  "send_eoi irq_num s =
     (if irq_num < 8 then pic_outb (0x60 OR of_nat irq_num) MASTER_8259_PORT s
      else if irq_num < 16 then send_eoi 2 (pic_outb (0x60 OR of_nat (irq_num - 8)) SLAVE_8259_PORT s)
      else s)"
  by pat_completeness auto
termination by (relation "measure (\<lambda>(i, s). if i < 8 then 0 else 1)") auto

declare enable_irq.simps [simp del] disable_irq.simps [simp del] send_eoi.simps [simp del]

section \<open>Which interrupts get through\<close>

text \<open>
  An interrupt of the master gets through when its mask bit is clear, one of the slave when its
  own bit and the bit of the cascade line 2 are. \<open>in_step\<close>: the chips hold the masks the
  variables hold.
\<close>

definition enabled :: "pic \<Rightarrow> nat \<Rightarrow> bool" where
  "enabled s i \<longleftrightarrow> (if i < 8 then \<not> bit (master_mask s) i
     else i < 16 \<and> \<not> bit (slave_mask s) (i - 8) \<and> \<not> bit (master_mask s) 2)"

definition in_step :: "pic \<Rightarrow> bool" where
  "in_step s \<longleftrightarrow> latched (ports s) 0x21 = Some (master_mask s) \<and> latched (ports s) 0xA1 = Some (slave_mask s)"

lemma send_masks_simps [simp]:
  "master_mask (send_masks s) = master_mask s" "slave_mask (send_masks s) = slave_mask s" "in_step (send_masks s)"
  "enabled (send_masks s) i = enabled s i"
  by (simp_all add: send_masks_def pic_outb_def in_step_def enabled_def latched_def MASTER_8259_PORT_def SLAVE_8259_PORT_def)

lemma enable_low: "i < 8 \<Longrightarrow> enable_irq i s = send_masks (s\<lparr>master_mask := master_mask s AND NOT (push_bit i 1)\<rparr>)"
  by (subst enable_irq.simps) simp

lemma enable_high:
  "8 \<le> i \<Longrightarrow> i < 16 \<Longrightarrow> enable_irq i s =
     send_masks (enable_irq 2 (s\<lparr>slave_mask := slave_mask s AND NOT (push_bit (i - 8) 1)\<rparr>))"
  by (subst enable_irq.simps) simp

lemma bit_one_u8: "bit (1 :: u8) n \<longleftrightarrow> n = 0"
  by (simp add: bit_1_iff)

lemma enabled_enable_low:
  assumes "i < 8"
  shows "enabled (enable_irq i s) j \<longleftrightarrow>
    (if j < 8 then j = i \<or> \<not> bit (master_mask s) j
     else j < 16 \<and> \<not> bit (slave_mask s) (j - 8) \<and> (i = 2 \<or> \<not> bit (master_mask s) 2))"
  using assms by (auto simp: enable_low enabled_def bit_simps bit_one_u8)

lemma enabled_enable:
  assumes "i < 16"
  shows "enabled (enable_irq i s) i" "enabled s j \<Longrightarrow> enabled (enable_irq i s) j" "in_step (enable_irq i s)"
proof -
  show "enabled (enable_irq i s) i"
  proof (cases "i < 8")
    case False
    then show ?thesis using assms by (auto simp: enable_high enabled_enable_low bit_simps bit_one_u8)
  qed (simp add: enabled_enable_low)
  show "enabled (enable_irq i s) j" if "enabled s j"
  proof (cases "i < 8")
    case True
    then show ?thesis using that by (auto simp: enable_low enabled_def bit_simps split: if_splits)
  next
    case False
    then show ?thesis using assms that
      by (auto simp: enable_high enable_low enabled_def bit_simps split: if_splits)
  qed
  show "in_step (enable_irq i s)" by (subst enable_irq.simps) simp
qed

lemma disable_low: "i < 8 \<Longrightarrow> disable_irq i s = send_masks (s\<lparr>master_mask := master_mask s OR push_bit i 1\<rparr>)"
  by (subst disable_irq.simps) simp

lemma all_masked: "(m :: u8) = 0xFF \<Longrightarrow> n < 8 \<Longrightarrow> bit m n"
proof -
  assume m: "m = 0xFF" and n: "n < 8"
  have "(0xFF :: u8) = mask 8" by (simp add: mask_eq_exp_minus_1)
  then show "bit m n" unfolding m using n by (simp only: bit_mask_iff) simp
qed

lemma disabled_disable:
  assumes "i < 16"
  shows "\<not> enabled (disable_irq i s) i"
    "j \<noteq> i \<Longrightarrow> i \<noteq> 2 \<Longrightarrow> j \<noteq> 2 \<Longrightarrow> enabled (disable_irq i s) j = enabled s j"
    "in_step (disable_irq i s)"
proof -
  show "in_step (disable_irq i s)" by (subst disable_irq.simps) simp
  let ?s1 = "s\<lparr>slave_mask := slave_mask s OR push_bit (i - 8) 1\<rparr>"
  have hi: "disable_irq i s = send_masks (if slave_mask ?s1 = 0xFF then disable_irq 2 ?s1 else ?s1)" if "8 \<le> i"
    using that assms by (subst disable_irq.simps) (simp add: Let_def)
  show "\<not> enabled (disable_irq i s) i"
  proof (cases "i < 8")
    case True
    then show ?thesis by (simp add: disable_low enabled_def bit_simps bit_one_u8)
  next
    case False
    then show ?thesis using assms hi by (auto simp: disable_low enabled_def bit_simps bit_one_u8)
  qed
  show "enabled (disable_irq i s) j = enabled s j" if "j \<noteq> i" "i \<noteq> 2" "j \<noteq> 2"
  proof (cases "i < 8")
    case True
    then show ?thesis using that by (auto simp: disable_low enabled_def bit_simps bit_one_u8)
  next
    case False
    have set_one: "bit (m OR push_bit k 1) n \<longleftrightarrow> bit m n \<or> n = k \<and> n < 8" for m :: u8 and k n
      by (auto simp: bit_simps bit_one_u8)
    have slave: "bit (slave_mask ?s1) (j - 8) \<longleftrightarrow> bit (slave_mask s) (j - 8)" if "8 \<le> j"
    proof -
      have sm: "slave_mask ?s1 = slave_mask s OR push_bit (i - 8) 1" by simp
      show ?thesis unfolding sm set_one using that False \<open>j \<noteq> i\<close> by auto
    qed
    have full: "bit (slave_mask ?s1) (j - 8)" if "slave_mask ?s1 = 0xFF" "8 \<le> j" "j < 16"
      using all_masked [OF that(1), of "j - 8"] that by simp
    have two: "enabled (disable_irq 2 ?s1) j = enabled ?s1 j" if "slave_mask ?s1 = 0xFF"
    proof -
      have d: "disable_irq 2 ?s1 = send_masks (?s1\<lparr>master_mask := master_mask ?s1 OR push_bit 2 1\<rparr>)" by (rule disable_low) simp
      have m2: "master_mask (disable_irq 2 ?s1) = master_mask ?s1 OR push_bit 2 1"
        "slave_mask (disable_irq 2 ?s1) = slave_mask ?s1" unfolding d by simp_all
      show ?thesis unfolding enabled_def m2 set_one using full [OF that] \<open>j \<noteq> 2\<close> by auto
    qed
    have "enabled (disable_irq i s) j = enabled ?s1 j" using False hi two by simp
    also have "\<dots> = enabled s j" using slave by (simp add: enabled_def)
    finally show ?thesis .
  qed
qed

section \<open>The interrupt controller interface\<close>

text \<open>What a driver relies on when it switches its interrupt line on or off.\<close>

locale irq_controller =
  fixes lines :: "nat set" and open_line :: "'s \<Rightarrow> nat \<Rightarrow> bool"
    and on :: "nat \<Rightarrow> 's \<Rightarrow> 's" and off :: "nat \<Rightarrow> 's \<Rightarrow> 's"
  assumes on_open: "i \<in> lines \<Longrightarrow> open_line (on i s) i"
    and on_keeps: "i \<in> lines \<Longrightarrow> open_line s j \<Longrightarrow> open_line (on i s) j"
    and off_closed: "i \<in> lines \<Longrightarrow> \<not> open_line (off i s) i"
begin

lemma fold_on_keeps: "set is \<subseteq> lines \<Longrightarrow> open_line s j \<Longrightarrow> open_line (fold on is s) j"
  by (induction "is" arbitrary: s) (auto simp: on_keeps)

lemma fold_on_open: "set is \<subseteq> lines \<Longrightarrow> i \<in> set is \<Longrightarrow> open_line (fold on is s) i"
  by (induction "is" arbitrary: s) (auto simp: on_open fold_on_keeps)

end

interpretation i8259: irq_controller "{..<16}" enabled enable_irq disable_irq
  by unfold_locales (auto simp: enabled_enable disabled_disable(1))

section \<open>Properties\<close>

text \<open>
  After \<open>enable_irq\<close> of each line of a list (all below 16), every one of those lines gets
  through, the slave's lines included, and the chips hold the masks the variables hold.
\<close>

theorem enable_irqs_all_open:
  assumes "set is \<subseteq> {..<16}" "i \<in> set is"
  shows "enabled (fold enable_irq is s) i"
  using assms by (rule i8259.fold_on_open)

definition masked_pic :: pic where
  "masked_pic = i8259_init \<lparr>master_mask = 0, slave_mask = 0, ports = []\<rparr>"

theorem enable_irqs_all_open_witness: "enabled (fold enable_irq [0, 1, 8, 12] masked_pic) 12"
  by (rule enable_irqs_all_open) auto

text \<open>
  \<open>disable_irq\<close> of a line below 16 stops that line; unless it is the cascade line 2, no
  line but 2 changes, also when the last line of the slave goes off and line 2 is masked with it;
  and the chips hold the masks the variables hold.
\<close>

theorem disable_irq_only:
  assumes "i < 16"
  shows "\<not> enabled (disable_irq i s) i \<and> in_step (disable_irq i s) \<and>
    (\<forall>j. j \<noteq> i \<and> i \<noteq> 2 \<and> j \<noteq> 2 \<longrightarrow> enabled (disable_irq i s) j = enabled s j)"
  using disabled_disable [OF assms] by blast

theorem disable_irq_only_witness:
  "\<not> enabled (disable_irq 8 masked_pic) 8 \<and> enabled (disable_irq 8 masked_pic) 1 = enabled masked_pic 1"
  using disable_irq_only [of 8 masked_pic] by simp

text \<open>
  The end of an interrupt of the slave is sent to the slave and then, for line 2, to the
  master; one of the master only to the master.
\<close>

theorem send_eoi_order:
  "ports (send_eoi i s) = ports s @
     (if i < 8 then [(0x20, 0x60 OR of_nat i)]
      else if i < 16 then [(0xA0, 0x60 OR of_nat (i - 8)), (0x20, 0x62)] else [])"
  by (subst send_eoi.simps)
     (simp add: send_eoi.simps [of 2] pic_outb_def MASTER_8259_PORT_def SLAVE_8259_PORT_def)

end
