(* ===== verification/Spinlock.thy ===== *)
theory Spinlock
  imports Prelude
begin

text \<open>
  The spinlock of \<^verbatim>\<open>spinlock.c\<close>. \<open>spin_lock\<close> alone is the loop around
  \<^verbatim>\<open>xchgl\<close> as one processor runs it; \<open>lock_step\<close> interleaves any number of threads
  at the grain of the single \<^verbatim>\<open>xchgl\<close> and of the store in \<open>spin_unlock\<close>.
\<close>

section \<open>One processor\<close>

definition xchg :: "u32 \<Rightarrow> u32 \<Rightarrow> u32 \<times> u32" where
  "xchg eax dd = (dd, eax)"

partial_function (option) spin_lock :: "u32 \<Rightarrow> u32 option" where
  "spin_lock dd = (if fst (xchg 1 dd) \<noteq> 0 then spin_lock (snd (xchg 1 dd)) else Some (snd (xchg 1 dd)))"

definition spin_unlock :: "u32 \<Rightarrow> u32" where
  "spin_unlock dd = 0"

record cpu_flags =
  eflags :: u32

definition block_interrupts :: "cpu_flags \<Rightarrow> cpu_flags \<times> u32" where
  "block_interrupts c = (c\<lparr>eflags := eflags c AND NOT 0x200\<rparr>, eflags c)"

definition restore_interrupts :: "u32 \<Rightarrow> cpu_flags \<Rightarrow> cpu_flags" where
  "restore_interrupts flags c = c\<lparr>eflags := flags\<rparr>"

definition spin_lock_irqsave :: "u32 \<Rightarrow> cpu_flags \<Rightarrow> (u32 \<times> cpu_flags \<times> u32) option" where
  "spin_lock_irqsave dd c = (let (c1, flags) = block_interrupts c in do { dd' \<leftarrow> spin_lock dd; Some (dd', c1, flags) })"

definition spin_unlock_irqrestore :: "u32 \<Rightarrow> u32 \<Rightarrow> cpu_flags \<Rightarrow> u32 \<times> cpu_flags" where
  "spin_unlock_irqrestore dd flags c = (spin_unlock dd, restore_interrupts flags c)"

definition interrupts_on :: "cpu_flags \<Rightarrow> bool" where
  "interrupts_on c \<longleftrightarrow> bit (eflags c) 9"

lemma spin_lock_free: "spin_lock 0 = Some 1"
  by (subst spin_lock.simps) (simp add: xchg_def)

lemma spin_lock_held:
  assumes "dd \<noteq> 0" shows "spin_lock dd = None"
proof (cases "spin_lock dd")
  case (Some y)
  have "dd = 0"
  proof (rule spin_lock.raw_induct [OF _ Some])
    fix loop :: "u32 \<Rightarrow> u32 option" and d y
    assume IH: "\<And>d y. loop d = Some y \<Longrightarrow> d = 0"
      and b: "(if fst (xchg 1 d) \<noteq> 0 then loop (snd (xchg 1 d)) else Some (snd (xchg 1 d))) = Some y"
    show "d = 0"
    proof (rule ccontr)
      assume "d \<noteq> 0"
      then have "loop 1 = Some y" using b by (simp add: xchg_def)
      from IH [OF this] show False by simp
    qed
  qed
  with assms show ?thesis by simp
qed

section \<open>Threads\<close>

datatype phase = Outside | Spinning | Inside

record lock_state =
  dd_word :: u32
  phase_of :: "nat \<Rightarrow> phase"

inductive lock_step :: "lock_state \<Rightarrow> lock_state \<Rightarrow> bool" where
  enter: "phase_of s t = Outside \<Longrightarrow> lock_step s (s\<lparr>phase_of := (phase_of s)(t := Spinning)\<rparr>)"
| spin: "phase_of s t = Spinning \<Longrightarrow> xchg 1 (dd_word s) = (eax, dd) \<Longrightarrow> eax \<noteq> 0 \<Longrightarrow>
    lock_step s (s\<lparr>dd_word := dd\<rparr>)"
| acquire: "phase_of s t = Spinning \<Longrightarrow> xchg 1 (dd_word s) = (eax, dd) \<Longrightarrow> eax = 0 \<Longrightarrow>
    lock_step s (s\<lparr>dd_word := dd, phase_of := (phase_of s)(t := Inside)\<rparr>)"
| release: "phase_of s t = Inside \<Longrightarrow>
    lock_step s (s\<lparr>dd_word := spin_unlock (dd_word s), phase_of := (phase_of s)(t := Outside)\<rparr>)"

inductive_cases lock_stepE: "lock_step s s'"

definition lock_init :: lock_state where
  "lock_init = \<lparr>dd_word = 0, phase_of = (\<lambda>_. Outside)\<rparr>"

definition lock_inv :: "lock_state \<Rightarrow> bool" where
  "lock_inv s \<longleftrightarrow> (\<forall>t. phase_of s t = Inside \<longrightarrow> dd_word s \<noteq> 0) \<and>
     (\<forall>t u. phase_of s t = Inside \<longrightarrow> phase_of s u = Inside \<longrightarrow> t = u)"

lemma lock_inv_init: "lock_inv lock_init"
  by (simp add: lock_inv_def lock_init_def)

lemma lock_inv_step: "lock_step s s' \<Longrightarrow> lock_inv s \<Longrightarrow> lock_inv s'"
proof (induction rule: lock_step.induct)
  case (enter s t)
  then show ?case by (auto simp: lock_inv_def)
next
  case (spin s t eax dd)
  then show ?case by (simp add: lock_inv_def xchg_def)
next
  case (acquire s t eax dd)
  then have "phase_of s u \<noteq> Inside" for u by (auto simp: lock_inv_def xchg_def)
  then show ?case using acquire(2) by (simp add: lock_inv_def xchg_def)
next
  case (release s t)
  then have "phase_of s u = Inside \<Longrightarrow> u = t" for u by (auto simp: lock_inv_def)
  then show ?case by (auto simp: lock_inv_def)
qed

section \<open>The mutex interface\<close>

text \<open>
  Any transition system whose invariant allows one holder at a time and whose steps keep it gives
  mutual exclusion along every run.
\<close>

locale mutex =
  fixes step :: "'s \<Rightarrow> 's \<Rightarrow> bool" and init :: 's and inside :: "'s \<Rightarrow> 't \<Rightarrow> bool" and inv :: "'s \<Rightarrow> bool"
  assumes inv_init: "inv init"
    and inv_step: "step s s' \<Longrightarrow> inv s \<Longrightarrow> inv s'"
    and inv_one: "inv s \<Longrightarrow> inside s t \<Longrightarrow> inside s u \<Longrightarrow> t = u"
begin

lemma reachable_inv: "step\<^sup>*\<^sup>* init s \<Longrightarrow> inv s"
  by (induction rule: rtranclp_induct) (auto intro: inv_init inv_step)

lemma exclusion: "step\<^sup>*\<^sup>* init s \<Longrightarrow> inside s t \<Longrightarrow> inside s u \<Longrightarrow> t = u"
  using reachable_inv inv_one by blast

end

interpretation spin: mutex lock_step lock_init "\<lambda>s t. phase_of s t = Inside" lock_inv
proof
  show "lock_inv lock_init" by (rule lock_inv_init)
  show "lock_inv s'" if "lock_step s s'" "lock_inv s" for s s' using that by (rule lock_inv_step)
  show "t = u" if "lock_inv s" "phase_of s t = Inside" "phase_of s u = Inside" for s t u
    using that unfolding lock_inv_def by blast
qed

section \<open>Properties\<close>

text \<open>
  C23. Mutual exclusion: however the \<^verbatim>\<open>xchgl\<close> instructions and releases of any number of
  threads interleave, no two of them are inside the section at once.
\<close>

theorem spinlock_mutual_exclusion:
  assumes "lock_step\<^sup>*\<^sup>* lock_init s" "phase_of s t = Inside" "phase_of s u = Inside"
  shows "t = u"
  using assms by (rule spin.exclusion)

theorem spinlock_mutual_exclusion_witness:
  "\<exists>s. lock_step\<^sup>*\<^sup>* lock_init s \<and> phase_of s 1 = Inside \<and> (\<forall>u. phase_of s u = Inside \<longrightarrow> 1 = u)"
proof -
  let ?s1 = "lock_init\<lparr>phase_of := (phase_of lock_init)(1 := Spinning)\<rparr>"
  let ?s2 = "?s1\<lparr>dd_word := 1, phase_of := (phase_of ?s1)(1 := Inside)\<rparr>"
  have 1: "lock_step lock_init ?s1" by (rule lock_step.enter) (simp add: lock_init_def)
  have 2: "lock_step ?s1 ?s2" by (rule lock_step.acquire [where eax = 0]) (simp_all add: lock_init_def xchg_def)
  have r: "lock_step\<^sup>*\<^sup>* lock_init ?s2" by (rule rtranclp.rtrancl_into_rtrancl [OF r_into_rtranclp [of lock_step, OF 1] 2])
  moreover have "phase_of ?s2 1 = Inside" by simp
  ultimately show ?thesis using spinlock_mutual_exclusion [OF r] by blast
qed

text \<open>
  A free lock is taken by the first \<^verbatim>\<open>xchgl\<close>; locking a lock that is held, with no one
  else to release it, never returns. Saving and restoring the interrupt flag around the lock
  gives back the flags there were, and interrupts are off in between.
\<close>

theorem spin_lock_behaviour:
  "spin_lock dd = (if dd = 0 then Some 1 else None) \<and>
   (case spin_lock_irqsave 0 c of
      None \<Rightarrow> False
    | Some (dd1, c1, flags) \<Rightarrow> \<not> interrupts_on c1 \<and> spin_unlock_irqrestore dd1 flags c1 = (0, c))"
proof -
  have "\<not> bit (eflags c AND NOT 0x200) 9"
  proof -
    have "(0x200 :: u32) = push_bit 9 1" by simp
    then show ?thesis by (simp only:) (simp add: bit_simps)
  qed
  then show ?thesis
    by (simp add: spin_lock_free spin_lock_held spin_lock_irqsave_def block_interrupts_def interrupts_on_def
        spin_unlock_irqrestore_def spin_unlock_def restore_interrupts_def)
qed

end
