(* ===== verification/Screen.thy ===== *)
theory Screen
  imports Lib_Memory
begin

text \<open>
  The text screen of \<^verbatim>\<open>lib.c\<close>: cursor coordinates, attributes and clearing. The 80 by 24
  cells are two bytes each, character and attribute, from \<open>real_vidmem\<close> on in the machine
  memory. The only observer the kernel registers for changes of an attribute is
  \<open>attrib_changed\<close> of \<^verbatim>\<open>mouse.c\<close>, so a slot of the table of observers is empty or
  holds it; the variables it works on are the last fields of the record.
\<close>

section \<open>State\<close>

record screen =
  screen_x :: int
  screen_y :: int
  cursor_on :: bool
  current_attrib :: u8
  observers :: "bool list"
  real_vidmem :: u32
  smem :: memory
  mouse_pos :: "int \<times> int"
  prev_pos :: "int \<times> int"
  prev_attrib :: u8
  no_notify :: bool

definition NUM_COLS :: int where
  "NUM_COLS = 80"

definition NUM_ROWS :: int where
  "NUM_ROWS = 24"

definition MAX_SUBSCRIBERS :: nat where
  "MAX_SUBSCRIBERS = 3"

definition ATTRIB :: u8 where
  "ATTRIB = 0x0F"

definition CURSOR_ATTRIB :: u8 where
  "CURSOR_ATTRIB = 0x7F"

section \<open>Coordinates\<close>

function wrap_left :: "int \<Rightarrow> int \<Rightarrow> int \<times> int" where
  "wrap_left x y = (if x < 0 then wrap_left (x + NUM_COLS) (y - 1) else (x, y))"
  by pat_completeness auto
termination by (relation "measure (\<lambda>(x, y). nat (- x))") (auto simp: NUM_COLS_def)

function wrap_right :: "int \<Rightarrow> int \<Rightarrow> int \<times> int" where
  "wrap_right x y = (if NUM_COLS \<le> x then wrap_right (x - NUM_COLS) (y + 1) else (x, y))"
  by pat_completeness auto
termination by (relation "measure (\<lambda>(x, y). nat x)") (auto simp: NUM_COLS_def)

function wrap_up :: "int \<Rightarrow> int" where
  "wrap_up y = (if y < 0 then wrap_up (y + NUM_ROWS) else y)"
  by pat_completeness auto
termination by (relation "measure (\<lambda>y. nat (- y))") (auto simp: NUM_ROWS_def)

function clamp_down :: "int \<Rightarrow> int" where
  "clamp_down y = (if NUM_ROWS \<le> y then clamp_down (y - 1) else y)"
  by pat_completeness auto
termination by (relation "measure (\<lambda>y. nat y)") (auto simp: NUM_ROWS_def)

declare wrap_left.simps [simp del] wrap_right.simps [simp del] wrap_up.simps [simp del] clamp_down.simps [simp del]

definition normal_position :: "int \<Rightarrow> int \<Rightarrow> int \<times> int" where
  "normal_position x y =
     (let (x1, y1) = wrap_left x y; (x2, y2) = wrap_right x1 y1 in (x2, clamp_down (wrap_up y2)))"

definition read_screen_coordinates :: "screen \<Rightarrow> int \<times> int" where
  "read_screen_coordinates s = (screen_x s, screen_y s)"

section \<open>Attributes\<close>

definition cell_addr :: "screen \<Rightarrow> int \<Rightarrow> int \<Rightarrow> u32" where
  "cell_addr s x y = real_vidmem s + of_int ((y * NUM_COLS + x) * 2)"

definition set_attrib :: "u8 \<Rightarrow> screen \<Rightarrow> screen" where
  "set_attrib attrib s = s\<lparr>current_attrib := attrib\<rparr>"

fun first_free :: "bool list \<Rightarrow> nat option" where
  "first_free [] = None"
| "first_free (b # bs) = (if \<not> b then Some 0 else map_option Suc (first_free bs))"

definition add_attrib_observer :: "screen \<Rightarrow> screen" where
  "add_attrib_observer s =
     (case first_free (observers s) of None \<Rightarrow> s | Some i \<Rightarrow> s\<lparr>observers := (observers s)[i := True]\<rparr>)"

definition get_char_attrib :: "int \<Rightarrow> int \<Rightarrow> screen \<Rightarrow> u8" where
  "get_char_attrib x y s = smem s (cell_addr s x y + 1)"

definition attrib_changed :: "int \<Rightarrow> int \<Rightarrow> screen \<Rightarrow> screen" where
  "attrib_changed x y s =
     (if no_notify s then s
      else if (x, y) = prev_pos s then s\<lparr>prev_attrib := get_char_attrib x y s\<rparr> else s)"

definition notify :: "int \<Rightarrow> int \<Rightarrow> screen \<Rightarrow> screen" where
  "notify x y s = fold (\<lambda>set s. if set then attrib_changed x y s else s) (observers s) s"

definition set_char_attrib :: "int \<Rightarrow> int \<Rightarrow> u8 \<Rightarrow> screen \<Rightarrow> screen" where
  "set_char_attrib x y attrib s = notify x y (s\<lparr>smem := (smem s)(cell_addr s x y + 1 := attrib)\<rparr>)"

section \<open>The cursor\<close>

definition set_cursor_position :: "int \<Rightarrow> int \<Rightarrow> screen \<Rightarrow> screen" where
  "set_cursor_position x y s =
     (let (old_x, old_y) = read_screen_coordinates s;
          s1 = set_char_attrib old_x old_y (current_attrib s) s;
          (x1, y1) = normal_position x y
      in if cursor_on s1 then set_char_attrib x1 y1 CURSOR_ATTRIB s1
         else set_char_attrib x1 y1 (current_attrib s1) s1)"

definition update_cursor :: "screen \<Rightarrow> screen" where
  "update_cursor s = set_cursor_position (screen_x s) (screen_y s) s"

definition set_screen_coordinates :: "int \<Rightarrow> int \<Rightarrow> screen \<Rightarrow> screen" where
  "set_screen_coordinates x y s =
     (let (x1, y1) = normal_position x y;
          s1 = set_char_attrib (screen_x s) (screen_y s) (current_attrib s) s
      in update_cursor (s1\<lparr>screen_x := x1, screen_y := y1\<rparr>))"

definition clear_char_attrib :: "int \<Rightarrow> int \<Rightarrow> screen \<Rightarrow> screen" where
  "clear_char_attrib x y s =
     (let (x1, y1) = wrap_left x y; (x2, y2) = wrap_right x1 y1
      in set_char_attrib x2 (wrap_up y2 mod NUM_ROWS) ATTRIB s)"

section \<open>Clearing\<close>

definition blank :: "screen \<Rightarrow> u32" where
  "blank s = push_bit 8 (ucast (current_attrib s)) OR 0x20"

definition clear :: "screen \<Rightarrow> screen" where
  "clear s =
     set_screen_coordinates 0 0
       (s\<lparr>smem := memset_word (smem s) (real_vidmem s) (blank s) (of_int (NUM_ROWS * NUM_COLS))\<rparr>)"

definition clear_line :: "int \<Rightarrow> int \<Rightarrow> screen \<Rightarrow> screen" where
  "clear_line start_x line s =
     (let x = (if NUM_COLS \<le> start_x then NUM_COLS - 1 else start_x);
          y = (if NUM_ROWS \<le> line then NUM_ROWS - 1 else line)
      in s\<lparr>smem := memset_word (smem s) (cell_addr s x y) (blank s) (of_int (NUM_COLS - start_x))\<rparr>)"

definition increment_vid_mem :: "screen \<Rightarrow> screen" where
  "increment_vid_mem s =
     s\<lparr>smem := fold (\<lambda>i m. let a = real_vidmem s + of_nat (2 * i) in m(a := m a + 1)) [0..<nat (NUM_ROWS * NUM_COLS)] (smem s)\<rparr>"

definition increment_video_location :: "int \<Rightarrow> int \<Rightarrow> screen \<Rightarrow> screen" where
  "increment_video_location col row s =
     (let a = real_vidmem s + of_int ((row * NUM_COLS + col) * 2) in s\<lparr>smem := (smem s)(a := smem s a + 1)\<rparr>)"

section \<open>Normal positions\<close>

lemma wrap_left_form: "wrap_left x y = (if x < 0 then (x mod 80, y + x div 80) else (x, y))"
proof (induction x y rule: wrap_left.induct)
  case (1 x y)
  show ?case
  proof (cases "x < 0")
    case True
    have "(x + 80) mod 80 = x mod 80" "(x + 80) div 80 = x div 80 + 1" by simp_all
    moreover have "\<not> x + 80 < 0 \<Longrightarrow> x mod 80 = x + 80 \<and> x div 80 = - 1"
      using True by (simp add: int_mod_pos_eq [of x 80 "- 1" "x + 80"] int_div_pos_eq [of x 80 "- 1" "x + 80"])
    ultimately show ?thesis using 1 True by (subst wrap_left.simps) (auto simp: NUM_COLS_def)
  qed (subst wrap_left.simps, simp)
qed

lemma wrap_right_form: "0 \<le> x \<Longrightarrow> wrap_right x y = (x mod 80, y + x div 80)"
proof (induction x y rule: wrap_right.induct)
  case (1 x y)
  show ?case
  proof (cases "80 \<le> x")
    case True
    have "(x - 80) mod 80 = x mod 80" "(x - 80) div 80 = x div 80 - 1" by simp_all
    then show ?thesis using 1 True by (subst wrap_right.simps) (simp add: NUM_COLS_def)
  next
    case False
    then show ?thesis using 1 by (subst wrap_right.simps) (simp add: NUM_COLS_def)
  qed
qed

lemma wrap_up_form: "wrap_up y = (if y < 0 then y mod 24 else y)"
proof (induction y rule: wrap_up.induct)
  case (1 y)
  show ?case
  proof (cases "y < 0")
    case True
    moreover have "\<not> y + 24 < 0 \<Longrightarrow> y mod 24 = y + 24"
      using True by (simp add: int_mod_pos_eq [of y 24 "- 1" "y + 24"])
    ultimately show ?thesis using 1 by (subst wrap_up.simps) (auto simp: NUM_ROWS_def)
  qed (subst wrap_up.simps, simp)
qed

lemma clamp_down_form: "clamp_down y = min y 23"
proof (induction y rule: clamp_down.induct)
  case (1 y)
  then show ?case by (subst clamp_down.simps) (auto simp: NUM_ROWS_def)
qed

lemma normal_position_form:
  "normal_position x y = (x mod 80, let r = y + x div 80 in if r < 0 then r mod 24 else min r 23)"
proof -
  have m: "min (r mod 24) 23 = r mod 24" for r :: int using pos_mod_bound [of 24 r] by simp
  have l: "\<exists>u v. wrap_left x y = (u, v) \<and> 0 \<le> u \<and> u mod 80 = x mod 80 \<and> v + u div 80 = y + x div 80"
    unfolding wrap_left_form by simp
  then obtain u v where u: "wrap_left x y = (u, v)" "0 \<le> u" "u mod 80 = x mod 80" "v + u div 80 = y + x div 80" by blast
  have "wrap_right u v = (x mod 80, y + x div 80)" using wrap_right_form [OF u(2), of v] u by simp
  then show ?thesis
    by (simp only: normal_position_def u(1) split_conv wrap_up_form clamp_down_form m Let_def if_distrib [of "\<lambda>r. min r 23"])
qed

lemma normal_position_range:
  "normal_position x y = (x', y') \<Longrightarrow> 0 \<le> x' \<and> x' < 80 \<and> 0 \<le> y' \<and> y' < 24"
  by (auto simp: normal_position_form Let_def)

section \<open>Where the cursor writes\<close>

definition screen_ok :: "screen \<Rightarrow> bool" where
  "screen_ok s \<longleftrightarrow> 0 \<le> screen_x s \<and> screen_x s < 80 \<and> 0 \<le> screen_y s \<and> screen_y s < 24"

text \<open>\<open>confined s s'\<close>: only attribute bytes of the 1920 cells have changed.\<close>

definition confined :: "screen \<Rightarrow> screen \<Rightarrow> bool" where
  "confined s s' \<longleftrightarrow> real_vidmem s' = real_vidmem s \<and>
     (\<forall>a. smem s' a \<noteq> smem s a \<longrightarrow> (\<exists>k < 1920. a = real_vidmem s + of_nat (2 * k + 1)))"

lemma confined_refl: "confined s s"
  by (simp add: confined_def)

lemma confined_trans: "confined s s1 \<Longrightarrow> confined s1 s2 \<Longrightarrow> confined s s2"
  unfolding confined_def by metis

lemma attrib_changed_idem: "attrib_changed x y (attrib_changed x y s) = attrib_changed x y s"
  by (simp add: attrib_changed_def get_char_attrib_def cell_addr_def)

lemma notify_form: "notify x y s = (if True \<in> set (observers s) then attrib_changed x y s else s)"
proof -
  have "fold (\<lambda>set s. if set then attrib_changed x y s else s) bs t = (if True \<in> set bs then attrib_changed x y t else t)" for bs t
    by (induction bs arbitrary: t) (auto simp: attrib_changed_idem)
  then show ?thesis by (simp add: notify_def)
qed

lemma set_char_attrib_form:
  "set_char_attrib x y b s =
     (if True \<in> set (observers s) \<and> \<not> no_notify s \<and> (x, y) = prev_pos s
      then s\<lparr>smem := (smem s)(cell_addr s x y + 1 := b), prev_attrib := b\<rparr>
      else s\<lparr>smem := (smem s)(cell_addr s x y + 1 := b)\<rparr>)"
  by (simp add: set_char_attrib_def notify_form attrib_changed_def get_char_attrib_def cell_addr_def)

lemma set_char_attrib_simps [simp]:
  "screen_x (set_char_attrib x y b s) = screen_x s" "screen_y (set_char_attrib x y b s) = screen_y s"
  "cursor_on (set_char_attrib x y b s) = cursor_on s" "current_attrib (set_char_attrib x y b s) = current_attrib s"
  "real_vidmem (set_char_attrib x y b s) = real_vidmem s" "observers (set_char_attrib x y b s) = observers s"
  "smem (set_char_attrib x y b s) = (smem s)(cell_addr s x y + 1 := b)"
  "mouse_pos (set_char_attrib x y b s) = mouse_pos s" "prev_pos (set_char_attrib x y b s) = prev_pos s"
  "no_notify (set_char_attrib x y b s) = no_notify s"
  by (simp_all add: set_char_attrib_form)

lemma set_char_attrib_confined:
  assumes "0 \<le> x" "x < 80" "0 \<le> y" "y < 24"
  shows "confined s (set_char_attrib x y b s)"
proof -
  have "cell_addr s x y + 1 = real_vidmem s + of_nat (2 * nat (y * 80 + x) + 1)"
    using assms by (simp add: cell_addr_def NUM_COLS_def algebra_simps of_nat_nat)
  moreover have "nat (y * 80 + x) < 1920" using assms by (simp add: nat_less_iff)
  ultimately show ?thesis by (auto simp: confined_def)
qed

lemma update_cursor_simps [simp]:
  "screen_x (update_cursor s) = screen_x s" "screen_y (update_cursor s) = screen_y s"
  "cursor_on (update_cursor s) = cursor_on s" "current_attrib (update_cursor s) = current_attrib s"
  "real_vidmem (update_cursor s) = real_vidmem s" "observers (update_cursor s) = observers s"
  by (simp_all add: update_cursor_def set_cursor_position_def Let_def split_beta)

lemma update_cursor_confined:
  assumes "screen_ok s" shows "confined s (update_cursor s)"
proof -
  obtain x y where n: "normal_position (screen_x s) (screen_y s) = (x, y)" by fastforce
  have old: "confined s (set_char_attrib (screen_x s) (screen_y s) b s)" for b
    using assms by (intro set_char_attrib_confined) (auto simp: screen_ok_def)
  have new: "confined t (set_char_attrib x y b t)" for b t
    using normal_position_range [OF n] by (intro set_char_attrib_confined) auto
  show ?thesis
    using confined_trans [OF old new] n by (simp add: update_cursor_def set_cursor_position_def read_screen_coordinates_def Let_def)
qed

lemma set_screen_coordinates_effect:
  assumes "normal_position x y = (x', y')"
  shows "screen_x (set_screen_coordinates x y s) = x'" "screen_y (set_screen_coordinates x y s) = y'"
    "current_attrib (set_screen_coordinates x y s) = current_attrib s"
    "cursor_on (set_screen_coordinates x y s) = cursor_on s"
    "real_vidmem (set_screen_coordinates x y s) = real_vidmem s"
    "observers (set_screen_coordinates x y s) = observers s"
  using assms by (simp_all add: set_screen_coordinates_def Let_def)

lemma set_screen_coordinates_confined:
  assumes "screen_ok s" shows "confined s (set_screen_coordinates x y s)" "screen_ok (set_screen_coordinates x y s)"
proof -
  obtain x' y' where n: "normal_position x y = (x', y')" by fastforce
  let ?s1 = "set_char_attrib (screen_x s) (screen_y s) (current_attrib s) s"
  let ?s2 = "?s1\<lparr>screen_x := x', screen_y := y'\<rparr>"
  have "screen_ok ?s2" using normal_position_range [OF n] by (simp add: screen_ok_def)
  then have "confined ?s2 (update_cursor ?s2)" by (rule update_cursor_confined)
  moreover have "confined s ?s1" using assms by (intro set_char_attrib_confined) (auto simp: screen_ok_def)
  then have "confined s ?s2" by (simp add: confined_def)
  ultimately have "confined s (update_cursor ?s2)" by (rule confined_trans [rotated])
  then show "confined s (set_screen_coordinates x y s)" using n by (simp add: set_screen_coordinates_def Let_def)
  show "screen_ok (set_screen_coordinates x y s)"
    using normal_position_range [OF n] by (simp add: screen_ok_def set_screen_coordinates_effect [OF n])
qed

lemma clear_blanks:
  assumes "screen_ok s" "k < 1920"
  shows "smem (clear s) (real_vidmem s + of_nat (2 * k)) = 0x20"
proof -
  let ?m = "memset_word (smem s) (real_vidmem s) (blank s) (of_int (NUM_ROWS * NUM_COLS))"
  let ?s = "s\<lparr>smem := ?m\<rparr>"
  let ?cell = "[ucast (blank s), ucast (drop_bit 8 (blank s))] :: u8 list"
  have n: "unat (of_int (NUM_ROWS * NUM_COLS) :: u32) = 1920" by (simp add: NUM_ROWS_def NUM_COLS_def)
  have m: "?m = store_bytes (smem s) (real_vidmem s) (concat (replicate 1920 ?cell))"
    using rep_stosw_fill [of "of_int (NUM_ROWS * NUM_COLS)" "smem s" "blank s" "real_vidmem s"] n
    by (simp add: memset_word_def)
  have len: "length (concat (replicate j ?cell)) = 2 * j" for j by (induction j) auto
  have nth: "concat (replicate (Suc j + i) ?cell) ! (2 * j) = ucast (blank s)" for i j
  proof -
    have "concat (replicate (j + Suc i) ?cell) = concat (replicate j ?cell) @ ?cell @ concat (replicate i ?cell)"
      by (simp only: replicate_add replicate_Suc concat_append concat.simps)
    moreover have "Suc j + i = j + Suc i" by simp
    ultimately show ?thesis using len [of j] by (simp only: nth_append) simp
  qed
  have b: "(ucast (blank s) :: u8) = 0x20"
    by (rule bit_word_eqI) (auto simp: blank_def bit_simps)
  have "?m (real_vidmem s + of_nat (2 * k)) = 0x20"
    using store_bytes_at [of "2 * k" "concat (replicate 1920 ?cell)" "smem s" "real_vidmem s"] assms(2) len [of 1920]
      nth [of k "1919 - k"] b unfolding m by simp
  moreover have "smem (clear s) (real_vidmem s + of_nat (2 * k)) = ?m (real_vidmem s + of_nat (2 * k))"
  proof (rule ccontr)
    have "confined ?s (clear s)" using assms(1) by (simp add: clear_def set_screen_coordinates_confined screen_ok_def)
    moreover assume "\<not> ?thesis"
    ultimately obtain j where "j < 1920" "(of_nat (2 * k) :: u32) = of_nat (2 * j + 1)"
      unfolding confined_def by auto
    moreover have "unat (of_nat (2 * k) :: u32) = 2 * k" "j < 1920 \<Longrightarrow> unat (of_nat (2 * j + 1) :: u32) = 2 * j + 1"
      using assms(2) by (simp_all only: unat_of_nat_u32)
    ultimately have "2 * k = 2 * j + 1" by metis
    then show False by presburger
  qed
  ultimately show ?thesis by simp
qed

section \<open>Properties\<close>

text \<open>
  \<open>set_screen_coordinates\<close> folds any column into its row (\<open>x mod 80\<close>, carrying
  \<open>x div 80\<close> rows), wraps rows above the screen and stops at the last row, so the cursor is
  always on the screen; and it changes nothing but attribute bytes of the screen's cells.
\<close>

theorem set_screen_coordinates_on_screen:
  assumes "screen_ok s"
  shows "let s' = set_screen_coordinates x y s; r = y + x div 80 in
    screen_x s' = x mod 80 \<and> screen_y s' = (if r < 0 then r mod 24 else min r 23) \<and> screen_ok s' \<and> confined s s'"
  using set_screen_coordinates_confined [OF assms] set_screen_coordinates_effect [OF normal_position_form]
  by (simp add: Let_def)

definition blank_screen :: screen where
  "blank_screen = \<lparr>screen_x = 0, screen_y = 0, cursor_on = True, current_attrib = ATTRIB,
     observers = [False, False, False], real_vidmem = 0xB8000, smem = (\<lambda>_. 0),
     mouse_pos = (0, 0), prev_pos = (0, 1), prev_attrib = 0, no_notify = False\<rparr>"

theorem set_screen_coordinates_on_screen_witness:
  "screen_x (set_screen_coordinates 85 23 blank_screen) = 5 \<and> screen_y (set_screen_coordinates 85 23 blank_screen) = 23"
  using set_screen_coordinates_on_screen [of blank_screen 85 23] by (simp add: blank_screen_def screen_ok_def Let_def)

text \<open>
  After \<open>clear\<close> every one of the 1920 cells of the screen holds a space.
\<close>

theorem clear_all_spaces:
  assumes "screen_ok s"
  shows "\<forall>k < 1920. smem (clear s) (real_vidmem s + of_nat (2 * k)) = 0x20"
  using clear_blanks [OF assms] by blast

theorem clear_all_spaces_witness: "smem (clear blank_screen) 0xB8002 = 0x20"
proof -
  have "screen_ok blank_screen" by (simp add: blank_screen_def screen_ok_def)
  from clear_all_spaces [OF this, rule_format, of 1] show ?thesis by (simp add: blank_screen_def)
qed

end
