(* ===== verification/Rtc.thy ===== *)
theory Rtc
  imports Spinlock Pic Screen Filesystem
begin

text \<open>
  The real-time clock driver \<^verbatim>\<open>rtc.c\<close>: the frequency of the chip, the count of users at
  each rate, and the file operations. The chip is its index register and its registers. The
  helpers \<open>NMI_disable\<close> and \<open>NMI_enable\<close> of \<^verbatim>\<open>interrupt.c\<close> are here too, since they
  work on the same index register. An access outside of \<open>freq_users\<close> and a lock that is never
  released are \<open>None\<close>.
\<close>

section \<open>State\<close>

record rtc =
  current_freq :: u32
  num_tics :: u32
  rtc_lock :: u32
  freq_users :: "u32 list"
  rtc_index :: u8
  rtc_reg :: "u8 \<Rightarrow> u8"
  int_flag :: bool

definition MAX_FREQ_LOG2 :: nat where
  "MAX_FREQ_LOG2 = 10"

definition out_index :: "u8 \<Rightarrow> rtc \<Rightarrow> rtc" where
  "out_index b s = s\<lparr>rtc_index := b\<rparr>"

definition in_data :: "rtc \<Rightarrow> u8" where
  "in_data s = rtc_reg s (rtc_index s AND 0x7F)"

definition out_data :: "u8 \<Rightarrow> rtc \<Rightarrow> rtc" where
  "out_data b s = s\<lparr>rtc_reg := (rtc_reg s)(rtc_index s AND 0x7F := b)\<rparr>"

definition NMI_disable :: "rtc \<Rightarrow> rtc" where
  "NMI_disable s = out_index (rtc_index s OR 0x80) (s\<lparr>int_flag := False\<rparr>)"

definition NMI_enable :: "rtc \<Rightarrow> rtc" where
  "NMI_enable s = out_index (rtc_index s AND 0x7F) s"

section \<open>Users of a rate\<close>

definition log2 :: "u32 \<Rightarrow> u32" where
  "log2 num =
     (if num AND (num - 1) \<noteq> 0 then 0
      else case List.find (\<lambda>i. num = push_bit i 1) [1..<MAX_FREQ_LOG2] of
          Some i \<Rightarrow> of_nat i
        | None \<Rightarrow> push_bit MAX_FREQ_LOG2 1)"

definition bump_users :: "(u32 \<Rightarrow> u32) \<Rightarrow> u32 \<Rightarrow> rtc \<Rightarrow> rtc option" where
  "bump_users f freq s =
     (let i = unat (log2 (if freq = 0 then 2 else freq)) in
      if i < length (freq_users s) then Some (s\<lparr>freq_users := (freq_users s)[i := f (freq_users s ! i)]\<rparr>)
      else None)"

definition inc_users :: "u32 \<Rightarrow> rtc \<Rightarrow> rtc option" where
  "inc_users freq s = bump_users (\<lambda>n. n + 1) freq s"

definition dec_users :: "u32 \<Rightarrow> rtc \<Rightarrow> rtc option" where
  "dec_users freq s = bump_users (\<lambda>n. n - 1) freq s"

definition max_freq :: "rtc \<Rightarrow> int" where
  "max_freq s =
     (case List.find (\<lambda>i. 0 < freq_users s ! i) (rev [1..<Suc MAX_FREQ_LOG2]) of
        Some i \<Rightarrow> 2 ^ i
      | None \<Rightarrow> 2)"

section \<open>Setting the rate\<close>

partial_function (option) rate_loop :: "int \<Rightarrow> int \<Rightarrow> int \<Rightarrow> int option" where
  "rate_loop i freq rate = (if i \<noteq> freq then rate_loop (i div 2) freq (rate + 1) else Some rate)"

definition rtc_set_freq :: "int \<Rightarrow> rtc \<Rightarrow> (rtc \<times> u32) option" where
  "rtc_set_freq freq s =
     (if freq < 2 \<or> freq > 1024 then Some (s, - 1)
      else if freq AND (freq - 1) \<noteq> 0 then Some (s, - 1)
      else do {
        l \<leftarrow> spin_lock (rtc_lock s);
        let s1 = s\<lparr>rtc_lock := spin_unlock l, current_freq := of_int freq\<rparr>;
        rate \<leftarrow> rate_loop 32768 freq 1;
        let s2 = out_index 0x0A (NMI_disable s1);
        let prev = in_data s2;
        let s3 = out_data ((prev AND 0xF0) OR of_int rate) (out_index 0x0A s2);
        Some (NMI_enable s3, 0)
      })"

definition rtc_init :: "rtc \<Rightarrow> (rtc \<times> u32) option" where
  "rtc_init s = do {
     let s1 = out_index 0x0B (NMI_disable s);
     let prev = in_data s1;
     let s2 = out_data (prev OR 0x40) (out_index 0x0B s1);
     (s3, _) \<leftarrow> rtc_set_freq 2 s2;
     Some (NMI_enable s3, 0)
   }"

section \<open>File operations\<close>

definition rtc_open :: "rtc \<Rightarrow> (rtc \<times> u32) option" where
  "rtc_open s = do {
     s1 \<leftarrow> inc_users 2 s;
     (s2, _) \<leftarrow> rtc_set_freq (max_freq s1) s1;
     Some (s2, 0)
   }"

definition rtc_close :: "file_info \<Rightarrow> rtc \<Rightarrow> (rtc \<times> u32) option" where
  "rtc_close file s = do {
     s1 \<leftarrow> dec_users (pos file) s;
     (s2, _) \<leftarrow> rtc_set_freq (max_freq s1) s1;
     Some (s2, 0)
   }"

text \<open>The frequency a write asks for: a signed number of 1, 2 or 4 bytes.\<close>

definition write_freq :: "memory \<Rightarrow> u32 \<Rightarrow> int \<Rightarrow> int option" where
  "write_freq m buf nbytes =
     (if buf = 0 \<or> nbytes = 0 then None
      else if nbytes = 1 then Some (sint (m buf))
      else if nbytes = 2 then Some (sint (load16 m buf))
      else if nbytes = 4 then Some (sint (load32 m buf))
      else None)"

definition rtc_write :: "file_info \<Rightarrow> memory \<Rightarrow> u32 \<Rightarrow> int \<Rightarrow> rtc \<Rightarrow> (rtc \<times> file_info \<times> u32) option" where
  "rtc_write file m buf nbytes s =
     (case write_freq m buf nbytes of
        None \<Rightarrow> Some (s, file, - 1)
      | Some freq \<Rightarrow> do {
          (s1, r) \<leftarrow> rtc_set_freq freq s;
          s2 \<leftarrow> dec_users (pos file) s1;
          let file1 = file\<lparr>pos := (if r = 0 then of_int freq else 0)\<rparr>;
          s3 \<leftarrow> inc_users (pos file1) s2;
          Some (s3, file1, if r = 0 then 0 else - 1)
        })"

text \<open>
  The handler: cursor blinking, the acknowledgement to the chip and to the interrupt controller,
  and the tick. A zero divisor traps. \<open>rtc_read\<close> waits while the handler runs; the list says
  how many ticks arrive in each turn of its loop.
\<close>

definition rtc_handler :: "rtc \<Rightarrow> screen \<Rightarrow> pic \<Rightarrow> (rtc \<times> screen \<times> pic) option" where
  "rtc_handler s scr p =
     (if current_freq s div 2 = 0 then None
      else do {
        let scr1 = (if num_tics s mod (current_freq s div 2) = 0 then scr\<lparr>cursor_on := \<not> cursor_on scr\<rparr> else scr);
        let scr2 = update_cursor scr1;
        let s1 = out_index 0x0C s;
        let p1 = send_eoi 8 p;
        l \<leftarrow> spin_lock (rtc_lock s1);
        Some (s1\<lparr>num_tics := num_tics s1 + 1, rtc_lock := spin_unlock l\<rparr>, scr2, p1)
      })"

definition desired_tics :: "file_info \<Rightarrow> rtc \<Rightarrow> u32" where
  "desired_tics file s = num_tics s + current_freq s div (if pos file = 0 then 2 else pos file)"

fun rtc_wait :: "u32 \<Rightarrow> nat list \<Rightarrow> rtc \<Rightarrow> rtc option" where
  "rtc_wait target ticks s =
     (if num_tics s < target then
        (case ticks of [] \<Rightarrow> None | n # ns \<Rightarrow> rtc_wait target ns (s\<lparr>num_tics := num_tics s + of_nat n\<rparr>))
      else Some s)"

definition rtc_read :: "file_info \<Rightarrow> nat list \<Rightarrow> rtc \<Rightarrow> (rtc \<times> u32) option" where
  "rtc_read file ticks s = do {
     s1 \<leftarrow> rtc_wait (desired_tics file s) ticks (s\<lparr>int_flag := True\<rparr>);
     Some (s1\<lparr>int_flag := False\<rparr>, 0)
   }"

section \<open>Rates\<close>

lemma and_pred_power: "0 < n \<Longrightarrow> n AND (n - 1) = 0 \<Longrightarrow> \<exists>k. n = 2 ^ k" for n :: nat
proof (induction n rule: less_induct)
  case (less n)
  have half: "(a AND b) div 2 = a div 2 AND b div 2" for a b :: nat
    using drop_bit_and [of 1 a b] by (simp add: drop_bit_eq_div)
  show ?case
  proof (cases "even n")
    case True
    then obtain m where m: "n = 2 * m" by auto
    have "m AND (m - 1) = 0"
    proof -
      have "n - 1 = 2 * (m - 1) + 1" using m less.prems by simp
      then have "(n AND (n - 1)) div 2 = m AND (m - 1)" using m half [of n "n - 1"] by simp
      then show ?thesis using less.prems by simp
    qed
    then obtain k where "m = 2 ^ k" using less.IH [of m] less.prems m by auto
    then show ?thesis using m by (intro exI [of _ "Suc k"]) simp
  next
    case False
    then obtain m where m: "n = 2 * m + 1" by (auto elim: oddE)
    have "(n AND (n - 1)) div 2 = m AND m" using m half [of n "n - 1"] by simp
    then have "m = 0" using less.prems by simp
    then show ?thesis using m by (intro exI [of _ 0]) simp
  qed
qed

definition rate_ok :: "int \<Rightarrow> bool" where
  "rate_ok f \<longleftrightarrow> (\<exists>k \<in> {1..10 :: nat}. f = 2 ^ k)"

lemma rate_ok_iff: "rate_ok f \<longleftrightarrow> 2 \<le> f \<and> f \<le> 1024 \<and> f AND (f - 1) = 0"
proof
  assume "rate_ok f"
  then obtain k :: nat where k: "f = 2 ^ k" "1 \<le> k" "k \<le> 10" by (auto simp: rate_ok_def)
  have "f AND (f - 1) = 0"
    unfolding k(1) using bit_eq_iff [of "2 ^ k AND (2 ^ k - 1) :: int" 0] by (auto simp: bit_simps bit_exp_iff bit_mask_iff simp flip: mask_eq_exp_minus_1)
  moreover have "2 ^ 1 \<le> (2 :: int) ^ k" "(2 :: int) ^ k \<le> 2 ^ 10" using k by (intro power_increasing; simp)+
  ultimately show "2 \<le> f \<and> f \<le> 1024 \<and> f AND (f - 1) = 0" by (simp add: k(1))
next
  assume f: "2 \<le> f \<and> f \<le> 1024 \<and> f AND (f - 1) = 0"
  then have "int (nat f - 1) = f - 1" by (subst of_nat_diff) (use f in auto)
  then have "int (nat f AND (nat f - 1)) = f AND (f - 1)" using f by (simp add: of_nat_and_eq)
  then have "nat f AND (nat f - 1) = 0" using f by simp
  then obtain k where k: "nat f = 2 ^ k" using and_pred_power [of "nat f"] f by auto
  then have fk: "f = 2 ^ k" using f by (metis int_nat_eq of_nat_numeral of_nat_power order_trans zero_le_numeral)
  have "k \<noteq> 0" using f fk by (cases k) auto
  moreover have "k \<le> 10"
  proof (rule ccontr)
    assume "\<not> k \<le> 10"
    then have "(2 :: int) ^ 11 \<le> 2 ^ k" by (intro power_increasing) auto
    then show False using f fk by simp
  qed
  ultimately show "rate_ok f" using fk by (auto simp: rate_ok_def)
qed

lemma rate_loop_steps: "rate_loop (2 ^ (k + j)) (2 ^ k) r = Some (r + int j)"
proof (induction j arbitrary: r)
  case 0
  show ?case by (subst rate_loop.simps) simp
next
  case (Suc j)
  have "(2 :: int) ^ k < 2 ^ (k + Suc j)" by (rule power_strict_increasing) simp_all
  then have "(2 :: int) ^ (k + Suc j) \<noteq> 2 ^ k" by linarith
  moreover have "(2 :: int) ^ (k + Suc j) div 2 = 2 ^ (k + j)" by simp
  ultimately show ?case using Suc by (subst rate_loop.simps) simp
qed

lemma rate_loop_power: "1 \<le> k \<Longrightarrow> k \<le> 10 \<Longrightarrow> rate_loop 32768 (2 ^ k) 1 = Some (16 - int k)"
  using rate_loop_steps [of k "15 - k" 1] by (simp add: of_nat_diff)

text \<open>
  The rate of the chip's periodic interrupt, by its data sheet: the low four bits of register A are the
  divider \<open>r\<close> of 32768 Hz by \<open>2 ^ (r - 1)\<close>. Setting a rate must leave the rest of the registers alone.
\<close>

definition chip_freq :: "rtc \<Rightarrow> int" where
  "chip_freq s = 32768 div 2 ^ (unat (rtc_reg s 0x0A AND 0x0F) - 1)"

definition same_but_rate :: "rtc \<Rightarrow> rtc \<Rightarrow> bool" where
  "same_but_rate s s' \<longleftrightarrow> rtc_reg s' 0x0A AND 0xF0 = rtc_reg s 0x0A AND 0xF0 \<and> (\<forall>r. r \<noteq> 0x0A \<longrightarrow> rtc_reg s' r = rtc_reg s r)"

lemma nibbles:
  fixes x c :: u8
  shows "(x AND 0xF0 OR c) AND 0x0F = c AND 0x0F" "(x AND 0xF0 OR c) AND 0xF0 = (x AND 0xF0) OR (c AND 0xF0)"
proof -
  have "(x AND 0xF0) AND 0x0F = x AND (0xF0 AND 0x0F)" "(x AND 0xF0) AND 0xF0 = x AND (0xF0 AND 0xF0)" by (simp_all only: and.assoc)
  then have n: "(x AND 0xF0) AND 0x0F = 0" "(x AND 0xF0) AND 0xF0 = x AND 0xF0" by simp_all
  show "(x AND 0xF0 OR c) AND 0x0F = c AND 0x0F" "(x AND 0xF0 OR c) AND 0xF0 = (x AND 0xF0) OR (c AND 0xF0)"
    unfolding bit.conj_disj_distrib2 n by simp_all
qed

lemma divider:
  assumes "1 \<le> k" "k \<le> (10 :: nat)"
  shows "of_int (16 - int k) AND 0x0F = (of_int (16 - int k) :: u8)" "of_int (16 - int k) AND 0xF0 = (0 :: u8)"
    "32768 div 2 ^ (unat (of_int (16 - int k) :: u8) - 1) = (2 :: int) ^ k"
proof -
  have "k = 1 \<or> k = 2 \<or> k = 3 \<or> k = 4 \<or> k = 5 \<or> k = 6 \<or> k = 7 \<or> k = 8 \<or> k = 9 \<or> k = 10" using assms by presburger
  then show "of_int (16 - int k) AND 0x0F = (of_int (16 - int k) :: u8)" "of_int (16 - int k) AND 0xF0 = (0 :: u8)"
    "32768 div 2 ^ (unat (of_int (16 - int k) :: u8) - 1) = (2 :: int) ^ k" by (elim disjE; simp)+
qed

text \<open>What a valid rate leaves in the state, and an invalid one.\<close>

lemma rtc_set_freq_ok:
  assumes "rate_ok f" "rtc_lock s = 0"
  obtains s' where "rtc_set_freq f s = Some (s', 0)" "current_freq s' = of_int f" "freq_users s' = freq_users s"
    "num_tics s' = num_tics s" "rtc_lock s' = 0" "chip_freq s' = f" "same_but_rate s s'"
proof -
  obtain k where k: "1 \<le> k" "k \<le> (10 :: nat)" "f = 2 ^ k" using assms(1) by (auto simp: rate_ok_def)
  let ?s = "NMI_enable (out_data ((rtc_reg s 0x0A AND 0xF0) OR of_int (16 - int k))
    (out_index 0x0A (NMI_disable (s\<lparr>rtc_lock := spin_unlock 1, current_freq := of_int f\<rparr>))))"
  have reg: "rtc_reg ?s = (rtc_reg s)(0x0A := (rtc_reg s 0x0A AND 0xF0) OR of_int (16 - int k))"
    by (simp add: NMI_disable_def NMI_enable_def out_index_def out_data_def)
  have "rtc_set_freq f s = Some (?s, 0)"
    using assms rate_loop_power [OF k(1,2)] k(3)
    by (simp add: rate_ok_iff rtc_set_freq_def spin_lock_free Let_def NMI_disable_def in_data_def out_index_def)
  moreover have "chip_freq ?s = f" "same_but_rate s ?s"
    using divider [OF k(1,2)] k(3) unfolding chip_freq_def same_but_rate_def reg by (simp_all add: nibbles)
  ultimately show ?thesis using that [of ?s] by (simp add: NMI_disable_def NMI_enable_def out_index_def out_data_def spin_unlock_def)
qed

lemma rtc_set_freq_bad: "\<not> rate_ok f \<Longrightarrow> rtc_set_freq f s = Some (s, - 1)"
  by (auto simp: rate_ok_iff rtc_set_freq_def)

section \<open>Counting the users\<close>

text \<open>
  \<open>tracks s ps\<close>: \<open>ps\<close> are the positions (rates, 0 for the default) of the open clock
  files, and \<open>freq_users\<close> counts them by rate. The rates a file can hold without leaving the
  array are 2 to 512.
\<close>

definition slot :: "u32 \<Rightarrow> nat" where
  "slot p = unat (log2 (if p = 0 then 2 else p))"

definition file_rate :: "u32 \<Rightarrow> bool" where
  "file_rate p \<longleftrightarrow> p = 0 \<or> (\<exists>k \<in> {1..9}. p = push_bit k 1)"

definition tracks :: "rtc \<Rightarrow> u32 list \<Rightarrow> bool" where
  "tracks s ps \<longleftrightarrow> rtc_lock s = 0 \<and> length (freq_users s) = 11 \<and> (\<forall>p \<in> set ps. file_rate p) \<and> length ps < 2 ^ 32 - 1 \<and>
     (\<forall>i < 11. freq_users s ! i = of_nat (length (filter (\<lambda>p. slot p = i) ps)))"

lemma log2_power:
  assumes "1 \<le> k" "k \<le> 9" shows "log2 (push_bit k 1) = of_nat k"
proof -
  have b: "push_bit k 1 AND (push_bit k 1 - 1) = (0 :: u32)"
  proof -
    have "push_bit k 1 - 1 = (mask k :: u32)" by (simp add: mask_eq_exp_minus_1 push_bit_eq_mult)
    then show ?thesis by (auto intro!: bit_word_eqI simp: bit_simps)
  qed
  have inj: "push_bit i 1 = (push_bit k 1 :: u32) \<longleftrightarrow> i = k" if "i < 10" for i
  proof -
    have "bit (push_bit i 1 :: u32) k \<longleftrightarrow> i = k" "bit (push_bit k 1 :: u32) k"
      using that assms by (auto simp: bit_simps)
    then show ?thesis by metis
  qed
  have "List.find (\<lambda>i. push_bit k 1 = (push_bit i 1 :: u32)) [1..<10] = Some k"
  proof (cases "List.find (\<lambda>i. push_bit k 1 = (push_bit i 1 :: u32)) [1..<10]")
    case None
    moreover have "k \<in> set [1..<10]" using assms by simp
    ultimately show ?thesis unfolding find_None_iff by blast
  next
    case (Some i)
    then obtain ys zs where "[1..<10] = ys @ i # zs" and e: "push_bit k 1 = (push_bit i 1 :: u32)" by (rule find_split)
    then have "i \<in> set [1..<10]" by (metis in_set_conv_decomp)
    with e show ?thesis using Some inj [of i] by auto
  qed
  then show ?thesis using b by (simp add: log2_def MAX_FREQ_LOG2_def)
qed

lemma slot_range: "file_rate p \<Longrightarrow> 1 \<le> slot p \<and> slot p \<le> 9 \<and> (if p = 0 then 2 else p) = push_bit (slot p) 1"
proof -
  assume "file_rate p"
  then obtain k where k: "(if p = 0 then 2 else p) = push_bit k 1" "1 \<le> k" "k \<le> 9"
    by (cases "p = 0") (auto simp: file_rate_def intro: that [of 1])
  then have "slot p = k" unfolding slot_def k(1) log2_power [OF k(2,3)] by (simp add: unat_of_nat_u32)
  with k show ?thesis by simp
qed

lemma tracks_inc:
  assumes T: "tracks s ps" and p: "file_rate p" and room: "length ps + 1 < 2 ^ 32 - 1"
  obtains s' where "inc_users p s = Some s'" "tracks s' (p # ps)" "current_freq s' = current_freq s" "rtc_reg s' = rtc_reg s"
proof -
  have i: "slot p < 11" "slot p < length (freq_users s)" using slot_range [OF p] T by (auto simp: tracks_def)
  let ?s = "s\<lparr>freq_users := (freq_users s)[slot p := freq_users s ! slot p + 1]\<rparr>"
  have "inc_users p s = Some ?s" using i by (simp add: inc_users_def bump_users_def slot_def Let_def)
  moreover have "freq_users ?s ! j = of_nat (length (filter (\<lambda>q. slot q = j) (p # ps)))" if "j < 11" for j
    using T that i by (cases "j = slot p") (simp_all add: tracks_def)
  then have "tracks ?s (p # ps)" using T p room unfolding tracks_def by simp
  ultimately show ?thesis using that by simp
qed

lemma filter_remove1_same:
  "p \<in> set ps \<Longrightarrow> length (filter (\<lambda>q. f q = f p) ps) = Suc (length (filter (\<lambda>q. f q = f p) (remove1 p ps)))"
proof (induction ps)
  case (Cons a ps)
  then show ?case by (cases "a = p") simp_all
qed simp

lemma filter_remove1_other: "f p \<noteq> j \<Longrightarrow> filter (\<lambda>q. f q = j) (remove1 p ps) = filter (\<lambda>q. f q = j) ps"
proof (induction ps)
  case (Cons a ps)
  then show ?case by (cases "a = p") simp_all
qed simp

lemma tracks_dec:
  assumes T: "tracks s ps" and p: "p \<in> set ps"
  obtains s' where "dec_users p s = Some s'" "tracks s' (remove1 p ps)" "current_freq s' = current_freq s" "rtc_reg s' = rtc_reg s"
proof -
  have fr: "file_rate p" using T p by (auto simp: tracks_def)
  have i: "slot p < 11" "slot p < length (freq_users s)" using slot_range [OF fr] T by (auto simp: tracks_def)
  let ?s = "s\<lparr>freq_users := (freq_users s)[slot p := freq_users s ! slot p - 1]\<rparr>"
  have d: "dec_users p s = Some ?s" using i by (simp add: dec_users_def bump_users_def slot_def Let_def)
  have "freq_users s ! slot p - 1 = of_nat (length (filter (\<lambda>q. slot q = slot p) (remove1 p ps)))"
  proof -
    have "length (filter (\<lambda>q. slot q = slot p) ps) = Suc (length (filter (\<lambda>q. slot q = slot p) (remove1 p ps)))"
      using p by (rule filter_remove1_same)
    then show ?thesis using T i by (simp add: tracks_def)
  qed
  moreover have "filter (\<lambda>q. slot q = j) (remove1 p ps) = filter (\<lambda>q. slot q = j) ps" if "slot p \<noteq> j" for j
    using that by (rule filter_remove1_other)
  ultimately have "freq_users ?s ! j = of_nat (length (filter (\<lambda>q. slot q = j) (remove1 p ps)))" if "j < 11" for j
    using T that i by (cases "j = slot p") (simp_all add: tracks_def)
  then have "tracks ?s (remove1 p ps)"
    using T length_remove1 [of p ps] set_remove1_subset [of p ps] unfolding tracks_def by auto
  with d show ?thesis using that [of ?s] by simp
qed

text \<open>\<open>max_freq\<close> is the highest rate of an open file, 2 when there is none.\<close>

definition top_rate :: "u32 list \<Rightarrow> int" where
  "top_rate ps = Max (insert 2 (uint ` set ps))"

lemma slot_rate: "file_rate p \<Longrightarrow> 2 ^ slot p = (if p = 0 then 2 else uint p)"
proof -
  assume "file_rate p"
  then have s: "slot p \<le> 9" "(if p = 0 then 2 else p) = push_bit (slot p) 1" using slot_range by simp_all
  have "(2 :: nat) ^ slot p \<le> 2 ^ 9" using s(1) by (intro power_increasing) simp_all
  then have "(2 :: nat) ^ slot p < 2 ^ 32" by simp
  then have "unat (2 ^ slot p :: u32) = 2 ^ slot p" using unat_of_nat_u32 [of "2 ^ slot p"] by simp
  then have "uint (push_bit (slot p) 1 :: u32) = 2 ^ slot p" by (simp add: push_bit_eq_mult uint_nat)
  then show ?thesis using s(2) by (cases "p = 0") simp_all
qed

lemma used_slot:
  assumes "tracks s ps" "i < 11"
  shows "0 < freq_users s ! i \<longleftrightarrow> (\<exists>p \<in> set ps. slot p = i)"
proof -
  let ?n = "length (filter (\<lambda>p. slot p = i) ps)"
  have "?n < 4294967296" using assms(1) le_less_trans [OF length_filter_le [of "\<lambda>p. slot p = i" ps]] by (simp add: tracks_def)
  then have "unat (freq_users s ! i) = ?n" using assms by (simp add: tracks_def unat_of_nat_u32)
  then have "0 < freq_users s ! i \<longleftrightarrow> 0 < ?n" by (metis unat_0 word_less_nat_alt)
  then show ?thesis by (auto simp: filter_empty_conv)
qed

lemma max_freq_top:
  assumes T: "tracks s ps" shows "max_freq s = top_rate ps" "rate_ok (max_freq s)"
proof -
  let ?P = "\<lambda>i. 0 < freq_users s ! i" and ?is = "rev [1..<Suc MAX_FREQ_LOG2]"
  have fr: "file_rate p" if "p \<in> set ps" for p using T that by (simp add: tracks_def)
  have "max_freq s = top_rate ps \<and> rate_ok (max_freq s)"
  proof (cases "List.find ?P ?is")
    case None
    then have "\<forall>i \<in> set ?is. \<not> ?P i" unfolding find_None_iff by blast
    then have "ps = []"
      using used_slot [OF T] slot_range [OF fr] by (cases ps) (fastforce simp: MAX_FREQ_LOG2_def)+
    then show ?thesis using None by (auto simp: max_freq_def top_rate_def rate_ok_def intro!: bexI [of _ 1])
  next
    case (Some i)
    then obtain ys zs where sp: "?is = ys @ i # zs" "?P i" "\<forall>y \<in> set ys. \<not> ?P y" by (rule find_split)
    then have "i \<in> set ?is" by (metis in_set_conv_decomp)
    then have i: "1 \<le> i" "i \<le> 10" by (auto simp: MAX_FREQ_LOG2_def)
    have m: "max_freq s = 2 ^ i" using Some by (simp add: max_freq_def)
    have above: "\<not> ?P j" if "i < j" "j \<le> 10" for j
    proof -
      have "sorted_wrt (>) ?is" unfolding sorted_wrt_rev by (rule sorted_wrt_upt)
      then have "j \<notin> set (i # zs)" using that sp(1) by (auto simp: sorted_wrt_append)
      moreover have "j \<in> set ?is" using that i by (auto simp: MAX_FREQ_LOG2_def)
      ultimately have "j \<in> set ys" unfolding sp(1) by simp
      then show ?thesis using sp(3) by blast
    qed
    obtain p where p: "p \<in> set ps" "slot p = i" using used_slot [OF T, of i] sp(2) i by auto
    have "slot q \<le> i" if "q \<in> set ps" for q
      using above [of "slot q"] used_slot [OF T, of "slot q"] slot_range [OF fr [OF that]] that by (cases "slot q \<le> i") auto
    then have "(2 :: int) ^ slot q \<le> 2 ^ i" if "q \<in> set ps" for q using that by (intro power_increasing) auto
    then have "uint q \<le> 2 ^ i" if "q \<in> set ps" for q using that slot_rate [OF fr [OF that]] by (cases "q = 0") fastforce+
    moreover have "(2 :: int) \<le> 2 ^ i" using i by (cases i) auto
    ultimately have "top_rate ps = 2 ^ i"
      unfolding top_rate_def using p slot_rate [OF fr [OF p(1)]] by (intro Max_eqI) (auto split: if_splits)
    then show ?thesis using m i by (auto simp: rate_ok_def)
  qed
  then show "max_freq s = top_rate ps" "rate_ok (max_freq s)" by blast+
qed

lemma settle_rate:
  assumes "tracks s qs"
  shows "\<exists>s'. rtc_set_freq (max_freq s) s = Some (s', 0) \<and> tracks s' qs \<and> current_freq s' = of_int (top_rate qs) \<and>
    chip_freq s' = top_rate qs \<and> same_but_rate s s'"
proof -
  have "rtc_lock s = 0" using assms by (simp add: tracks_def)
  with max_freq_top(2) [OF assms] obtain s' where "rtc_set_freq (max_freq s) s = Some (s', 0)"
    "current_freq s' = of_int (max_freq s)" "freq_users s' = freq_users s" "num_tics s' = num_tics s" "rtc_lock s' = 0"
    "chip_freq s' = max_freq s" "same_but_rate s s'" by (rule rtc_set_freq_ok)
  then show ?thesis using assms max_freq_top(1) [OF assms] by (simp add: tracks_def)
qed

lemma rtc_open_tracks:
  assumes "tracks s ps" "length ps + 1 < 2 ^ 32 - 1"
  shows "\<exists>s'. rtc_open s = Some (s', 0) \<and> tracks s' (2 # ps) \<and> current_freq s' = of_int (top_rate (2 # ps)) \<and>
    chip_freq s' = top_rate (2 # ps) \<and> same_but_rate s s'"
proof -
  have two: "file_rate 2" by (auto simp: file_rate_def intro: bexI [of _ 1])
  obtain s1 where "inc_users 2 s = Some s1" "tracks s1 (2 # ps)" "rtc_reg s1 = rtc_reg s" using assms(1) two assms(2) by (rule tracks_inc)
  then show ?thesis using settle_rate [of s1 "2 # ps"] by (auto simp: rtc_open_def same_but_rate_def)
qed

section \<open>Properties\<close>

definition idle_clock :: rtc where
  "idle_clock = \<lparr>current_freq = 2, num_tics = 0, rtc_lock = 0, freq_users = replicate 11 0, rtc_index = 0,
     rtc_reg = (\<lambda>_. 0x26), int_flag = True\<rparr>"

lemma idle_clock_tracks: "tracks idle_clock []"
  by (simp add: tracks_def idle_clock_def)

definition clock_file :: "u32 \<Rightarrow> file_info" where
  "clock_file p = \<lparr>f_ops = Some Rtc_funcs, inode_ptr = 0, pos = p, f_type = FileRTC, can_write = True, can_read = True, in_use = True\<rparr>"

text \<open>
  \<open>rtc_set_freq\<close> accepts exactly the powers of two from 2 to 1024: it then sets the
  current frequency and leaves the lock free and the user counts alone, and for everything
  else returns \<open>- 1\<close> and changes nothing. The loop that computes the divider ends.
\<close>

theorem rtc_set_freq_correct:
  assumes "rtc_lock s = 0"
  shows "if \<exists>k \<in> {1..10 :: nat}. freq = 2 ^ k
    then \<exists>s'. rtc_set_freq freq s = Some (s', 0) \<and> current_freq s' = of_int freq \<and> freq_users s' = freq_users s \<and>
      num_tics s' = num_tics s \<and> rtc_lock s' = 0
    else rtc_set_freq freq s = Some (s, - 1)"
proof (cases "rate_ok freq")
  case True
  then obtain s' where "rtc_set_freq freq s = Some (s', 0)" "current_freq s' = of_int freq"
    "freq_users s' = freq_users s" "num_tics s' = num_tics s" "rtc_lock s' = 0" using assms by (rule rtc_set_freq_ok)
  with True show ?thesis unfolding rate_ok_def by simp
next
  case False
  then show ?thesis using rtc_set_freq_bad [OF False] unfolding rate_ok_def by simp
qed

theorem rtc_set_freq_correct_witness: "rtc_set_freq 3 idle_clock = Some (idle_clock, - 1)"
proof -
  have "\<not> (\<exists>k \<in> {1..10 :: nat}. (3 :: int) = 2 ^ k)" using rate_ok_iff [of 3] by (simp add: rate_ok_def)
  moreover have "rtc_lock idle_clock = 0" by (simp add: idle_clock_def)
  ultimately show ?thesis using rtc_set_freq_correct [of idle_clock 3] by simp
qed



text \<open>
  A write of a valid rate up to 512 records it as the file's rate and in the counts, but sets
  the chip to that rate even when another open file asked for a higher one.
\<close>

theorem rtc_write_sets_rate:
  assumes "tracks s ps" "pos file \<in> set ps" "write_freq m buf nbytes = Some (2 ^ k)" "1 \<le> k" "k \<le> (9 :: nat)"
  shows "\<exists>s'. rtc_write file m buf nbytes s = Some (s', file\<lparr>pos := push_bit k 1\<rparr>, 0) \<and>
    tracks s' (push_bit k 1 # remove1 (pos file) ps) \<and> current_freq s' = push_bit k 1"
proof -
  have ok: "rate_ok (2 ^ k)" and l: "rtc_lock s = 0" using assms by (auto simp: rate_ok_def tracks_def)
  have w: "(of_int (2 ^ k) :: u32) = push_bit k 1" by (simp add: push_bit_eq_mult)
  obtain s1 where s1: "rtc_set_freq (2 ^ k) s = Some (s1, 0)" "current_freq s1 = of_int (2 ^ k)"
    "freq_users s1 = freq_users s" "num_tics s1 = num_tics s" "rtc_lock s1 = 0" using ok l by (rule rtc_set_freq_ok)
  have t1: "tracks s1 ps" using assms(1) s1 by (simp add: tracks_def)
  obtain s2 where s2: "dec_users (pos file) s1 = Some s2" "tracks s2 (remove1 (pos file) ps)" "current_freq s2 = current_freq s1"
    using t1 assms(2) by (rule tracks_dec)
  have fr: "file_rate (push_bit k 1)" using assms(4,5) by (auto simp: file_rate_def)
  have room: "length (remove1 (pos file) ps) + 1 < 2 ^ 32 - 1"
  proof -
    have "length (remove1 (pos file) ps) + 1 = length ps"
      using assms(2) length_pos_if_in_set [OF assms(2)] by (simp add: length_remove1)
    moreover have "length ps < 2 ^ 32 - 1" using assms(1) by (simp add: tracks_def)
    ultimately show ?thesis by simp
  qed
  obtain s3 where "inc_users (push_bit k 1) s2 = Some s3" "tracks s3 (push_bit k 1 # remove1 (pos file) ps)"
    "current_freq s3 = current_freq s2" using s2(2) fr room by (rule tracks_inc)
  then show ?thesis using assms(3) s1 s2 w by (simp add: rtc_write_def Let_def)
qed

theorem rtc_write_sets_rate_witness:
  "\<exists>s s'. tracks s [512, 2] \<and> rtc_write (clock_file 2) (\<lambda>_. 4) 0x1000 1 s = Some (s', clock_file 4, 0) \<and>
     current_freq s' = 4 \<and> tracks s' [4, 512]"
proof -
  have r: "file_rate 512" "file_rate 2"
    by (auto simp: file_rate_def intro: bexI [of _ 9] bexI [of _ 1])
  obtain s1 where s1: "tracks s1 [2]" using idle_clock_tracks r(2) tracks_inc [of idle_clock "[]" 2] by auto
  obtain s where s: "tracks s [512, 2]" using s1 r(1) tracks_inc [of s1 "[2]" 512] by auto
  have "write_freq (\<lambda>_. 4) 0x1000 1 = Some (2 ^ 2)" by (simp add: write_freq_def)
  moreover have "pos (clock_file 2) \<in> set [512, 2]" by (simp add: clock_file_def)
  ultimately show ?thesis using rtc_write_sets_rate [OF s, of "clock_file 2" "\<lambda>_. 4" "0x1000" 1 2] s
    by (auto simp: clock_file_def)
qed

text \<open>
  The highest rate, 1024, is accepted but its logarithm is taken for 1024 as well, so that
  counting the user goes outside of the array of eleven counters.
\<close>

theorem rtc_write_1024_out_of_bounds:
  assumes "tracks s ps" "pos file \<in> set ps" "write_freq m buf nbytes = Some 1024"
  shows "rtc_write file m buf nbytes s = None"
proof -
  have ok: "rate_ok 1024" and l: "rtc_lock s = 0" using assms by (auto simp: rate_ok_iff tracks_def)
  obtain s1 where s1: "rtc_set_freq 1024 s = Some (s1, 0)" "freq_users s1 = freq_users s" "rtc_lock s1 = 0"
    using ok l by (rule rtc_set_freq_ok)
  have t1: "tracks s1 ps" using assms(1) s1 by (simp add: tracks_def)
  obtain s2 where s2: "dec_users (pos file) s1 = Some s2" "tracks s2 (remove1 (pos file) ps)"
    using t1 assms(2) by (rule tracks_dec)
  have "log2 1024 = 1024" by (simp add: log2_def MAX_FREQ_LOG2_def upt_rec)
  then have "inc_users 1024 s2 = None" using s2(2) by (simp add: inc_users_def bump_users_def tracks_def)
  then show ?thesis using assms(3) s1 s2 by (simp add: rtc_write_def Let_def)
qed

theorem rtc_write_1024_out_of_bounds_witness:
  "\<exists>s. rtc_write (clock_file 2) (store32 (\<lambda>_. 0) 0x1000 1024) 0x1000 4 s = None \<and> tracks s [2]"
proof -
  have "file_rate 2" by (auto simp: file_rate_def intro: bexI [of _ 1])
  then obtain s where s: "tracks s [2]" using idle_clock_tracks tracks_inc [of idle_clock "[]" 2] by auto
  have "write_freq (store32 (\<lambda>_. 0) 0x1000 1024) 0x1000 4 = Some 1024" by (simp add: write_freq_def load32_store32)
  with rtc_write_1024_out_of_bounds [OF s, of "clock_file 2"] s show ?thesis by (auto simp: clock_file_def)
qed

end
