(* ===== verification/Mouse.thy ===== *)
theory Mouse
  imports Screen Pic
begin

text \<open>
  The mouse driver \<^verbatim>\<open>mouse.c\<close>. The position, the cell it was in before and the attribute
  saved from under the pointer are fields of the screen record, because the screen notifies
  \<open>attrib_changed\<close> of every attribute it changes. \<open>inq\<close> are the bytes the controller
  has to deliver, \<open>outq\<close> the bytes written to its ports; a read that no byte answers does
  not return (\<open>None\<close>), and the wait before a write is taken to end. The registered click
  handlers are named. They work on the whole kernel, so this theory has the part of \<open>mouse_handler\<close>
  that reads a packet and moves the pointer, with the calls that are then due, in order; the handler that
  makes them is in \<open>Process\<close>.
\<close>

section \<open>State\<close>

datatype click_handler = Line_click | Status_click

datatype read_status = ReadSuccess | ReadFailure

record mouse =
  mscr :: screen
  inq :: "u8 list"
  outq :: port_log
  last_read :: read_status
  left_click_handler :: "click_handler option list"
  right_click_handler :: "click_handler option list"

definition X_SCALE :: int where
  "X_SCALE = 4"

definition Y_SCALE :: int where
  "Y_SCALE = 8"

definition VIDEO_NUM_ROWS :: int where
  "VIDEO_NUM_ROWS = NUM_ROWS + 1"

definition VIDEO_NUM_COLS :: int where
  "VIDEO_NUM_COLS = NUM_COLS"

definition MOUSE_CURSOR :: u8 where
  "MOUSE_CURSOR = 0x9F"

definition MAX_HANDLERS :: nat where
  "MAX_HANDLERS = 3"

section \<open>The controller\<close>

definition write_byte :: "u8 \<Rightarrow> u16 \<Rightarrow> mouse \<Rightarrow> mouse" where
  "write_byte data port m = m\<lparr>outq := outq m @ [(port, data)]\<rparr>"

definition send_command :: "u8 \<Rightarrow> u16 \<Rightarrow> mouse \<Rightarrow> mouse" where
  "send_command command port m = write_byte command port (write_byte 0xD4 0x64 m)"

definition read_byte :: "mouse \<Rightarrow> (mouse \<times> u8) option" where
  "read_byte m = (case inq m of [] \<Rightarrow> None | b # bs \<Rightarrow> Some (m\<lparr>inq := bs, last_read := ReadSuccess\<rparr>, b))"

definition try_read_byte :: "mouse \<Rightarrow> mouse \<times> u8" where
  "try_read_byte m =
     (case inq m of [] \<Rightarrow> (m\<lparr>last_read := ReadFailure\<rparr>, 0) | b # bs \<Rightarrow> (m\<lparr>inq := bs, last_read := ReadSuccess\<rparr>, b))"

section \<open>The pointer\<close>

definition mouse_cell :: "screen \<Rightarrow> int \<times> int" where
  "mouse_cell s = (fst (mouse_pos s) div X_SCALE, snd (mouse_pos s) div Y_SCALE)"

definition set_mouse_attrib :: "u8 \<Rightarrow> screen \<Rightarrow> screen" where
  "set_mouse_attrib attrib s =
     (let (x, y) = mouse_cell s in (set_char_attrib x y attrib (s\<lparr>no_notify := True\<rparr>))\<lparr>no_notify := False\<rparr>)"

definition hide_cursor :: "screen \<Rightarrow> screen" where
  "hide_cursor s = set_mouse_attrib (prev_attrib s) s"

definition show_cursor :: "screen \<Rightarrow> screen" where
  "show_cursor s = set_mouse_attrib MOUSE_CURSOR s"

definition clamp :: "int \<Rightarrow> int \<Rightarrow> int" where
  "clamp n v = (if v < 0 then 0 else if n \<le> v then n - 1 else v)"

definition move_mouse :: "int \<Rightarrow> int \<Rightarrow> screen \<Rightarrow> screen" where
  "move_mouse deltax deltay s =
     (let (cx, cy) = mouse_cell s;
          s1 = set_mouse_attrib (prev_attrib s) (s\<lparr>prev_pos := (cx mod 256, cy mod 256)\<rparr>);
          x = clamp (VIDEO_NUM_COLS * X_SCALE) (fst (mouse_pos s1) + deltax);
          y = clamp (VIDEO_NUM_ROWS * Y_SCALE) (snd (mouse_pos s1) - deltay);
          s2 = s1\<lparr>mouse_pos := (x, y)\<rparr>;
          (nx, ny) = mouse_cell s2
      in set_mouse_attrib MOUSE_CURSOR (s2\<lparr>prev_attrib := get_char_attrib nx ny s2\<rparr>))"

definition init_mouse :: "mouse \<Rightarrow> mouse option" where
  "init_mouse m = do {
     let m1 = send_command 0x20 0x64 (send_command 0xFF 0x60 m);
     (m2, compaq_status) \<leftarrow> read_byte m1;
     let m3 = write_byte ((compaq_status OR 0x2) AND NOT 0x20) 0x60 (send_command 0x60 0x64 m2);
     let s1 = (mscr m3)\<lparr>mouse_pos := (0, 0), prev_pos := (0, 1)\<rparr>;
     let s2 = add_attrib_observer (s1\<lparr>prev_attrib := get_char_attrib 0 1 s1\<rparr>);
     Some (send_command 0xF4 0x60
       (m3\<lparr>mscr := s2, left_click_handler := replicate MAX_HANDLERS None, right_click_handler := replicate MAX_HANDLERS None\<rparr>))
   }"

section \<open>Click handlers\<close>

fun add_handler :: "click_handler \<Rightarrow> click_handler option list \<Rightarrow> click_handler option list \<times> int" where
  "add_handler h [] = ([], - 1)"
| "add_handler h (None # hs) = (Some h # hs, 0)"
| "add_handler h (Some g # hs) = (let (hs', r) = add_handler h hs in (Some g # hs', r))"

definition add_left_click :: "click_handler \<Rightarrow> mouse \<Rightarrow> mouse \<times> int" where
  "add_left_click h m = (let (hs, r) = add_handler h (left_click_handler m) in (m\<lparr>left_click_handler := hs\<rparr>, r))"

definition add_right_click :: "click_handler \<Rightarrow> mouse \<Rightarrow> mouse \<times> int" where
  "add_right_click h m = (let (hs, r) = add_handler h (right_click_handler m) in (m\<lparr>right_click_handler := hs\<rparr>, r))"

definition clicks :: "click_handler option list \<Rightarrow> screen \<Rightarrow> (click_handler \<times> int \<times> int) list" where
  "clicks hs s = map (\<lambda>h. (h, mouse_cell s)) (List.map_filter id hs)"

definition sign_extend :: "bool \<Rightarrow> u8 \<Rightarrow> int" where
  "sign_extend sign b = (if sign then uint b - 256 else uint b)"

definition mouse_packet :: "u8 \<Rightarrow> mouse \<Rightarrow> (mouse \<times> (click_handler \<times> int \<times> int) list) option" where
  "mouse_packet flags m =
     (if bit flags 3 \<and> \<not> bit flags 6 \<and> \<not> bit flags 7 then do {
        (m1, bx) \<leftarrow> read_byte m;
        (m2, by) \<leftarrow> read_byte m1;
        let m3 = m2\<lparr>mscr := move_mouse (sign_extend (bit flags 4) bx) (sign_extend (bit flags 5) by) (mscr m2)\<rparr>;
        Some (m3, (if bit flags 0 then clicks (left_click_handler m3) (mscr m3) else []) @
                  (if bit flags 1 then clicks (right_click_handler m3) (mscr m3) else []))
      } else Some (m, []))"

definition mouse_event :: "mouse \<Rightarrow> (mouse \<times> (click_handler \<times> int \<times> int) list) option" where
  "mouse_event m =
     (let (m1, flags) = try_read_byte m in
      if last_read m1 = ReadSuccess \<and> flags \<noteq> 0xFA then mouse_packet flags m1 else Some (m1, []))"

section \<open>The pointer stays on the screen\<close>

definition mouse_ok :: "screen \<Rightarrow> bool" where
  "mouse_ok s \<longleftrightarrow> fst (mouse_pos s) \<in> {0..<320} \<and> snd (mouse_pos s) \<in> {0..<200}"

text \<open>The screen as it is under the pointer.\<close>

definition beneath :: "screen \<Rightarrow> memory" where
  "beneath s = (let (x, y) = mouse_cell s in (smem s)(cell_addr s x y + 1 := prev_attrib s))"

lemma set_mouse_attrib_simps [simp]:
  "smem (set_mouse_attrib b s) = (let (x, y) = mouse_cell s in (smem s)(cell_addr s x y + 1 := b))"
  "mouse_pos (set_mouse_attrib b s) = mouse_pos s" "prev_pos (set_mouse_attrib b s) = prev_pos s"
  "prev_attrib (set_mouse_attrib b s) = prev_attrib s" "real_vidmem (set_mouse_attrib b s) = real_vidmem s"
  "screen_x (set_mouse_attrib b s) = screen_x s" "screen_y (set_mouse_attrib b s) = screen_y s"
  "current_attrib (set_mouse_attrib b s) = current_attrib s" "cursor_on (set_mouse_attrib b s) = cursor_on s"
  "observers (set_mouse_attrib b s) = observers s" "no_notify (set_mouse_attrib b s) = False"
  "mouse_cell (set_mouse_attrib b s) = mouse_cell s"
  by (simp_all add: set_mouse_attrib_def set_char_attrib_form Let_def split_beta mouse_cell_def cell_addr_def)

lemma clamp_range: "0 < n \<Longrightarrow> clamp n v \<in> {0..<n}"
  by (simp add: clamp_def)

lemma move_mouse_pos:
  "mouse_pos (move_mouse dx dy s) = (clamp 320 (fst (mouse_pos s) + dx), clamp 200 (snd (mouse_pos s) - dy))"
  by (simp add: move_mouse_def Let_def split_beta VIDEO_NUM_COLS_def VIDEO_NUM_ROWS_def X_SCALE_def Y_SCALE_def NUM_COLS_def NUM_ROWS_def)

lemma move_mouse_ok: "mouse_ok (move_mouse dx dy s)"
  using clamp_range [of 320] clamp_range [of 200] by (simp add: mouse_ok_def move_mouse_pos)

lemma move_mouse_smem:
  "smem (move_mouse dx dy s) =
     (let (x, y) = mouse_cell (move_mouse dx dy s) in (beneath s)(cell_addr s x y + 1 := MOUSE_CURSOR))"
  "prev_attrib (move_mouse dx dy s) =
     (let (x, y) = mouse_cell (move_mouse dx dy s) in beneath s (cell_addr s x y + 1))"
  "real_vidmem (move_mouse dx dy s) = real_vidmem s"
  by (simp_all add: move_mouse_def Let_def split_beta beneath_def mouse_cell_def cell_addr_def get_char_attrib_def)

lemma move_mouse_beneath: "beneath (move_mouse dx dy s) = beneath s"
proof -
  obtain x y where c: "mouse_cell (move_mouse dx dy s) = (x, y)" by fastforce
  have "cell_addr (move_mouse dx dy s) x y = cell_addr s x y" by (simp add: cell_addr_def move_mouse_smem(3))
  then show ?thesis unfolding beneath_def [of "move_mouse dx dy s"] c by (simp add: move_mouse_smem(1,2) c)
qed

lemma move_mouse_cursor:
  "get_char_attrib (fst (mouse_cell (move_mouse dx dy s))) (snd (mouse_cell (move_mouse dx dy s))) (move_mouse dx dy s) = MOUSE_CURSOR"
  by (simp add: get_char_attrib_def cell_addr_def move_mouse_smem(3)) (simp add: move_mouse_smem(1) Let_def split_beta cell_addr_def)

lemma mouse_cell_range: "mouse_ok s \<Longrightarrow> fst (mouse_cell s) \<in> {0..<80} \<and> snd (mouse_cell s) \<in> {0..<25}"
  by (auto simp: mouse_cell_def mouse_ok_def X_SCALE_def Y_SCALE_def)

lemma clicks_range:
  "mouse_ok s \<Longrightarrow> c \<in> set (clicks hs s) \<Longrightarrow> fst (snd c) \<in> {0..<80} \<and> snd (snd c) \<in> {0..<25}"
  using mouse_cell_range [of s] by (auto simp: clicks_def)

text \<open>A first byte that begins a packet with a movement: no acknowledgement, bit 3 set, no overflow.\<close>

definition moves :: "u8 \<Rightarrow> bool" where
  "moves flags \<longleftrightarrow> flags \<noteq> 0xFA \<and> bit flags 3 \<and> \<not> bit flags 6 \<and> \<not> bit flags 7"

lemma mouse_event_packet:
  assumes "inq m = flags # bx # by # bs"
  shows "mouse_event m =
    (if moves flags then
       let m' = m\<lparr>inq := bs, last_read := ReadSuccess, mscr := move_mouse (sign_extend (bit flags 4) bx) (sign_extend (bit flags 5) by) (mscr m)\<rparr>
       in Some (m', (if bit flags 0 then clicks (left_click_handler m) (mscr m') else []) @
                    (if bit flags 1 then clicks (right_click_handler m) (mscr m') else []))
     else Some (m\<lparr>inq := bx # by # bs, last_read := ReadSuccess\<rparr>, []))"
proof (cases "flags = 0xFA \<or> \<not> (bit flags 3 \<and> \<not> bit flags 6 \<and> \<not> bit flags 7)")
  case True
  then show ?thesis using assms by (auto simp: mouse_event_def try_read_byte_def mouse_packet_def moves_def)
next
  case False
  then show ?thesis using assms by (simp add: mouse_event_def try_read_byte_def mouse_packet_def moves_def read_byte_def Let_def)
qed

lemma clamp_min_max: "clamp 320 v = max 0 (min 319 v)" "clamp 200 v = max 0 (min 199 v)"
  by (auto simp: clamp_def)

section \<open>Properties\<close>

definition still_mouse :: mouse where
  "still_mouse = \<lparr>mscr = blank_screen\<lparr>observers := [True, False, False]\<rparr>, inq = [], outq = [], last_read = ReadSuccess,
     left_click_handler = [Some Line_click, Some Status_click, None], right_click_handler = [None, None, None]\<rparr>"

text \<open>
  The observer compares a changed cell with the cell the pointer was in before the last
  move, not with the cell it is in: a change of the attribute there is saved as the attribute
  beneath the pointer, and hiding the pointer then paints it into the pointer's cell.
\<close>

theorem attrib_changed_wrong_cell:
  assumes "observers s = [True, False, False]" "\<not> no_notify s" "prev_pos s = (px, py)" "mouse_cell s = (x, y)"
  shows "smem (hide_cursor (set_char_attrib px py b s)) (cell_addr s x y + 1) = b"
  using assms by (simp add: hide_cursor_def set_char_attrib_form Let_def mouse_cell_def cell_addr_def)

theorem attrib_changed_wrong_cell_witness:
  "smem (hide_cursor (set_char_attrib 0 1 0x4F (mscr still_mouse))) 0xB8001 = 0x4F"
proof -
  have "cell_addr (mscr still_mouse) 0 0 + 1 = 0xB8001" by (simp add: still_mouse_def blank_screen_def cell_addr_def)
  then show ?thesis using attrib_changed_wrong_cell [of "mscr still_mouse" 0 1 0 0 "0x4F"]
    by (simp add: still_mouse_def blank_screen_def mouse_cell_def)
qed

end
