(* ===== verification/Status.thy ===== *)
theory Status
  imports Mouse
begin

text \<open>
  The status bar of \<^verbatim>\<open>status.c\<close>: up to 80 segments of text, printed with separators into
  the 25th row of the screen. \<open>beyond\<close> is what the memory after the array of segments
  holds, read as a segment: \<open>write_status_bar\<close> reads one segment too far.
\<close>

section \<open>State\<close>

record status_segment =
  seg_data :: "u8 list"
  seg_length :: nat
  seg_attrib :: u8

record status_bar =
  segments :: "status_segment list"
  num_segments :: nat
  beyond :: status_segment

definition INACTIVE_STATUS_ATTRIB :: u8 where
  "INACTIVE_STATUS_ATTRIB = 0x0A"

definition ACTIVE_STATUS_ATTRIB :: u8 where
  "ACTIVE_STATUS_ATTRIB = 0xA9"

definition VIDEO :: u32 where
  "VIDEO = 0xB8000"

definition BAR :: u8 where
  "BAR = 0x7C"

section \<open>Operations\<close>

definition segment :: "status_bar \<Rightarrow> nat \<Rightarrow> status_segment" where
  "segment st i = (if i < 80 then segments st ! i else beyond st)"

definition data_at :: "status_segment \<Rightarrow> nat \<Rightarrow> u8" where
  "data_at sg p = (if p < length (seg_data sg) then seg_data sg ! p else 0)"

definition init_status :: "status_bar \<Rightarrow> status_bar" where
  "init_status st = st\<lparr>segments := map (\<lambda>sg. sg\<lparr>seg_attrib := INACTIVE_STATUS_ATTRIB\<rparr>) (segments st)\<rparr>"

definition write_status_char :: "u8 \<Rightarrow> u8 \<Rightarrow> nat \<Rightarrow> screen \<Rightarrow> screen" where
  "write_status_char theChar attrib x s =
     (let x' = x mod 81
      in set_char_attrib (int x') NUM_ROWS attrib (s\<lparr>smem := (smem s)(VIDEO + of_nat ((80 * 24 + x') * 2) := theChar)\<rparr>))"

text \<open>
  \<open>skip_segments\<close> is the inner loop of \<open>write_status_bar\<close>; it returns the segment, the
  position in it and whether it has moved. In \<open>bar_loop\<close> the column \<open>x\<close> is the number
  of characters written, as the two always agree in the code.
\<close>

function skip_segments :: "status_bar \<Rightarrow> nat \<Rightarrow> nat \<Rightarrow> bool \<Rightarrow> nat \<times> nat \<times> bool" where
  "skip_segments st cs p flag =
     (if cs < 80 \<and> (data_at (segment st cs) p = 0 \<or> seg_length (segment st cs) \<le> p)
      then skip_segments st (cs + 1) 0 True else (cs, p, flag))"
  by pat_completeness auto
termination by (relation "measure (\<lambda>(st, cs, p, flag). 80 - cs)") auto

declare skip_segments.simps [simp del]

definition fill_spaces :: "nat \<Rightarrow> screen \<Rightarrow> screen" where
  "fill_spaces n s = fold (write_status_char 0x20 0x04) [n..<80] s"

function bar_loop :: "status_bar \<Rightarrow> nat \<Rightarrow> nat \<Rightarrow> nat \<Rightarrow> screen \<Rightarrow> screen" where
  "bar_loop st n cs p s =
     (if n < 80 then
        let (cs1, p1, delimiter) = skip_segments st cs p False
        in if delimiter then bar_loop st (n + 1) cs1 p1 (write_status_char BAR INACTIVE_STATUS_ATTRIB n s)
           else let (n1, s1) = (if cs1 = 80 then (80, fill_spaces n s) else (n, s))
                in bar_loop st (n1 + 1) cs1 (p1 + 1)
                     (write_status_char (data_at (segment st cs1) p1) (seg_attrib (segment st cs1)) n1 s1)
      else s)"
  by pat_completeness auto
termination by (relation "measure (\<lambda>(st, n, cs, p, s). 80 - n)") (auto split: if_splits)

declare bar_loop.simps [simp del]

definition write_status_bar :: "status_bar \<Rightarrow> screen \<Rightarrow> screen" where
  "write_status_bar st s = bar_loop st 1 0 0 (write_status_char BAR INACTIVE_STATUS_ATTRIB 0 s)"

text \<open>
  \<open>set_segment_data\<close> takes the string as the list of its characters. Its buffer of 20 bytes
  holds at most 19 of them, and \<open>strncpy\<close> pads the 80 bytes of the segment with zeros. The
  segments the kernel sets are 2 to 11.
\<close>

definition upd_segment :: "nat \<Rightarrow> (status_segment \<Rightarrow> status_segment) \<Rightarrow> status_bar \<Rightarrow> status_bar" where
  "upd_segment i f st = st\<lparr>segments := (segments st)[i := f (segments st ! i)]\<rparr>"

definition set_segment_data :: "nat \<Rightarrow> u8 list \<Rightarrow> status_bar \<Rightarrow> screen \<Rightarrow> status_bar \<times> screen" where
  "set_segment_data i str st s =
     (let buffer = take 19 str;
          st1 = upd_segment i (\<lambda>sg. sg\<lparr>seg_length := length buffer, seg_data := buffer @ replicate (80 - length buffer) 0\<rparr>) st;
          st2 = (if num_segments st1 \<le> i then st1\<lparr>num_segments := i + 1\<rparr> else st1)
      in (st2, write_status_bar st2 s))"

definition set_segment_inactive :: "nat \<Rightarrow> status_bar \<Rightarrow> screen \<Rightarrow> status_bar \<times> screen" where
  "set_segment_inactive i st s =
     (let st1 = upd_segment i (\<lambda>sg. sg\<lparr>seg_attrib := INACTIVE_STATUS_ATTRIB\<rparr>) st in (st1, write_status_bar st1 s))"

definition set_segment_active :: "nat \<Rightarrow> status_bar \<Rightarrow> screen \<Rightarrow> status_bar \<times> screen" where
  "set_segment_active i st s =
     (let st1 = upd_segment i (\<lambda>sg. sg\<lparr>seg_attrib := ACTIVE_STATUS_ATTRIB\<rparr>) st in (st1, write_status_bar st1 s))"

text \<open>
  The segment \<open>status_click\<close> finds at column \<open>x\<close>: \<open>None\<close> for a separator, else the
  number of the segment, which may be \<open>- 1\<close>.
\<close>

function click_segment :: "status_bar \<Rightarrow> int \<Rightarrow> nat \<Rightarrow> int \<Rightarrow> int option" where
  "click_segment st x sg screen_position =
     (if sg < 80 then
        if screen_position = x then None
        else if x < screen_position then Some (int sg - 1)
        else click_segment st x (sg + 1) (screen_position + int (seg_length (segment st sg)) + 1)
      else Some 80)"
  by pat_completeness auto
termination by (relation "measure (\<lambda>(st, x, sg, q). 80 - sg)") auto

declare click_segment.simps [simp del]

section \<open>What the bar shows\<close>

definition seg_text :: "status_segment \<Rightarrow> u8 list" where
  "seg_text sg = takeWhile (\<lambda>c. c \<noteq> 0) (take (seg_length sg) (seg_data sg))"

definition seg_cells :: "status_segment \<Rightarrow> (u8 \<times> u8) list" where
  "seg_cells sg = map (\<lambda>c. (c, seg_attrib sg)) (seg_text sg)"

abbreviation bar_cell :: "u8 \<times> u8" where
  "bar_cell \<equiv> (BAR, INACTIVE_STATUS_ATTRIB)"

abbreviation blank_cell :: "u8 \<times> u8" where
  "blank_cell \<equiv> (0x20, 0x04)"

definition joined :: "status_segment list \<Rightarrow> (u8 \<times> u8) list" where
  "joined sgs = concat (map (\<lambda>sg. seg_cells sg @ [bar_cell]) (filter (\<lambda>sg. seg_text sg \<noteq> []) sgs))"

definition bar_cells :: "status_segment list \<Rightarrow> (u8 \<times> u8) list" where
  "bar_cells sgs = take 80 (bar_cell # seg_cells (hd sgs) @ bar_cell # joined (tl sgs) @ replicate 80 blank_cell)"

definition status_ok :: "status_bar \<Rightarrow> bool" where
  "status_ok st \<longleftrightarrow> length (segments st) = 80"

definition remaining :: "status_bar \<Rightarrow> nat \<Rightarrow> nat \<Rightarrow> (u8 \<times> u8) list" where
  "remaining st cs p =
     (if cs < 80 then drop p (seg_cells (segment st cs)) @ bar_cell # joined (drop (Suc cs) (segments st)) else [])"

fun emit :: "nat \<Rightarrow> (u8 \<times> u8) list \<Rightarrow> screen \<Rightarrow> screen" where
  "emit n [] s = s"
| "emit n (c # cs) s = emit (Suc n) cs (write_status_char (fst c) (snd c) n s)"

lemma text_end:
  assumes "p \<le> length (seg_text sg)"
  shows "data_at sg p = 0 \<or> seg_length sg \<le> p \<longleftrightarrow> p = length (seg_text sg)"
proof (cases "p = length (seg_text sg)")
  case True
  have "length (seg_text sg) < length (take (seg_length sg) (seg_data sg)) \<Longrightarrow> seg_data sg ! length (seg_text sg) = 0"
    unfolding seg_text_def using nth_length_takeWhile [of "\<lambda>c. c \<noteq> 0" "take (seg_length sg) (seg_data sg)"] by auto
  with True show ?thesis by (auto simp: data_at_def)
next
  case False
  let ?xs = "take (seg_length sg) (seg_data sg)"
  have "p < length (takeWhile (\<lambda>c. c \<noteq> 0) ?xs)" using assms False by (simp add: seg_text_def)
  then have "p < length ?xs" "?xs ! p \<noteq> 0"
    using length_takeWhile_le [of "\<lambda>c. c \<noteq> 0" ?xs] nth_mem [of p "takeWhile (\<lambda>c. c \<noteq> 0) ?xs"] set_takeWhileD
    by (fastforce simp: takeWhile_nth)+
  then show ?thesis using False by (simp add: data_at_def)
qed

lemma text_nth: "p < length (seg_text sg) \<Longrightarrow> seg_text sg ! p = data_at sg p"
  unfolding seg_text_def using length_takeWhile_le [of "\<lambda>c. c \<noteq> 0" "take (seg_length sg) (seg_data sg)"]
  by (auto simp: takeWhile_nth data_at_def)

lemma skip_end: "skip_segments st 80 p flag = (80, p, flag)"
  by (subst skip_segments.simps) simp

lemma skip_stay:
  "p < length (seg_text (segment st cs)) \<Longrightarrow> skip_segments st cs p flag = (cs, p, flag)"
  using text_end [of p "segment st cs"] by (subst skip_segments.simps) auto

lemma joined_Cons: "joined (sg # sgs) = (if seg_text sg = [] then [] else seg_cells sg @ [bar_cell]) @ joined sgs"
  by (simp add: joined_def)

lemma skip_move:
  assumes "status_ok st" "cs < 80" "p = length (seg_text (segment st cs))"
  shows "\<exists>cs'. skip_segments st cs p flag = (cs', 0, True) \<and> cs' \<le> 80 \<and>
    joined (drop (Suc cs) (segments st)) = remaining st cs' 0 \<and> (cs' < 80 \<longrightarrow> seg_text (segment st cs') \<noteq> [])"
  using assms(2,3)
proof (induction "80 - cs" arbitrary: cs p flag rule: less_induct)
  case less
  have step: "skip_segments st cs p flag = skip_segments st (Suc cs) 0 True"
    using less.prems text_end [of p "segment st cs"] by (subst skip_segments.simps) simp
  have len: "length (segments st) = 80" using assms(1) by (simp add: status_ok_def)
  show ?case
  proof (cases "Suc cs < 80")
    case False
    then have "Suc cs = 80" using less.prems(1) by simp
    then show ?thesis using step skip_end [of st 0 True] len by (simp add: remaining_def joined_def)
  next
    case True
    have d: "drop (Suc cs) (segments st) = segment st (Suc cs) # drop (Suc (Suc cs)) (segments st)"
      using True len by (simp add: segment_def Cons_nth_drop_Suc)
    show ?thesis
    proof (cases "seg_text (segment st (Suc cs)) = []")
      case e: True
      obtain cs' where "skip_segments st (Suc cs) 0 True = (cs', 0, True)" "cs' \<le> 80"
        "joined (drop (Suc (Suc cs)) (segments st)) = remaining st cs' 0" "cs' < 80 \<longrightarrow> seg_text (segment st cs') \<noteq> []"
        using less.hyps [of "Suc cs" 0 True] True e diff_less_mono2 [of cs "Suc cs" 80] by auto
      then show ?thesis using step d e by (simp add: joined_Cons)
    next
      case False
      then have "skip_segments st (Suc cs) 0 True = (Suc cs, 0, True)" by (intro skip_stay) simp
      then show ?thesis using step d False True by (simp add: joined_Cons remaining_def)
    qed
  qed
qed

lemma emit_blanks: "emit n (replicate k blank_cell) s = fold (write_status_char 0x20 0x04) [n..<n + k] s"
proof (induction k arbitrary: n s)
  case (Suc k)
  have "[n..<n + Suc k] = n # [Suc n..<Suc n + k]" by (simp add: upt_conv_Cons del: upt_Suc)
  with Suc show ?case by (simp del: upt_Suc)
qed simp

lemma bar_loop_emits:
  assumes "status_ok st" "n \<le> 80" "cs \<le> 80" "cs < 80 \<Longrightarrow> p \<le> length (seg_text (segment st cs))"
  shows "let t = emit n (take (80 - n) (remaining st cs p @ replicate 80 blank_cell)) s
    in bar_loop st n cs p s = t \<or> (\<exists>c a. bar_loop st n cs p s = write_status_char c a 80 t)"
  using assms(2-4)
proof (induction "80 - n" arbitrary: n cs p s rule: less_induct)
  case less
  show ?case
  proof (cases "n < 80")
    case False
    then show ?thesis by (subst (1 2) bar_loop.simps) (simp add: Let_def)
  next
    case n: True
    then have tk: "80 - n = Suc (80 - Suc n)" by simp
    consider (stop) "cs = 80" | (char) "cs < 80" "p < length (seg_text (segment st cs))"
      | (finished) "cs < 80" "p = length (seg_text (segment st cs))" using less.prems by fastforce
    then show ?thesis
    proof cases
      case stop
      have b: "bar_loop st 81 c q t = t" for c q t by (subst bar_loop.simps) simp
      have "bar_loop st n cs p s = write_status_char (data_at (segment st 80) p) (seg_attrib (segment st 80)) 80 (fill_spaces n s)"
        using n stop b by (subst bar_loop.simps) (simp add: skip_end)
      moreover have "take (80 - n) (remaining st cs p @ replicate 80 blank_cell) = replicate (80 - n) blank_cell"
        using stop by (simp add: remaining_def min_def)
      moreover have "emit n (replicate (80 - n) blank_cell) s = fill_spaces n s"
        using n by (simp add: emit_blanks fill_spaces_def)
      ultimately show ?thesis by (auto simp: Let_def)
    next
      case char
      let ?s = "write_status_char (data_at (segment st cs) p) (seg_attrib (segment st cs)) n s"
      have l: "bar_loop st n cs p s = bar_loop st (Suc n) cs (Suc p) ?s"
        using n char skip_stay [OF char(2), of False] by (subst bar_loop.simps) simp
      have "drop p (seg_cells (segment st cs)) =
          (data_at (segment st cs) p, seg_attrib (segment st cs)) # drop (Suc p) (seg_cells (segment st cs))"
        using char text_nth [of p] by (simp add: seg_cells_def Cons_nth_drop_Suc [symmetric])
      then have "remaining st cs p = (data_at (segment st cs) p, seg_attrib (segment st cs)) # remaining st cs (Suc p)"
        using char by (simp add: remaining_def)
      then show ?thesis using less.hyps [of "Suc n" cs "Suc p" ?s] n char unfolding l tk by (simp add: Let_def)
    next
      case finished
      obtain cs' where k: "skip_segments st cs p False = (cs', 0, True)" "cs' \<le> 80"
        "joined (drop (Suc cs) (segments st)) = remaining st cs' 0" using skip_move [OF assms(1) finished] by blast
      let ?s = "write_status_char BAR INACTIVE_STATUS_ATTRIB n s"
      have l: "bar_loop st n cs p s = bar_loop st (Suc n) cs' 0 ?s"
        using n k by (subst bar_loop.simps) simp
      have "remaining st cs p = bar_cell # remaining st cs' 0"
        using finished(1) k(3) unfolding finished(2) remaining_def [of st cs "length (seg_text (segment st cs))"]
        by (simp add: seg_cells_def)
      then show ?thesis using less.hyps [of "Suc n" cs' 0 ?s] n k unfolding l tk by (simp add: Let_def)
    qed
  qed
qed

text \<open>Reading back what was written.\<close>

definition char_addr :: "nat \<Rightarrow> u32" where
  "char_addr x = VIDEO + of_nat (3840 + 2 * x)"

lemma char_addr_eq:
  assumes "x \<le> 80" "y \<le> 80"
  shows "char_addr x = char_addr y \<longleftrightarrow> x = y" "char_addr x \<noteq> char_addr y + 1"
proof -
  have u: "unat (char_addr z) = 0xB8000 + 3840 + 2 * z" "unat (char_addr z + 1) = 0xB8000 + 3840 + 2 * z + 1" if "z \<le> 80" for z
  proof -
    have "char_addr z = of_nat (0xB8000 + 3840 + 2 * z)" "char_addr z + 1 = of_nat (0xB8000 + 3840 + 2 * z + 1)"
      by (simp_all add: char_addr_def VIDEO_def)
    then show "unat (char_addr z) = 0xB8000 + 3840 + 2 * z" "unat (char_addr z + 1) = 0xB8000 + 3840 + 2 * z + 1"
      using that by (simp_all only: unat_of_nat_u32)
  qed
  have "unat (char_addr x) = unat (char_addr y) \<longleftrightarrow> x = y" unfolding u(1) [OF assms(1)] u(1) [OF assms(2)] by simp
  then show "char_addr x = char_addr y \<longleftrightarrow> x = y" by (simp only: word_unat_eq_iff)
  have "unat (char_addr x) \<noteq> unat (char_addr y + 1)" unfolding u(1) [OF assms(1)] u(2) [OF assms(2)] by presburger
  then show "char_addr x \<noteq> char_addr y + 1" by (rule contrapos_nn) simp
qed

lemma write_status_char_smem:
  assumes "real_vidmem s = VIDEO" "x \<le> 80"
  shows "smem (write_status_char c a x s) = (smem s)(char_addr x := c, char_addr x + 1 := a)"
    "real_vidmem (write_status_char c a x s) = VIDEO"
proof -
  have "cell_addr s' (int x) NUM_ROWS = char_addr x" if "real_vidmem s' = VIDEO" for s'
    using that by (simp add: cell_addr_def char_addr_def NUM_ROWS_def NUM_COLS_def algebra_simps)
  then show "smem (write_status_char c a x s) = (smem s)(char_addr x := c, char_addr x + 1 := a)"
    "real_vidmem (write_status_char c a x s) = VIDEO"
    using assms by (simp_all add: write_status_char_def Let_def char_addr_def algebra_simps)
qed

lemma emit_vidmem:
  assumes "real_vidmem s = VIDEO" "n + length cs \<le> 80" shows "real_vidmem (emit n cs s) = VIDEO"
  using assms
proof (induction cs arbitrary: n s)
  case (Cons c cs)
  then show ?case using write_status_char_smem(2) [of s n] by simp
qed simp

lemma emit_other:
  assumes "real_vidmem s = VIDEO" "n + length cs \<le> 80" "\<And>x. n \<le> x \<Longrightarrow> x \<le> 80 \<Longrightarrow> b \<noteq> char_addr x \<and> b \<noteq> char_addr x + 1"
  shows "smem (emit n cs s) b = smem s b"
  using assms
proof (induction cs arbitrary: n s)
  case (Cons c cs)
  then show ?case using write_status_char_smem [of s n "fst c" "snd c"] Cons.prems(3) [of n] by simp
qed simp

lemma emit_at:
  assumes "real_vidmem s = VIDEO" "n + length cs \<le> 80" "x < length cs"
  shows "smem (emit n cs s) (char_addr (n + x)) = fst (cs ! x) \<and> smem (emit n cs s) (char_addr (n + x) + 1) = snd (cs ! x)"
  using assms
proof (induction cs arbitrary: n s x)
  case (Cons c cs)
  let ?s = "write_status_char (fst c) (snd c) n s"
  have s: "real_vidmem ?s = VIDEO" "smem ?s = (smem s)(char_addr n := fst c, char_addr n + 1 := snd c)"
    using Cons.prems(1,2) write_status_char_smem [of s n "fst c" "snd c"] by simp_all
  have r: "Suc n + length cs \<le> 80" using Cons.prems(2) by simp
  show ?case
  proof (cases x)
    case 0
    have "char_addr n \<noteq> char_addr y \<and> char_addr n \<noteq> char_addr y + 1 \<and> char_addr n + 1 \<noteq> char_addr y" if "Suc n \<le> y" "y \<le> 80" for y
      using char_addr_eq [of n y] char_addr_eq(2) [of y n] that by auto
    then show ?thesis
      using 0 emit_other [OF s(1) r, of "char_addr n"] emit_other [OF s(1) r, of "char_addr n + 1"]
        char_addr_eq(2) [of n n] r s(2) by simp
  next
    case (Suc y)
    then show ?thesis using Cons.IH [OF s(1) r, of y] Cons.prems(3) by simp
  qed
qed simp

lemma bar_cells_length: "length (bar_cells sgs) = 80"
  by (auto simp: bar_cells_def)

lemma write_status_bar_emits:
  assumes "status_ok st"
  shows "let t = emit 0 (bar_cells (segments st)) s
    in write_status_bar st s = t \<or> (\<exists>c a. write_status_bar st s = write_status_char c a 80 t)"
proof -
  let ?r = "remaining st 0 0"
  have "segments st \<noteq> []" using assms by (auto simp: status_ok_def)
  then have "?r = seg_cells (hd (segments st)) @ bar_cell # joined (tl (segments st))"
    by (simp add: remaining_def segment_def hd_conv_nth drop_Suc)
  then have "bar_cells (segments st) = bar_cell # take 79 (?r @ replicate 80 blank_cell)"
    by (simp add: bar_cells_def take_Cons')
  then show ?thesis using bar_loop_emits [OF assms, of 1 0 0 "write_status_char BAR INACTIVE_STATUS_ATTRIB 0 s"]
    by (simp add: write_status_bar_def Let_def)
qed

section \<open>Properties\<close>

text \<open>
  \<open>write_status_bar\<close> ends and shows in the 80 cells of the 25th row a bar, the text of the
  segments in use with a bar after each, and blanks; of the first segment also when it is
  empty. The bytes of the 24 rows above are not touched.
\<close>

theorem write_status_bar_shows:
  assumes "status_ok st" "real_vidmem s = VIDEO" "x < 80" "unat a < 3840"
  shows "smem (write_status_bar st s) (VIDEO + of_nat (3840 + 2 * x)) = fst (bar_cells (segments st) ! x) \<and>
    smem (write_status_bar st s) (VIDEO + of_nat (3840 + 2 * x) + 1) = snd (bar_cells (segments st) ! x) \<and>
    smem (write_status_bar st s) (VIDEO + a) = smem s (VIDEO + a)"
proof -
  let ?t = "emit 0 (bar_cells (segments st)) s"
  have e: "real_vidmem ?t = VIDEO" using emit_vidmem [OF assms(2), of 0 "bar_cells (segments st)"] by (simp add: bar_cells_length)
  have low: "VIDEO + a \<noteq> char_addr y \<and> VIDEO + a \<noteq> char_addr y + 1" if "y \<le> 80" for y
  proof -
    have "unat (of_nat (3840 + 2 * y) :: u32) = 3840 + 2 * y" "unat (of_nat (3841 + 2 * y) :: u32) = 3841 + 2 * y"
      using that by (simp_all only: unat_of_nat_u32)
    then have "a \<noteq> of_nat (3840 + 2 * y)" "a \<noteq> of_nat (3841 + 2 * y)" using assms(4) by auto
    then show ?thesis by (auto simp: char_addr_def algebra_simps)
  qed
  have t: "smem ?t (char_addr x) = fst (bar_cells (segments st) ! x)" "smem ?t (char_addr x + 1) = snd (bar_cells (segments st) ! x)"
    "smem ?t (VIDEO + a) = smem s (VIDEO + a)" 
    using emit_at [OF assms(2), of 0 "bar_cells (segments st)" x] emit_other [OF assms(2), of 0 "bar_cells (segments st)" "VIDEO + a"]
      low assms(3) by (simp_all add: bar_cells_length)
  have "smem (write_status_char c b 80 ?t) = (smem ?t)(char_addr 80 := c, char_addr 80 + 1 := b)" for c b
    using write_status_char_smem(1) e by simp
  then show ?thesis
    using write_status_bar_emits [OF assms(1), of s] t low [of 80] char_addr_eq [of x 80] char_addr_eq [of 80 x] assms(3)
    unfolding char_addr_def [of x, symmetric] by (auto simp: Let_def)
qed

definition plain_bar :: status_bar where
  "plain_bar = \<lparr>segments = \<lparr>seg_data = [88, 105], seg_length = 2, seg_attrib = 0x0A\<rparr> # replicate 79 \<lparr>seg_data = [], seg_length = 0, seg_attrib = 0x0A\<rparr>,
     num_segments = 1, beyond = \<lparr>seg_data = [], seg_length = 0, seg_attrib = 0\<rparr>\<rparr>"

theorem write_status_bar_shows_witness:
  "smem (write_status_bar plain_bar blank_screen) (VIDEO + 3842) = 88 \<and>
   smem (write_status_bar plain_bar blank_screen) VIDEO = 0"
proof -
  have ok: "status_ok plain_bar" "real_vidmem blank_screen = VIDEO"
    by (simp_all add: plain_bar_def status_ok_def blank_screen_def VIDEO_def)
  have "bar_cells (segments plain_bar) ! 1 = (88, 0x0A)"
    by (simp add: bar_cells_def plain_bar_def seg_cells_def seg_text_def take_Cons')
  with write_status_bar_shows [OF ok, of 1 0] show ?thesis by (simp add: blank_screen_def)
qed

end
