(* ===== verification/Terminal.thy ===== *)
theory Terminal
  imports Status
begin

text \<open>
  Terminals: the output half of \<^verbatim>\<open>lib.c\<close> (\<open>putc\<close>, \<open>puts\<close>, \<open>scroll\<close>), the
  backing and scrollback pages and the line editing of \<^verbatim>\<open>keyboard.c\<close>. A terminal is named
  by its index in the array \<^verbatim>\<open>terminals\<close>; its buffers are lists of
  \<open>BUFFER_SIZE\<close> bytes, and an access outside of one is \<open>None\<close>, as is following a
  terminal pointer that is NULL. Pages of characters are in the machine memory, the field
  \<open>smem\<close> of the screen. A \<^verbatim>\<open>coord_t\<close> is a pair of integers kept below 256.
\<close>

section \<open>State\<close>

record terminal_info =
  index :: nat
  keyboard_read_flag :: bool
  keyboard_start_coord :: "int \<times> int"
  keyboard_buffer_pos :: u32
  keyboard_buffer_size :: u32
  keyboard_buffer :: "u8 list"
  keyboard_read_buffer :: "u8 list"
  history_size :: u32
  history_curr :: int
  command_history :: "u8 list list"
  current_position :: "int \<times> int"
  video_memory :: u32
  video_memory_base :: u32

record tty =
  scr :: screen
  terminals :: "terminal_info list"
  current_terminal :: "nat option"
  scrollback_offset :: int

definition NUM_TERMINALS :: nat where
  "NUM_TERMINALS = 10"

definition BUFFER_SIZE :: nat where
  "BUFFER_SIZE = 24 * 80 + 1 - 7"

definition MAX_HISTORY_CMDS :: nat where
  "MAX_HISTORY_CMDS = 16"

definition MAX_SCROLLBACK_OFFSET :: int where
  "MAX_SCROLLBACK_OFFSET = 5"

definition PAGE_BYTES :: u32 where
  "PAGE_BYTES = 80 * 24 * 2"

definition on_scr :: "(screen \<Rightarrow> screen) \<Rightarrow> tty \<Rightarrow> tty" where
  "on_scr f t = t\<lparr>scr := f (scr t)\<rparr>"

definition on_mem :: "(memory \<Rightarrow> memory) \<Rightarrow> tty \<Rightarrow> tty" where
  "on_mem f t = on_scr (\<lambda>s. s\<lparr>smem := f (smem s)\<rparr>) t"

definition term_at :: "nat \<Rightarrow> tty \<Rightarrow> terminal_info option" where
  "term_at i t = (if i < length (terminals t) then Some (terminals t ! i) else None)"

definition upd_term :: "nat \<Rightarrow> (terminal_info \<Rightarrow> terminal_info) \<Rightarrow> tty \<Rightarrow> tty" where
  "upd_term i f t = t\<lparr>terminals := (terminals t)[i := f (terminals t ! i)]\<rparr>"

definition cur_term :: "tty \<Rightarrow> (nat \<times> terminal_info) option" where
  "cur_term t = do { i \<leftarrow> current_terminal t; r \<leftarrow> term_at i t; Some (i, r) }"

definition get_at :: "'a list \<Rightarrow> nat \<Rightarrow> 'a option" where
  "get_at xs i = (if i < length xs then Some (xs ! i) else None)"

definition put_at :: "'a list \<Rightarrow> nat \<Rightarrow> 'a \<Rightarrow> 'a list option" where
  "put_at xs i v = (if i < length xs then Some (xs[i := v]) else None)"

section \<open>Backing pages\<close>

definition map_backing_page :: "nat \<Rightarrow> tty \<Rightarrow> tty option" where
  "map_backing_page i t = do { r \<leftarrow> term_at i t; Some (on_mem (\<lambda>m. memcpy m (video_memory r) VIDEO PAGE_BYTES) t) }"

definition unmap_backing_page :: "nat \<Rightarrow> tty \<Rightarrow> tty option" where
  "unmap_backing_page i t = do { r \<leftarrow> term_at i t; Some (on_mem (\<lambda>m. memcpy m VIDEO (video_memory r) PAGE_BYTES) t) }"

definition map_base_page :: "nat \<Rightarrow> tty \<Rightarrow> tty option" where
  "map_base_page i t = do { r \<leftarrow> term_at i t; Some (on_mem (\<lambda>m. memcpy m (video_memory_base r) VIDEO PAGE_BYTES) t) }"

definition unmap_base_page :: "nat \<Rightarrow> tty \<Rightarrow> tty option" where
  "unmap_base_page i t = do { r \<leftarrow> term_at i t; Some (on_mem (\<lambda>m. memcpy m VIDEO (video_memory_base r) PAGE_BYTES) t) }"

definition clear_terminal_backing_page :: "nat \<Rightarrow> tty \<Rightarrow> tty option" where
  "clear_terminal_backing_page i t = do {
     r \<leftarrow> term_at i t;
     Some (on_scr (set_screen_coordinates 0 0)
       (on_mem (\<lambda>m. memset_word m (video_memory r) (blank (scr t)) (of_int (NUM_ROWS * NUM_COLS))) t))
   }"

text \<open>
  \<open>scroll_rows\<close> is the pair of loops that \<open>scroll_backing\<close> runs on the backing page and
  \<open>scroll\<close> on the video memory: the characters of every row but the last come from the row
  below, the last row becomes zero. \<open>scroll_lines\<close> moves the scrollback up by a row, byte by
  byte, including the first 80 bytes of the page itself.
\<close>

definition scroll_rows :: "u32 \<Rightarrow> memory \<Rightarrow> memory" where
  "scroll_rows base m =
     fold (\<lambda>x m. m(base + of_nat (2 * (1840 + x)) := 0)) [0..<80]
       (fold (\<lambda>k m. m(base + of_nat (2 * k) := m (base + of_nat (2 * (k + 80))))) [0..<1840] m)"

definition scroll_lines :: "u32 \<Rightarrow> memory \<Rightarrow> memory" where
  "scroll_lines scrollback_base m =
     fold (\<lambda>k m. m(scrollback_base + of_nat k := m (scrollback_base + of_nat k + 160))) [0..<3840 * 5 + 80] m"

definition scroll_backing :: "nat \<Rightarrow> tty \<Rightarrow> tty option" where
  "scroll_backing i t = do {
     r \<leftarrow> term_at i t;
     let base = video_memory_base r;
     Some (on_mem (scroll_rows base)
       (on_scr show_cursor (on_mem (scroll_lines (base - PAGE_BYTES * 5)) (on_scr hide_cursor t))))
   }"

definition putc_to_backing :: "u8 \<Rightarrow> nat \<Rightarrow> tty \<Rightarrow> tty option" where
  "putc_to_backing c i t = do {
     r \<leftarrow> term_at i t;
     let (x, y) = current_position r;
     (x1, y1, t1) \<leftarrow>
       (if c = 10 \<or> c = 13 then
          let y1 = (y + 1) mod 256
          in if NUM_ROWS \<le> y1 then do { t1 \<leftarrow> scroll_backing i t; Some (0, y1 - 1, t1) } else Some (0, y1, t)
        else
          let a = video_memory_base r + of_int ((NUM_COLS * y + x) * 2)
          in Some ((x + 1) mod 256, y, on_mem (\<lambda>m. m(a := c, a + 1 := current_attrib (scr t))) t));
     (x2, t2) \<leftarrow>
       (if x1 = NUM_COLS \<and> y1 = NUM_ROWS - 1 then do { t2 \<leftarrow> scroll_backing i t1; Some (0, t2) } else Some (x1, t1));
     Some (upd_term i (\<lambda>r. r\<lparr>current_position := (x2, y1)\<rparr>) t2)
   }"

section \<open>Printing\<close>

definition scroll :: "tty \<Rightarrow> tty option" where
  "scroll t = do {
     (i, _) \<leftarrow> cur_term t;
     t1 \<leftarrow> map_backing_page i t;
     t2 \<leftarrow> scroll_backing i t1;
     Some (on_mem (scroll_rows (real_vidmem (scr t2))) t2)
   }"

definition put_cell :: "int \<Rightarrow> int \<Rightarrow> u8 \<Rightarrow> screen \<Rightarrow> screen" where
  "put_cell x y c s = s\<lparr>smem := (smem s)(cell_addr s x y := c, cell_addr s x y + 1 := current_attrib s)\<rparr>"

definition lower_start :: "terminal_info \<Rightarrow> terminal_info" where
  "lower_start r = r\<lparr>keyboard_start_coord := (fst (keyboard_start_coord r), (snd (keyboard_start_coord r) - 1) mod 256)\<rparr>"

definition putc :: "u8 \<Rightarrow> tty \<Rightarrow> tty option" where
  "putc c t = do {
     let x = screen_x (scr t);
     let y = screen_y (scr t);
     (x1, y1, t1) \<leftarrow>
       (if c = 10 \<or> c = 13 then
          let t1 = on_scr (set_char_attrib x y (current_attrib (scr t))) t
          in if NUM_ROWS \<le> y + 1 then do { t2 \<leftarrow> scroll t1; Some (0, y, t2) } else Some (0, y + 1, t1)
        else Some (x + 1, y, on_scr (put_cell x y c) t));
     (x2, t2) \<leftarrow>
       (if x1 = NUM_COLS \<and> y1 = NUM_ROWS - 1 then do {
          t2 \<leftarrow> scroll t1;
          (i, _) \<leftarrow> cur_term t2;
          Some (0, upd_term i lower_start t2)
        } else Some (x1, t1));
     Some (on_scr (\<lambda>s. set_char_attrib x2 y1 (current_attrib s) s) (on_scr (set_screen_coordinates x2 y1) t2))
   }"

text \<open>
  \<open>puts\<close> and \<open>puts_wrap\<close> print up to the NUL of a byte array, and run past the end of the
  array when it has none.
\<close>

fun putcs :: "u8 list \<Rightarrow> tty \<Rightarrow> tty option" where
  "putcs [] t = Some t"
| "putcs (c # cs) t = do { t1 \<leftarrow> putc c t; putcs cs t1 }"

definition cstring :: "u8 list \<Rightarrow> u8 list option" where
  "cstring xs = (if 0 \<in> set xs then Some (takeWhile (\<lambda>c. c \<noteq> 0) xs) else None)"

definition puts :: "u8 list \<Rightarrow> tty \<Rightarrow> (tty \<times> int) option" where
  "puts str t = do { cs \<leftarrow> cstring str; t1 \<leftarrow> putcs cs t; Some (t1, int (length cs)) }"

definition puts_wrap :: "u8 list \<Rightarrow> tty \<Rightarrow> (tty \<times> int) option" where
  "puts_wrap str t = do { cs \<leftarrow> cstring str; t1 \<leftarrow> putcs cs t; Some (t1, int (length cs)) }"

section \<open>Scrollback\<close>

definition load_scrollback_page :: "int \<Rightarrow> tty \<Rightarrow> tty option" where
  "load_scrollback_page offset t = do {
     (i, _) \<leftarrow> cur_term t;
     unmap_backing_page i (upd_term i (\<lambda>r. r\<lparr>video_memory := video_memory_base r - PAGE_BYTES * of_int offset\<rparr>) t)
   }"

definition clamp_offset :: "int \<Rightarrow> int" where
  "clamp_offset n = (if n < 0 then 0 else if MAX_SCROLLBACK_OFFSET < n then MAX_SCROLLBACK_OFFSET else n)"

definition set_scrollback_page :: "int \<Rightarrow> tty \<Rightarrow> tty option" where
  "set_scrollback_page n t = do {
     let t1 = on_scr hide_cursor t;
     t2 \<leftarrow> (if scrollback_offset t1 = 0 then do { (i, _) \<leftarrow> cur_term t1; map_backing_page i t1 } else Some t1);
     let t3 = t2\<lparr>scrollback_offset := clamp_offset n\<rparr>;
     t4 \<leftarrow> load_scrollback_page (scrollback_offset t3) t3;
     Some (on_scr show_cursor t4)
   }"

definition adjust_scrollback_page :: "int \<Rightarrow> tty \<Rightarrow> tty option" where
  "adjust_scrollback_page offset t = do {
     let t1 = on_scr hide_cursor t;
     t2 \<leftarrow> (if scrollback_offset t1 = 0 then do { (i, _) \<leftarrow> cur_term t1; map_backing_page i t1 } else Some t1);
     let t3 = t2\<lparr>scrollback_offset := clamp_offset (offset + scrollback_offset t2)\<rparr>;
     t4 \<leftarrow> load_scrollback_page (scrollback_offset t3) t3;
     Some (on_scr show_cursor t4)
   }"

section \<open>Line editing\<close>

definition reprint_keyboard_buffer :: "tty \<Rightarrow> tty option" where
  "reprint_keyboard_buffer t = do {
     (i, r) \<leftarrow> cur_term t;
     let (x, y) = keyboard_start_coord r;
     (t1, _) \<leftarrow> puts_wrap (keyboard_buffer r) (on_scr (set_screen_coordinates x y) t);
     Some t1
   }"

definition erase_cursor :: "terminal_info \<Rightarrow> screen \<Rightarrow> screen" where
  "erase_cursor r =
     clear_char_attrib (fst (keyboard_start_coord r) + int (unat (keyboard_buffer_pos r))) (snd (keyboard_start_coord r))"

definition key_left :: "tty \<Rightarrow> tty option" where
  "key_left t = do {
     (i, r) \<leftarrow> cur_term t;
     let (cx, cy) = read_screen_coordinates (scr t);
     if 0 < keyboard_buffer_pos r then
       Some (on_scr (set_screen_coordinates (cx - 1) cy)
         (upd_term i (\<lambda>r. r\<lparr>keyboard_buffer_pos := keyboard_buffer_pos r - 1\<rparr>) (on_scr (erase_cursor r) t)))
     else Some t
   }"

definition key_right :: "tty \<Rightarrow> tty option" where
  "key_right t = do {
     (i, r) \<leftarrow> cur_term t;
     let (cx, cy) = read_screen_coordinates (scr t);
     if keyboard_buffer_pos r < keyboard_buffer_size r then
       Some (on_scr (set_screen_coordinates (cx + 1) cy)
         (upd_term i (\<lambda>r. r\<lparr>keyboard_buffer_pos := keyboard_buffer_pos r + 1\<rparr>) (on_scr (erase_cursor r) t)))
     else Some t
   }"

text \<open>
  \<open>shift_up\<close> is the loop that makes room for a typed character, \<open>shift_down\<close> the loop that
  closes the gap of a deleted one.
\<close>

fun shift_up :: "nat \<Rightarrow> nat \<Rightarrow> u8 list \<Rightarrow> u8 list option" where
  "shift_up 0 p xs = Some xs"
| "shift_up (Suc i) p xs =
     (if p < Suc i then do { v \<leftarrow> get_at xs i; ys \<leftarrow> put_at xs (Suc i) v; shift_up i p ys } else Some xs)"

function shift_down :: "nat \<Rightarrow> nat \<Rightarrow> u8 list \<Rightarrow> u8 list option" where
  "shift_down i lim xs =
     (if i \<le> lim then do { v \<leftarrow> get_at xs (i + 1); ys \<leftarrow> put_at xs i v; shift_down (i + 1) lim ys } else Some xs)"
  by pat_completeness auto
termination by (relation "measure (\<lambda>(i, lim, xs). lim + 1 - i)") auto

declare shift_down.simps [simp del]

definition key_char :: "u8 \<Rightarrow> tty \<Rightarrow> tty option" where
  "key_char c t = do {
     (i, r) \<leftarrow> cur_term t;
     let (cx, cy) = read_screen_coordinates (scr t);
     b1 \<leftarrow> shift_up (unat (keyboard_buffer_size r)) (unat (keyboard_buffer_pos r)) (keyboard_buffer r);
     b2 \<leftarrow> put_at b1 (unat (keyboard_buffer_pos r)) c;
     t1 \<leftarrow> reprint_keyboard_buffer (upd_term i (\<lambda>r. r\<lparr>keyboard_buffer := b2,
        keyboard_buffer_pos := keyboard_buffer_pos r + 1, keyboard_buffer_size := keyboard_buffer_size r + 1\<rparr>) t);
     Some (if cx < NUM_COLS - 1 then on_scr (set_screen_coordinates (cx + 1) cy) t1
           else on_scr (set_screen_coordinates 0 (cy + 1)) t1)
   }"

definition handle_backspace :: "tty \<Rightarrow> tty option" where
  "handle_backspace t = do {
     (i, r) \<leftarrow> cur_term t;
     if 0 < keyboard_buffer_pos r then do {
       let (ox, oy) = read_screen_coordinates (scr t);
       let t1 = on_scr (erase_cursor r) t;
       let n = keyboard_buffer_size r - 1;
       let p = keyboard_buffer_pos r - 1;
       b \<leftarrow> shift_down (unat p) (unat (n + 1)) (keyboard_buffer r);
       t2 \<leftarrow> reprint_keyboard_buffer
         (upd_term i (\<lambda>r. r\<lparr>keyboard_buffer := b, keyboard_buffer_pos := p, keyboard_buffer_size := n\<rparr>) t1);
       t3 \<leftarrow> putc 0x20 t2;
       Some (if 0 < ox then on_scr (set_screen_coordinates (ox - 1) oy) t3
             else on_scr (set_screen_coordinates (NUM_COLS - 1) (oy - 1)) t3)
     } else Some t
   }"

text \<open>\<open>strncpy\<close> from one array of \<open>BUFFER_SIZE\<close> bytes to another.\<close>

definition strncpy_buffer :: "u8 list \<Rightarrow> u8 list" where
  "strncpy_buffer src = (let cs = takeWhile (\<lambda>c. c \<noteq> 0) src in cs @ replicate (length src - length cs) 0)"

text \<open>
  \<open>trim_spaces\<close> removes spaces from position \<open>k - 1\<close> down. The loop also reads position
  \<open>- 1\<close>, without using what it reads.
\<close>

fun trim_spaces :: "nat \<Rightarrow> u8 list \<Rightarrow> u8 list option" where
  "trim_spaces 0 xs = Some xs"
| "trim_spaces (Suc i) xs = do { v \<leftarrow> get_at xs i; if v = 0x20 then trim_spaces i (xs[i := 0]) else Some xs }"

definition push_history :: "terminal_info \<Rightarrow> terminal_info option" where
  "push_history r = do {
     let r1 = (if history_size r = of_nat MAX_HISTORY_CMDS
               then r\<lparr>command_history := map strncpy_buffer (tl (command_history r)) @ [last (command_history r)],
                      history_size := history_size r - 1\<rparr>
               else r);
     h \<leftarrow> put_at (command_history r1) (unat (history_size r1)) (strncpy_buffer (keyboard_buffer r1));
     Some (r1\<lparr>command_history := h, history_size := history_size r1 + 1, history_curr := int (unat (history_size r1 + 1))\<rparr>)
   }"

definition handle_enter :: "tty \<Rightarrow> tty option" where
  "handle_enter t = do {
     (i, r) \<leftarrow> cur_term t;
     r1 \<leftarrow> push_history r;
     b \<leftarrow> put_at (keyboard_buffer r1) (unat (keyboard_buffer_size r1)) 10;
     t1 \<leftarrow> reprint_keyboard_buffer (upd_term i (\<lambda>_. r1\<lparr>keyboard_buffer := b\<rparr>) t);
     let (cx, cy) = read_screen_coordinates (scr t1);
     b1 \<leftarrow> trim_spaces (unat (keyboard_buffer_size r1)) b;
     Some (upd_term i (\<lambda>r. r\<lparr>keyboard_start_coord := (cx mod 256, cy mod 256),
       keyboard_read_buffer := strncpy_buffer b1, keyboard_buffer := replicate (length b1) 0,
       keyboard_buffer_pos := 0, keyboard_buffer_size := 0, keyboard_read_flag := True\<rparr>) t1)
   }"

definition history_move :: "int \<Rightarrow> tty \<Rightarrow> tty option" where
  "history_move offset t = do {
     (i, r) \<leftarrow> cur_term t;
     let history_pos = history_curr r + offset;
     if 0 \<le> history_pos \<and> history_pos \<le> int (unat (history_size r)) then do {
       let t1 = upd_term i (\<lambda>r. r\<lparr>keyboard_buffer := replicate (length (keyboard_buffer r)) 0\<rparr>) t;
       t2 \<leftarrow> putcs (replicate (unat (keyboard_buffer_size r)) 0x20)
         (on_scr (set_screen_coordinates (fst (keyboard_start_coord r)) (snd (keyboard_start_coord r))) t1);
       h \<leftarrow> get_at (command_history r) (nat history_pos);
       cs \<leftarrow> cstring (strncpy_buffer h);
       let n = of_nat (length cs);
       t3 \<leftarrow> reprint_keyboard_buffer (upd_term i (\<lambda>r. r\<lparr>keyboard_buffer := strncpy_buffer h,
         keyboard_buffer_pos := n, keyboard_buffer_size := n\<rparr>) t2);
       Some (upd_term i (\<lambda>r. r\<lparr>history_curr := history_pos\<rparr>) t3)
     } else Some t
   }"

definition reset_keyboard :: "tty \<Rightarrow> tty option" where
  "reset_keyboard t = do {
     (i, r) \<leftarrow> cur_term t;
     let n = unat (keyboard_buffer_size r);
     if length (keyboard_buffer r) < n then None
     else Some (on_scr (set_screen_coordinates 0 0) (upd_term i (\<lambda>r. r\<lparr>keyboard_start_coord := (0, 0),
       keyboard_buffer_pos := 0, keyboard_buffer := replicate n 0 @ drop n (keyboard_buffer r), keyboard_buffer_size := 0\<rparr>) t))
   }"

text \<open>The three commands of the control key.\<close>

definition ctrl_l :: "int \<times> int \<Rightarrow> tty \<Rightarrow> tty option" where
  "ctrl_l current t = do {
     (i, _) \<leftarrow> cur_term t;
     let t1 = upd_term i (\<lambda>r. r\<lparr>keyboard_start_coord := (fst (keyboard_start_coord r), 0)\<rparr>)
       (on_scr (set_screen_coordinates (screen_x (scr t)) 0) t);
     ((\<lambda>s. Option.bind s scroll) ^^ nat (snd current)) (Some t1)
   }"

definition ctrl_a :: "tty \<Rightarrow> tty option" where
  "ctrl_a t = do {
     (i, r) \<leftarrow> cur_term t;
     let (x, y) = keyboard_start_coord r;
     Some (upd_term i (\<lambda>r. r\<lparr>keyboard_buffer_pos := 0\<rparr>) (on_scr (set_screen_coordinates x y) (on_scr update_cursor t)))
   }"

definition ctrl_k :: "tty \<Rightarrow> tty option" where
  "ctrl_k t = do {
     (i, r) \<leftarrow> cur_term t;
     let (ox, oy) = read_screen_coordinates (scr t);
     let p = unat (keyboard_buffer_pos r);
     let n = unat (keyboard_buffer_size r) + 1;
     if length (keyboard_buffer r) < n then None
     else do {
       t1 \<leftarrow> putcs (replicate (n - p) 0x20) (on_scr (set_screen_coordinates ox oy) t);
       Some (on_scr (set_screen_coordinates ox oy) (upd_term i (\<lambda>r. r\<lparr>
         keyboard_buffer := take p (keyboard_buffer r) @ replicate (n - p) 0 @ drop (max n p) (keyboard_buffer r),
         keyboard_buffer_size := keyboard_buffer_pos r\<rparr>) t1))
     }
   }"

section \<open>Printing leaves the lines alone\<close>

text \<open>
  Printing may move the place where a line starts on the screen, and nothing else of a terminal:
  \<open>line_of\<close> forgets that place, and \<open>core\<close> is what printing preserves.
\<close>

definition line_of :: "terminal_info \<Rightarrow> terminal_info" where
  "line_of r = r\<lparr>keyboard_start_coord := (0, 0)\<rparr>"

definition core :: "tty \<Rightarrow> terminal_info list \<times> nat option \<times> int \<times> u32" where
  "core t = (map line_of (terminals t), current_terminal t, scrollback_offset t, real_vidmem (scr t))"

lemma line_of_fields:
  assumes "line_of r' = line_of r"
  shows "index r' = index r" "keyboard_read_flag r' = keyboard_read_flag r" "keyboard_buffer_pos r' = keyboard_buffer_pos r"
    "keyboard_buffer_size r' = keyboard_buffer_size r" "keyboard_buffer r' = keyboard_buffer r"
    "keyboard_read_buffer r' = keyboard_read_buffer r" "history_size r' = history_size r" "history_curr r' = history_curr r"
    "command_history r' = command_history r" "video_memory r' = video_memory r" "video_memory_base r' = video_memory_base r"
  using assms unfolding line_of_def by (cases r; cases r'; simp)+

lemma line_of_eqE:
  assumes "line_of r' = line_of r" obtains k where "r' = r\<lparr>keyboard_start_coord := k\<rparr>"
proof (rule that)
  show "r' = r\<lparr>keyboard_start_coord := keyboard_start_coord r'\<rparr>"
    using assms by (cases r; cases r') (simp add: line_of_def)
qed

lemma line_of_idem [simp]: "line_of (line_of r) = line_of r"
  by (simp add: line_of_def)

lemma line_of_lower_start [simp]: "line_of (lower_start r) = line_of r"
  by (simp add: line_of_def lower_start_def)

lemma vidmem_simps [simp]:
  "real_vidmem (hide_cursor s) = real_vidmem s" "real_vidmem (show_cursor s) = real_vidmem s"
  "real_vidmem (put_cell x y c s) = real_vidmem s" "real_vidmem (set_screen_coordinates x y s) = real_vidmem s"
  "real_vidmem (clear_char_attrib x y s) = real_vidmem s" "real_vidmem (erase_cursor r s) = real_vidmem s"
  by (simp_all add: hide_cursor_def show_cursor_def put_cell_def set_screen_coordinates_def clear_char_attrib_def erase_cursor_def
    Let_def split_beta)

lemma core_on_scr [simp]: "real_vidmem (f (scr t)) = real_vidmem (scr t) \<Longrightarrow> core (on_scr f t) = core t"
  by (simp add: core_def on_scr_def)

lemma core_on_mem [simp]: "core (on_mem f t) = core t"
  by (simp add: core_def on_mem_def on_scr_def)

lemma core_upd [simp]:
  assumes "\<And>r. line_of (f r) = line_of r" shows "core (upd_term i f t) = core t"
proof -
  have "map line_of ((terminals t)[i := f (terminals t ! i)]) = map line_of (terminals t)"
    by (rule nth_equalityI; cases "i < length (terminals t)") (auto simp: nth_list_update assms)
  then show ?thesis by (simp add: core_def upd_term_def)
qed

lemma core_length: "core t' = core t \<Longrightarrow> length (terminals t') = length (terminals t)"
  unfolding core_def prod.inject by (metis length_map)

lemma core_upd_cong:
  assumes "core t' = core t" "\<And>r r'. line_of r' = line_of r \<Longrightarrow> line_of (f' r') = line_of (f r)"
  shows "core (upd_term i f' t') = core (upd_term i f t)"
proof (cases "i < length (terminals t)")
  case True
  then have "line_of (terminals t' ! i) = line_of (terminals t ! i)"
    using assms(1) core_length [OF assms(1)] nth_map [of i "terminals t" line_of] nth_map [of i "terminals t'" line_of]
    by (simp add: core_def)
  then show ?thesis using assms by (simp add: core_def upd_term_def map_update)
next
  case False
  then show ?thesis using assms(1) core_length [OF assms(1)] by (simp add: core_def upd_term_def list_update_beyond)
qed

lemma cur_term_Some:
  "cur_term t = Some (i, r) \<longleftrightarrow> current_terminal t = Some i \<and> i < length (terminals t) \<and> r = terminals t ! i"
  by (auto simp: cur_term_def term_at_def Option.bind_eq_Some_conv)

lemma cur_term_core:
  assumes "core t' = core t" "cur_term t = Some (i, r)"
  obtains r' where "cur_term t' = Some (i, r')" "line_of r' = line_of r"
proof -
  have i: "i < length (terminals t)" "current_terminal t = Some i" "r = terminals t ! i" using assms(2) by (auto simp: cur_term_Some)
  have "cur_term t' = Some (i, terminals t' ! i)" using assms(1) core_length [OF assms(1)] i by (simp add: cur_term_Some core_def)
  moreover have "line_of (terminals t' ! i) = line_of r"
    using assms(1) core_length [OF assms(1)] i nth_map [of i "terminals t" line_of] nth_map [of i "terminals t'" line_of]
    by (simp add: core_def)
  ultimately show ?thesis by (rule that)
qed

lemma term_at_core: "core t' = core t \<Longrightarrow> term_at i t \<noteq> None \<Longrightarrow> term_at i t' \<noteq> None"
  using core_length [of t' t] by (auto simp: term_at_def split: if_splits)

lemma cur_term_at: "cur_term t = Some (i, r) \<Longrightarrow> term_at i t = Some r"
  by (auto simp: cur_term_Some term_at_def)

text \<open>Each output operation returns and keeps the core.\<close>

lemma scroll_backing_core:
  assumes "term_at i t \<noteq> None" shows "\<exists>t'. scroll_backing i t = Some t' \<and> core t' = core t"
  using assms by (auto simp: scroll_backing_def Let_def)

lemma map_backing_page_core:
  assumes "term_at i t \<noteq> None" shows "\<exists>t'. map_backing_page i t = Some t' \<and> core t' = core t"
  using assms by (auto simp: map_backing_page_def)

lemma scroll_core:
  assumes "cur_term t = Some (i, r)" shows "\<exists>t'. scroll t = Some t' \<and> core t' = core t"
proof -
  have "term_at i t \<noteq> None" using assms by (simp add: cur_term_at)
  then obtain t1 where t1: "map_backing_page i t = Some t1" "core t1 = core t" using map_backing_page_core by blast
  then obtain t2 where "scroll_backing i t1 = Some t2" "core t2 = core t1"
    using scroll_backing_core term_at_core [OF t1(2)] \<open>term_at i t \<noteq> None\<close> by blast
  with t1 assms show ?thesis by (simp add: scroll_def)
qed

lemma screen_ok_set: "screen_ok (set_screen_coordinates x y s)"
proof -
  obtain x' y' where n: "normal_position x y = (x', y')" by fastforce
  show ?thesis using normal_position_range [OF n] set_screen_coordinates_effect(1,2) [OF n] by (simp add: screen_ok_def)
qed

lemma putc_core:
  assumes "cur_term t = Some (i, r)"
  shows "\<exists>t'. putc c t = Some t' \<and> core t' = core t \<and> screen_ok (scr t')"
proof -
  let ?x = "screen_x (scr t)" and ?y = "screen_y (scr t)"
  let ?first = "if c = 10 \<or> c = 13 then
          let t1 = on_scr (set_char_attrib ?x ?y (current_attrib (scr t))) t
          in if NUM_ROWS \<le> ?y + 1 then do { t2 \<leftarrow> scroll t1; Some (0, ?y, t2) } else Some (0, ?y + 1, t1)
        else Some (?x + 1, ?y, on_scr (put_cell ?x ?y c) t)"
  let ?second = "\<lambda>x1 y1 t1. if x1 = NUM_COLS \<and> y1 = NUM_ROWS - 1 then do {
          t2 \<leftarrow> scroll t1; (i, _) \<leftarrow> cur_term t2; Some (0 :: int, upd_term i lower_start t2) } else Some (x1, t1)"
  have any: "\<exists>t2. scroll t1 = Some t2 \<and> core t2 = core t" if "core t1 = core t" for t1
    using scroll_core cur_term_core [OF that assms] that by metis
  have "\<exists>x1 y1 t1. ?first = Some (x1, y1, t1) \<and> core t1 = core t"
    using any [of "on_scr (set_char_attrib ?x ?y (current_attrib (scr t))) t"] by (auto simp: Let_def)
  then obtain x1 y1 t1 where t1: "?first = Some (x1, y1, t1)" "core t1 = core t" by blast
  have "\<exists>x2 t2. ?second x1 y1 t1 = Some (x2, t2) \<and> core t2 = core t"
  proof -
    obtain t2 where t2: "scroll t1 = Some t2" "core t2 = core t" using any [OF t1(2)] by blast
    obtain r2 where "cur_term t2 = Some (i, r2)" using cur_term_core [OF t2(2) assms] by blast
    then show ?thesis using t1 t2 by auto
  qed
  then obtain x2 t2 where t2: "?second x1 y1 t1 = Some (x2, t2)" "core t2 = core t" by blast
  have "putc c t = Some (on_scr (\<lambda>s. set_char_attrib x2 y1 (current_attrib s) s) (on_scr (set_screen_coordinates x2 y1) t2))"
    using t1(1) t2(1) unfolding putc_def by (simp add: Let_def)
  moreover have "screen_ok (scr (on_scr (\<lambda>s. set_char_attrib x2 y1 (current_attrib s) s) (on_scr (set_screen_coordinates x2 y1) t2)))"
    using screen_ok_set [of x2 y1 "scr t2"] by (simp add: on_scr_def screen_ok_def)
  ultimately show ?thesis using t2(2) by simp
qed

lemma putcs_core:
  assumes "cur_term t = Some (i, r)"
  shows "\<exists>t'. putcs cs t = Some t' \<and> core t' = core t \<and> (screen_ok (scr t) \<longrightarrow> screen_ok (scr t'))"
  using assms
proof (induction cs arbitrary: t r)
  case (Cons c cs)
  obtain t1 where t1: "putc c t = Some t1" "core t1 = core t" "screen_ok (scr t1)" using putc_core [OF Cons.prems] by blast
  obtain r1 where "cur_term t1 = Some (i, r1)" using cur_term_core [OF t1(2) Cons.prems] by blast
  then show ?case using Cons.IH t1 by fastforce
qed simp

lemma reprint_core:
  assumes "cur_term t = Some (i, r)" "0 \<in> set (keyboard_buffer r)"
  shows "\<exists>t'. reprint_keyboard_buffer t = Some t' \<and> core t' = core t \<and> screen_ok (scr t')"
proof -
  obtain x y where xy: "keyboard_start_coord r = (x, y)" by fastforce
  let ?t = "on_scr (set_screen_coordinates x y) t"
  have c: "core ?t = core t" by simp
  obtain r1 where "cur_term ?t = Some (i, r1)" using cur_term_core [OF c assms(1)] by blast
  then obtain t' where "putcs (takeWhile (\<lambda>c. c \<noteq> 0) (keyboard_buffer r)) ?t = Some t'" "core t' = core ?t"
      "screen_ok (scr ?t) \<longrightarrow> screen_ok (scr t')" using putcs_core by blast
  then show ?thesis using assms xy screen_ok_set [of x y "scr t"]
    by (simp add: reprint_keyboard_buffer_def puts_wrap_def cstring_def on_scr_def core_def)
qed

section \<open>The buffer as a line with a cursor\<close>

text \<open>
  \<open>edited r b a\<close>: the terminal's buffer holds the line \<open>b @ a\<close> with the cursor between
  \<open>b\<close> and \<open>a\<close>, and zeros behind it.
\<close>

definition line_max :: nat where
  "line_max = BUFFER_SIZE - 2"

definition padded :: "u8 list \<Rightarrow> u8 list" where
  "padded cs = cs @ replicate (BUFFER_SIZE - length cs) 0"

definition edited :: "terminal_info \<Rightarrow> u8 list \<Rightarrow> u8 list \<Rightarrow> bool" where
  "edited r b a \<longleftrightarrow> keyboard_buffer r = padded (b @ a) \<and> 0 \<notin> set (b @ a) \<and> length (b @ a) \<le> line_max \<and>
     unat (keyboard_buffer_pos r) = length b \<and> unat (keyboard_buffer_size r) = length (b @ a)"

lemma buffer_sizes [simp]: "BUFFER_SIZE = 1914" "line_max = 1912"
  by (simp_all add: BUFFER_SIZE_def line_max_def)

lemma edited_line: "line_of r' = line_of r \<Longrightarrow> edited r' b a = edited r b a"
  using line_of_fields [of r' r] by (simp add: edited_def)

lemma length_padded [simp]: "length cs \<le> 1914 \<Longrightarrow> length (padded cs) = 1914"
  by (simp add: padded_def)

lemma takeWhile_padded: "0 \<notin> set cs \<Longrightarrow> takeWhile (\<lambda>c. c \<noteq> 0) (padded cs) = cs"
proof -
  assume "0 \<notin> set cs"
  then have "\<forall>c \<in> set cs. c \<noteq> 0" by blast
  then show ?thesis unfolding padded_def by (subst takeWhile_append2) (simp_all add: takeWhile_replicate)
qed

lemma cstring_padded: "0 \<notin> set cs \<Longrightarrow> length cs < 1914 \<Longrightarrow> cstring (padded cs) = Some cs"
  by (simp add: cstring_def takeWhile_padded) (simp add: padded_def)

lemma strncpy_padded: "0 \<notin> set cs \<Longrightarrow> length cs \<le> 1914 \<Longrightarrow> strncpy_buffer (padded cs) = padded cs"
  by (simp add: strncpy_buffer_def takeWhile_padded Let_def) (simp add: padded_def)

lemma padded_NUL: "length cs < 1914 \<Longrightarrow> 0 \<in> set (padded cs)"
  by (simp add: padded_def)

lemma get_at_append [simp]: "get_at (xs @ v # ys) (length xs) = Some v"
  by (simp add: get_at_def)

lemma put_at_append [simp]: "put_at (xs @ v # ys) (length xs) w = Some (xs @ w # ys)"
  by (simp add: put_at_def)

lemma shift_up_line: "shift_up (length b + length a) (length b) (b @ a @ z # rest) = Some (b @ hd (a @ [z]) # a @ rest)"
proof (induction a arbitrary: z rest rule: rev_induct)
  case Nil
  show ?case by (cases "length b") simp_all
next
  case (snoc v a)
  have "get_at (b @ (a @ [v]) @ z # rest) (length b + length a) = Some v"
    "put_at (b @ (a @ [v]) @ z # rest) (Suc (length b + length a)) v = Some (b @ a @ v # v # rest)"
    using get_at_append [of "b @ a" v "z # rest"] put_at_append [of "b @ a @ [v]" z rest v] by simp_all
  then show ?case using snoc [of v "v # rest"] by (cases a) simp_all
qed

lemma shift_down_line:
  "k < length ys \<Longrightarrow> shift_down (length b) (length b + k) (b @ x # ys) = Some (b @ take (Suc k) ys @ drop k ys)"
proof (induction k arbitrary: b x ys)
  case 0
  then obtain y zs where ys: "ys = y # zs" by (cases ys) auto
  have "get_at (b @ x # y # zs) (length b + 1) = Some y" using get_at_append [of "b @ [x]" y zs] by simp
  then show ?case by (subst shift_down.simps) (simp add: ys shift_down.simps [of "Suc (length b)"])
next
  case (Suc k)
  then obtain y zs where ys: "ys = y # zs" by (cases ys) auto
  have "get_at (b @ x # y # zs) (length b + 1) = Some y" using get_at_append [of "b @ [x]" y zs] by simp
  then show ?case using Suc.IH [of zs "b @ [y]" y] Suc.prems by (subst shift_down.simps) (simp add: ys)
qed

definition strip :: "u8 list \<Rightarrow> u8 list" where
  "strip cs = rev (dropWhile (\<lambda>c. c = 0x20) (rev cs))"

lemma trim_spaces_line: "trim_spaces (length cs) (cs @ rest) = Some (strip cs @ replicate (length cs - length (strip cs)) 0 @ rest)"
proof (induction cs arbitrary: rest rule: rev_induct)
  case (snoc c cs)
  have le: "length (strip cs) \<le> length cs" using length_dropWhile_le [of "\<lambda>c. c = 0x20" "rev cs"] by (simp add: strip_def)
  have "get_at (cs @ c # rest) (length cs) = Some c" by simp
  moreover have "replicate (Suc (length cs) - length (strip cs)) (0 :: u8) = replicate (length cs - length (strip cs)) 0 @ [0]"
    using le by (simp add: Suc_diff_le replicate_append_same)
  ultimately show ?case using snoc [of "0 # rest"] by (auto simp: strip_def list_update_append)
qed (simp add: strip_def)

section \<open>The keys of the line editor\<close>

datatype edit_key = Char u8 | Backspace | Left | Right | Home | Kill

fun edit :: "edit_key \<Rightarrow> u8 list \<times> u8 list \<Rightarrow> u8 list \<times> u8 list" where
  "edit (Char c) (b, a) = (if length b + length a < line_max then (b @ [c], a) else (b, a))"
| "edit Backspace (b, a) = (butlast b, a)"
| "edit Left (b, a) = (if b = [] then (b, a) else (butlast b, last b # a))"
| "edit Right (b, a) = (case a of [] \<Rightarrow> (b, []) | c # cs \<Rightarrow> (b @ [c], cs))"
| "edit Home (b, a) = ([], b @ a)"
| "edit Kill (b, a) = (b, [])"

fun edit_step :: "edit_key \<Rightarrow> tty \<Rightarrow> tty option" where
  "edit_step (Char c) t = do {
     (i, r) \<leftarrow> cur_term t;
     if keyboard_buffer_size r + 1 < of_nat BUFFER_SIZE - 1 then key_char c t else Some t
   }"
| "edit_step Backspace t = handle_backspace t"
| "edit_step Left t = key_left t"
| "edit_step Right t = key_right t"
| "edit_step Home t = ctrl_a t"
| "edit_step Kill t = ctrl_k t"

text \<open>\<open>displays t i b a\<close>: terminal \<open>i\<close> is the visible one and its line is \<open>b @ a\<close>.\<close>

definition displays :: "tty \<Rightarrow> nat \<Rightarrow> u8 list \<Rightarrow> u8 list \<Rightarrow> bool" where
  "displays t i b a \<longleftrightarrow> (\<exists>r. cur_term t = Some (i, r) \<and> edited r b a)"

lemma displays_core: "core t' = core t \<Longrightarrow> displays t' i b a = displays t i b a"
  unfolding displays_def by (metis cur_term_core edited_line)

text \<open>\<open>relined i f t t'\<close>: \<open>t'\<close> is \<open>t\<close> with \<open>f\<close> done to terminal \<open>i\<close>, up to printing.\<close>

definition relined :: "nat \<Rightarrow> (terminal_info \<Rightarrow> terminal_info) \<Rightarrow> tty \<Rightarrow> tty \<Rightarrow> bool" where
  "relined i f t t' \<longleftrightarrow> core t' = core (upd_term i f t)"

lemma relined_displays:
  assumes "relined i f t t'" "cur_term t = Some (i, r)" "edited (f r) b a"
  shows "displays t' i b a"
proof -
  have "cur_term (upd_term i f t) = Some (i, f r)" using assms(2) by (simp add: cur_term_Some upd_term_def)
  then have "displays (upd_term i f t) i b a" using assms(3) by (auto simp: displays_def)
  then show ?thesis using assms(1) displays_core unfolding relined_def by blast
qed

lemma cur_term_upd: "cur_term t = Some (i, r) \<Longrightarrow> cur_term (upd_term i f t) = Some (i, f r)"
  by (simp add: cur_term_Some upd_term_def)

lemma cur_term_on_scr [simp]: "cur_term (on_scr f t) = cur_term t"
  by (simp add: cur_term_def term_at_def on_scr_def cong: if_cong)

lemma unat_add1: "unat (x :: u32) < 4294967295 \<Longrightarrow> unat (x + 1) = Suc (unat x)"
  using unat_add_nowrap [of x 1] by simp

lemma unat_sub1: "0 < (x :: u32) \<Longrightarrow> unat (x - 1) = unat x - 1"
  using word_Suc_minus_one [of x] by simp

lemma edited_room:
  assumes "edited r b a"
  obtains rest where "padded (b @ a) = b @ a @ 0 # 0 # rest" "length rest = 1912 - length (b @ a)"
proof -
  have "1914 - length (b @ a) = Suc (Suc (1912 - length (b @ a)))" using assms by (auto simp: edited_def)
  then have "padded (b @ a) = b @ a @ 0 # 0 # replicate (1912 - length (b @ a)) 0" by (simp add: padded_def)
  then show ?thesis using that [of "replicate (1912 - length (b @ a)) 0"] by simp
qed

lemma key_char_edits:
  assumes t: "cur_term t = Some (i, r)" and e: "edited r b a" and c: "c \<noteq> 0" and room: "length (b @ a) < line_max"
  shows "\<exists>t'. key_char c t = Some t' \<and> relined i (\<lambda>r. r\<lparr>keyboard_buffer := padded (b @ c # a),
    keyboard_buffer_pos := keyboard_buffer_pos r + 1, keyboard_buffer_size := keyboard_buffer_size r + 1\<rparr>) t t'"
proof -
  let ?f = "\<lambda>r. r\<lparr>keyboard_buffer := padded (b @ c # a),
    keyboard_buffer_pos := keyboard_buffer_pos r + 1, keyboard_buffer_size := keyboard_buffer_size r + 1\<rparr>"
  obtain rest where rest: "padded (b @ a) = b @ a @ 0 # 0 # rest" using edited_room [OF e] by blast
  have "padded (b @ c # a) = b @ c # a @ 0 # rest"
  proof -
    have "1914 - length (b @ a) = Suc (1914 - length (b @ c # a))" using room by simp
    then have "padded (b @ a) = b @ a @ 0 # replicate (1914 - length (b @ c # a)) 0" by (simp add: padded_def)
    with rest show ?thesis by (simp add: padded_def)
  qed
  then have b: "shift_up (unat (keyboard_buffer_size r)) (unat (keyboard_buffer_pos r)) (keyboard_buffer r) = Some (b @ hd (a @ [0]) # a @ 0 # rest)"
    "put_at (b @ hd (a @ [0]) # a @ 0 # rest) (unat (keyboard_buffer_pos r)) c = Some (padded (b @ c # a))"
    using e rest shift_up_line [of b a 0 "0 # rest"] put_at_append [of b "hd (a @ [0])" "a @ 0 # rest" c] by (simp_all add: edited_def)
  obtain t1 where t1: "reprint_keyboard_buffer (upd_term i ?f t) = Some t1" "core t1 = core (upd_term i ?f t)"
    using reprint_core [OF cur_term_upd [OF t], of ?f] padded_NUL [of "b @ c # a"] room by auto
  show ?thesis using t b t1 by (simp add: key_char_def Let_def relined_def split: prod.splits)
qed

lemma handle_backspace_edits:
  assumes t: "cur_term t = Some (i, r)" and e: "edited r (b @ [x]) a"
  shows "\<exists>t'. handle_backspace t = Some t' \<and> relined i (\<lambda>r. r\<lparr>keyboard_buffer := padded (b @ a),
    keyboard_buffer_pos := keyboard_buffer_pos r - 1, keyboard_buffer_size := keyboard_buffer_size r - 1\<rparr>) t t'"
proof -
  let ?p = "keyboard_buffer_pos r - 1" and ?n = "keyboard_buffer_size r - 1"
  let ?f = "\<lambda>r'. r'\<lparr>keyboard_buffer := padded (b @ a), keyboard_buffer_pos := ?p, keyboard_buffer_size := ?n\<rparr>"
  let ?g = "\<lambda>r. r\<lparr>keyboard_buffer := padded (b @ a),
    keyboard_buffer_pos := keyboard_buffer_pos r - 1, keyboard_buffer_size := keyboard_buffer_size r - 1\<rparr>"
  obtain rest where rest: "padded ((b @ [x]) @ a) = (b @ [x]) @ a @ 0 # 0 # rest" using edited_room [OF e] by blast
  have pos: "0 < keyboard_buffer_pos r" "0 < keyboard_buffer_size r" using e by (auto simp: edited_def word_neq_0_conv [symmetric])
  have n: "unat ?p = length b" "unat (?n + 1) = length b + (length a + 1)"
    using e unat_sub1 [OF pos(1)] by (simp_all add: edited_def)
  have "1914 - length (b @ a) = Suc (1914 - length ((b @ [x]) @ a))" using e by (auto simp: edited_def)
  then have "padded (b @ a) = b @ a @ 0 # replicate (1914 - length ((b @ [x]) @ a)) 0" by (simp add: padded_def)
  also have "\<dots> = b @ a @ 0 # 0 # 0 # rest" using rest by (simp add: padded_def)
  finally have "shift_down (unat ?p) (unat (?n + 1)) (keyboard_buffer r) = Some (padded (b @ a))"
    using e rest n shift_down_line [of "length a + 1" "a @ 0 # 0 # rest" b x] by (simp add: edited_def)
  moreover
  let ?t = "upd_term i ?f (on_scr (erase_cursor r) t)"
  have t1: "cur_term ?t = Some (i, ?f r)" using t by (simp add: cur_term_upd)
  have "0 \<in> set (padded (b @ a))" using e by (intro padded_NUL) (simp add: edited_def)
  then obtain t2 where t2: "reprint_keyboard_buffer ?t = Some t2" "core t2 = core ?t" using reprint_core [OF t1] by auto
  obtain r2 where "cur_term t2 = Some (i, r2)" using cur_term_core [OF t2(2) t1] by blast
  then obtain t3 where "putc 0x20 t2 = Some t3" "core t3 = core t2" using putc_core by blast
  moreover have "core ?t = core (upd_term i ?g t)"
  proof -
    have "upd_term i ?g t = upd_term i ?f t" using t by (simp add: upd_term_def cur_term_Some)
    moreover have "core ?t = core (upd_term i ?f t)" 
      by (rule core_upd_cong) (auto simp: line_of_def elim!: line_of_eqE [unfolded line_of_def])
    ultimately show ?thesis by simp
  qed
  ultimately show ?thesis using t t2 pos by (simp add: handle_backspace_def Let_def relined_def split: prod.splits)
qed

text \<open>The keys that only move the cursor or cut the line.\<close>

definition steady :: "(terminal_info \<Rightarrow> terminal_info) \<Rightarrow> bool" where
  "steady f \<longleftrightarrow> (\<forall>r k. line_of (f (r\<lparr>keyboard_start_coord := k\<rparr>)) = line_of (f r))"

lemma relined_core:
  assumes "steady f" "core t1 = core t" "core t' = core (upd_term i f t1)" shows "relined i f t t'"
proof -
  have "core (upd_term i f t1) = core (upd_term i f t)"
    using assms(2) by (rule core_upd_cong) (use assms(1) in \<open>auto simp: steady_def elim!: line_of_eqE\<close>)
  then show ?thesis using assms(3) by (simp add: relined_def)
qed

lemma key_left_edits:
  assumes "cur_term t = Some (i, r)" "0 < keyboard_buffer_pos r"
  shows "\<exists>t'. key_left t = Some t' \<and> relined i (\<lambda>r. r\<lparr>keyboard_buffer_pos := keyboard_buffer_pos r - 1\<rparr>) t t'"
  using assms by (auto simp: key_left_def Let_def steady_def line_of_def split: prod.splits intro!: relined_core [of _ "on_scr (erase_cursor r) t"])

lemma key_right_edits:
  assumes "cur_term t = Some (i, r)" "keyboard_buffer_pos r < keyboard_buffer_size r"
  shows "\<exists>t'. key_right t = Some t' \<and> relined i (\<lambda>r. r\<lparr>keyboard_buffer_pos := keyboard_buffer_pos r + 1\<rparr>) t t'"
  using assms by (auto simp: key_right_def Let_def steady_def line_of_def split: prod.splits intro!: relined_core [of _ "on_scr (erase_cursor r) t"])

lemma ctrl_a_edits:
  assumes "cur_term t = Some (i, r)"
  shows "\<exists>t'. ctrl_a t = Some t' \<and> relined i (\<lambda>r. r\<lparr>keyboard_buffer_pos := 0\<rparr>) t t'"
proof -
  obtain x y where k: "keyboard_start_coord r = (x, y)" by fastforce
  have "relined i (\<lambda>r. r\<lparr>keyboard_buffer_pos := 0\<rparr>) t
      (upd_term i (\<lambda>r. r\<lparr>keyboard_buffer_pos := 0\<rparr>) (on_scr (set_screen_coordinates x y) (on_scr update_cursor t)))"
    by (rule relined_core [of _ "on_scr (set_screen_coordinates x y) (on_scr update_cursor t)"]) (simp_all add: steady_def line_of_def)
  with assms k show ?thesis by (simp add: ctrl_a_def Let_def)
qed

lemma ctrl_k_edits:
  assumes t: "cur_term t = Some (i, r)" and e: "edited r b a"
  shows "\<exists>t'. ctrl_k t = Some t' \<and>
    relined i (\<lambda>r. r\<lparr>keyboard_buffer := padded b, keyboard_buffer_size := keyboard_buffer_pos r\<rparr>) t t'"
proof -
  let ?g = "\<lambda>r. r\<lparr>keyboard_buffer := padded b, keyboard_buffer_size := keyboard_buffer_pos r\<rparr>"
  obtain x y where xy: "read_screen_coordinates (scr t) = (x, y)" by fastforce
  let ?p = "unat (keyboard_buffer_pos r)" and ?n = "unat (keyboard_buffer_size r) + 1"
  let ?f = "\<lambda>r. r\<lparr>keyboard_buffer := take ?p (keyboard_buffer r) @ replicate (?n - ?p) 0 @ drop (max ?n ?p) (keyboard_buffer r),
         keyboard_buffer_size := keyboard_buffer_pos r\<rparr>"
  have t0: "cur_term (on_scr (set_screen_coordinates x y) t) = Some (i, r)" using t by simp
  obtain t1 where t1: "putcs (replicate (?n - ?p) 0x20) (on_scr (set_screen_coordinates x y) t) = Some t1" "core t1 = core t"
    using putcs_core [OF t0, of "replicate (?n - ?p) 0x20"] by auto
  have n: "?p = length b" "?n = length b + length a + 1" "length b + length a \<le> 1912" "keyboard_buffer r = padded (b @ a)"
    using e by (auto simp: edited_def)
  obtain rest where rest: "padded (b @ a) = b @ a @ 0 # 0 # rest" "length rest = 1912 - length (b @ a)" using edited_room [OF e] by blast
  have "keyboard_buffer r = (b @ a @ [0]) @ replicate (1913 - length (b @ a)) 0"
  proof -
    have "1914 - length (b @ a) = Suc (1913 - length (b @ a))" using n(3) by simp
    then show ?thesis using n(4) by (simp add: padded_def)
  qed
  then have "take ?p (keyboard_buffer r) @ replicate (?n - ?p) 0 @ drop (max ?n ?p) (keyboard_buffer r) =
      b @ replicate (length a + 1) 0 @ replicate (1913 - length (b @ a)) 0"
    using n(1,2) by (simp add: max_def)
  also have "\<dots> = b @ replicate (length a + 1 + (1913 - length (b @ a))) 0" by (simp only: replicate_add)
  also have "length a + 1 + (1913 - length (b @ a)) = 1914 - length b" using n(3) by simp
  also have "b @ replicate (1914 - length b) 0 = padded b" by (simp add: padded_def)
  finally have "upd_term i ?g t = upd_term i ?f t" using t by (simp add: upd_term_def cur_term_Some)
  moreover have "relined i ?f t (on_scr (set_screen_coordinates x y) (upd_term i ?f t1))"
    using t1(2) by (intro relined_core [of _ t1]) (simp_all add: steady_def line_of_def)
  moreover have "\<not> length (keyboard_buffer r) < ?n" using n by simp
  ultimately show ?thesis using t t1 xy by (simp add: ctrl_k_def Let_def relined_def)
qed

lemma edited_bounds:
  assumes "edited r b a"
  shows "unat (keyboard_buffer_pos r) = length b" "unat (keyboard_buffer_size r) = length b + length a"
    "0 < keyboard_buffer_pos r \<longleftrightarrow> b \<noteq> []" "keyboard_buffer_pos r < keyboard_buffer_size r \<longleftrightarrow> a \<noteq> []"
    "keyboard_buffer_size r + 1 < of_nat BUFFER_SIZE - 1 \<longleftrightarrow> length b + length a < line_max" "length b + length a \<le> 1912"
proof -
  have p: "unat (keyboard_buffer_pos r) = length b" "unat (keyboard_buffer_size r) = length b + length a" "length b + length a \<le> 1912"
    using assms by (auto simp: edited_def)
  then show "unat (keyboard_buffer_pos r) = length b" "unat (keyboard_buffer_size r) = length b + length a" "length b + length a \<le> 1912" by simp_all
  show "0 < keyboard_buffer_pos r \<longleftrightarrow> b \<noteq> []" "keyboard_buffer_pos r < keyboard_buffer_size r \<longleftrightarrow> a \<noteq> []"
    using p by (simp_all add: word_less_nat_alt)
  show "keyboard_buffer_size r + 1 < of_nat BUFFER_SIZE - 1 \<longleftrightarrow> length b + length a < line_max"
    using p unat_add1 [of "keyboard_buffer_size r"] by (simp add: word_less_nat_alt)
qed

lemma edit_step_refines:
  assumes "displays t i b a" "\<forall>c. k = Char c \<longrightarrow> c \<noteq> 0" "edit k (b, a) = (b', a')"
  shows "\<exists>t'. edit_step k t = Some t' \<and> displays t' i b' a'"
proof -
  obtain r where t: "cur_term t = Some (i, r)" and e: "edited r b a" using assms(1) by (auto simp: displays_def)
  note bd = edited_bounds [OF e]
  show ?thesis
  proof (cases k)
    case (Char c)
    show ?thesis
    proof (cases "length b + length a < line_max")
      case True
      obtain t' where t': "key_char c t = Some t'" "relined i (\<lambda>r. r\<lparr>keyboard_buffer := padded (b @ c # a),
          keyboard_buffer_pos := keyboard_buffer_pos r + 1, keyboard_buffer_size := keyboard_buffer_size r + 1\<rparr>) t t'"
        using key_char_edits [OF t e, of c] True assms(2) Char by auto
      have "displays t' i (b @ [c]) a"
        by (rule relined_displays [OF t'(2) t]) (use e bd True assms(2) Char in \<open>simp add: edited_def unat_add1\<close>)
      then show ?thesis using t t'(1) True bd(5) Char assms(3) by simp
    next
      case False
      then show ?thesis using t bd(5) Char assms(1,3) by simp
    qed
  next
    case Backspace
    show ?thesis
    proof (cases b rule: rev_cases)
      case Nil
      then show ?thesis using t bd(3) Backspace assms(1,3) by (auto simp: handle_backspace_def)
    next
      case (snoc ys x)
      obtain t' where t': "handle_backspace t = Some t'" "relined i (\<lambda>r. r\<lparr>keyboard_buffer := padded (ys @ a),
          keyboard_buffer_pos := keyboard_buffer_pos r - 1, keyboard_buffer_size := keyboard_buffer_size r - 1\<rparr>) t t'"
        using handle_backspace_edits [OF t e [unfolded snoc]] by blast
      have "0 < keyboard_buffer_pos r" "0 < keyboard_buffer_size r" using bd(1,2) snoc by (simp_all add: word_less_nat_alt)
      then have "unat (keyboard_buffer_pos r - 1) = length ys" "unat (keyboard_buffer_size r - 1) = length ys + length a"
        using bd(1,2) snoc by (simp_all add: unat_sub1)
      then have "displays t' i ys a"
        by (intro relined_displays [OF t'(2) t]) (use e snoc in \<open>auto simp: edited_def\<close>)
      then show ?thesis using t'(1) snoc Backspace assms(3) by simp
    qed
  next
    case Left
    show ?thesis
    proof (cases b rule: rev_cases)
      case Nil
      then show ?thesis using t bd(3) Left assms(1,3) by (auto simp: key_left_def Let_def split: prod.splits)
    next
      case (snoc ys x)
      then have p: "0 < keyboard_buffer_pos r" using bd(3) by simp
      then obtain t' where t': "key_left t = Some t'" "relined i (\<lambda>r. r\<lparr>keyboard_buffer_pos := keyboard_buffer_pos r - 1\<rparr>) t t'"
        using key_left_edits [OF t] by blast
      have "unat (keyboard_buffer_pos r - 1) = length ys" using bd(1) snoc by (simp add: unat_sub1 [OF p])
      then have "displays t' i ys (x # a)"
        by (intro relined_displays [OF t'(2) t]) (use e snoc in \<open>auto simp: edited_def\<close>)
      then show ?thesis using t'(1) snoc Left assms(3) by auto
    qed
  next
    case Right
    show ?thesis
    proof (cases a)
      case Nil
      then show ?thesis using t bd(4) Right assms(1,3) by (auto simp: key_right_def Let_def split: prod.splits)
    next
      case (Cons c cs)
      then obtain t' where t': "key_right t = Some t'" "relined i (\<lambda>r. r\<lparr>keyboard_buffer_pos := keyboard_buffer_pos r + 1\<rparr>) t t'"
        using key_right_edits [OF t] bd(4) by blast
      have "displays t' i (b @ [c]) cs"
        by (rule relined_displays [OF t'(2) t]) (use e bd Cons in \<open>auto simp: edited_def unat_add1\<close>)
      then show ?thesis using t'(1) Cons Right assms(3) by auto
    qed
  next
    case Home
    obtain t' where t': "ctrl_a t = Some t'" "relined i (\<lambda>r. r\<lparr>keyboard_buffer_pos := 0\<rparr>) t t'" using ctrl_a_edits [OF t] by blast
    have "displays t' i [] (b @ a)" by (rule relined_displays [OF t'(2) t]) (use e in \<open>simp add: edited_def\<close>)
    then show ?thesis using t'(1) Home assms(3) by simp
  next
    case Kill
    obtain t' where t': "ctrl_k t = Some t'"
      "relined i (\<lambda>r. r\<lparr>keyboard_buffer := padded b, keyboard_buffer_size := keyboard_buffer_pos r\<rparr>) t t'" using ctrl_k_edits [OF t e] by blast
    have "displays t' i b []" by (rule relined_displays [OF t'(2) t]) (use e in \<open>auto simp: edited_def\<close>)
    then show ?thesis using t'(1) Kill assms(3) by simp
  qed
qed

section \<open>A terminal at boot\<close>

definition fresh_terminal :: terminal_info where
  "fresh_terminal = \<lparr>index = 0, keyboard_read_flag = False, keyboard_start_coord = (0, 0), keyboard_buffer_pos = 0,
     keyboard_buffer_size = 0, keyboard_buffer = padded [], keyboard_read_buffer = padded [], history_size = 0, history_curr = 0,
     command_history = replicate 16 (padded []), current_position = (0, 0), video_memory = 0xC004B00, video_memory_base = 0xC004B00\<rparr>"

definition fresh_tty :: tty where
  "fresh_tty = \<lparr>scr = blank_screen, terminals = [fresh_terminal], current_terminal = Some 0, scrollback_offset = 0\<rparr>"

end
