(* ===== verification/Sb16.thy ===== *)
theory Sb16
  imports Pic
begin

text \<open>
  The part of the sound driver \<^verbatim>\<open>sb16.c\<close> that only talks to the hardware: the DMA controllers
  and the commands of the sound card. The card and the controllers are the bytes written to their
  ports, oldest first. The waits for the card to be ready are taken to end.
\<close>

section \<open>State\<close>

record sb16 =
  sb_process :: "nat option"
  sb_fd :: int
  sb_channel :: u8
  sb_mode :: u8
  sb_playing :: bool
  sb_second :: bool
  sb_ports :: port_log

definition STATUS_8BIT :: u8 where "STATUS_8BIT = 2"

definition STATUS_SIGNED :: u8 where "STATUS_SIGNED = 4"

definition STATUS_MONO :: u8 where "STATUS_MONO = 8"

definition DMA_MODE_AI :: u8 where "DMA_MODE_AI = 0x58"

definition LO_BYTE :: "u32 \<Rightarrow> u8" where "LO_BYTE data = ucast (data AND 0xFF)"

definition HI_BYTE :: "u32 \<Rightarrow> u8" where "HI_BYTE data = ucast (drop_bit 8 data AND 0xFF)"

definition page_port :: "u16 list" where
  "page_port = [0x87, 0x83, 0x81, 0x82, 0x8F, 0x8B, 0x89, 0x8A]"

section \<open>Ports\<close>

definition dma_outb :: "u8 \<Rightarrow> u16 \<Rightarrow> sb16 \<Rightarrow> sb16" where
  "dma_outb data port s = s\<lparr>sb_ports := sb_ports s @ [(port, data)]\<rparr>"

definition sb16_outb :: "u8 \<Rightarrow> u16 \<Rightarrow> sb16 \<Rightarrow> sb16" where
  "sb16_outb data offset s = s\<lparr>sb_ports := sb_ports s @ [(0x220 + offset, data)]\<rparr>"

definition sb16_dsp_write :: "u8 \<Rightarrow> sb16 \<Rightarrow> sb16" where
  "sb16_dsp_write b s = sb16_outb b 0xC s"

definition sb16_reset :: "sb16 \<Rightarrow> sb16" where
  "sb16_reset s = sb16_outb 0 6 (sb16_outb 1 6 s)"

definition init_sb16 :: "sb16 \<Rightarrow> sb16" where
  "init_sb16 s = (sb16_reset s)\<lparr>sb_process := None, sb_fd := 0, sb_channel := 1, sb_mode := 0, sb_playing := False\<rparr>"

section \<open>The DMA controllers\<close>

definition enable_dma :: "u32 \<Rightarrow> sb16 \<Rightarrow> sb16" where
  "enable_dma dmanr s = (if dmanr \<le> 3 then dma_outb (ucast dmanr) 0xA s else dma_outb (ucast (dmanr AND 3)) 0xD4 s)"

definition disable_dma :: "u32 \<Rightarrow> sb16 \<Rightarrow> sb16" where
  "disable_dma dmanr s = (if dmanr \<le> 3 then dma_outb (ucast (dmanr OR 4)) 0xA s else dma_outb (ucast ((dmanr AND 3) OR 4)) 0xD4 s)"

definition clear_dma_ff :: "u32 \<Rightarrow> sb16 \<Rightarrow> sb16" where
  "clear_dma_ff dmanr s = (if dmanr \<le> 3 then dma_outb 0 0xC s else dma_outb 0 0xD8 s)"

definition set_dma_mode :: "u32 \<Rightarrow> u8 \<Rightarrow> sb16 \<Rightarrow> sb16" where
  "set_dma_mode dmanr mode s = (if dmanr \<le> 3 then dma_outb (mode OR ucast dmanr) 0xB s else dma_outb (mode OR ucast (dmanr AND 3)) 0xD6 s)"

definition set_dma_page :: "u32 \<Rightarrow> u8 \<Rightarrow> sb16 \<Rightarrow> sb16" where
  "set_dma_page dmanr pagenr s =
     (if dmanr \<le> 3 then dma_outb pagenr (page_port ! unat dmanr) s else dma_outb (pagenr AND 0xFE) (page_port ! unat dmanr) s)"

definition set_dma_addr :: "u32 \<Rightarrow> u32 \<Rightarrow> sb16 \<Rightarrow> sb16" where
  "set_dma_addr dmanr addr s =
     (let s1 = set_dma_page dmanr (ucast (drop_bit 16 addr)) s in
      if dmanr \<le> 3 then
        let port = ucast (push_bit 1 (dmanr AND 3)) in dma_outb (HI_BYTE addr) port (dma_outb (LO_BYTE addr) port s1)
      else
        let port = ucast (push_bit 2 (dmanr AND 3)) + 0xC0
        in dma_outb (HI_BYTE (addr div 2)) port (dma_outb (LO_BYTE (addr div 2)) port s1))"

definition set_dma_count :: "u32 \<Rightarrow> u32 \<Rightarrow> sb16 \<Rightarrow> sb16" where
  "set_dma_count dmanr n s =
     (let count = n - 1 in
      if dmanr \<le> 3 then
        let port = ucast (push_bit 1 (dmanr AND 3)) + 1 in dma_outb (HI_BYTE count) port (dma_outb (LO_BYTE count) port s)
      else
        let port = ucast (push_bit 2 (dmanr AND 3)) + 2 + 0xC0
        in dma_outb (HI_BYTE (count div 2)) port (dma_outb (LO_BYTE (count div 2)) port s))"

definition dma_start :: "u8 \<Rightarrow> u32 \<Rightarrow> u32 \<Rightarrow> u8 \<Rightarrow> sb16 \<Rightarrow> sb16" where
  "dma_start channel addr n mode s =
     (if channel \<ge> 8 then s
      else let c = ucast channel
        in enable_dma c (set_dma_count c n (set_dma_addr c addr (set_dma_mode c mode (clear_dma_ff c (disable_dma c s))))))"

section \<open>Commands\<close>

definition sb16_start_playback :: "u32 \<Rightarrow> sb16 \<Rightarrow> sb16" where
  "sb16_start_playback n s =
     (let block_size = ucast n :: u16;
          command = (if sb_mode s AND STATUS_8BIT \<noteq> 0 then 0xC0 else 0xB0) OR 0x06;
          mode = (if sb_mode s AND STATUS_MONO \<noteq> 0 then 0x00 else 0) OR (if sb_mode s AND STATUS_SIGNED \<noteq> 0 then 0x10 else 0);
          last_byte = block_size - 1
      in sb16_dsp_write (HI_BYTE (ucast last_byte)) (sb16_dsp_write (LO_BYTE (ucast last_byte))
           (sb16_dsp_write mode (sb16_dsp_write command s))))"

definition sb16_pause_playback :: "sb16 \<Rightarrow> sb16 \<times> int" where
  "sb16_pause_playback s =
     (if \<not> sb_playing s then (s, - 1)
      else (sb16_dsp_write (if sb_mode s AND STATUS_8BIT \<noteq> 0 then 0xD0 else 0xD5) s, 0))"

definition sb16_resume_playback :: "sb16 \<Rightarrow> sb16 \<times> int" where
  "sb16_resume_playback s =
     (if \<not> sb_playing s then (s, - 1)
      else (sb16_dsp_write (if sb_mode s AND STATUS_8BIT \<noteq> 0 then 0xD4 else 0xD6) s, 0))"

definition sb16_stop_playback_after :: "sb16 \<Rightarrow> sb16" where
  "sb16_stop_playback_after s = sb16_dsp_write (if sb_mode s AND STATUS_8BIT \<noteq> 0 then 0xDA else 0xD9) s"

definition sb16_set_sample_rate :: "u16 \<Rightarrow> sb16 \<Rightarrow> sb16" where
  "sb16_set_sample_rate hz s =
     sb16_dsp_write (LO_BYTE (ucast hz)) (sb16_dsp_write (HI_BYTE (ucast hz)) (sb16_dsp_write 0x41 s))"

section \<open>What a controller holds after \<open>dma_start\<close>\<close>

text \<open>
  The controllers seen from outside: the bytes written to a port, in order; an address or a count
  is the two bytes after the flip-flop was cleared, low byte first, in words for the controller of
  the 16-bit channels.
\<close>

definition written :: "port_log \<Rightarrow> u16 \<Rightarrow> u8 list" where
  "written l p = map snd (filter (\<lambda>(q, _). q = p) l)"

definition byte_pair :: "u8 list \<Rightarrow> nat" where
  "byte_pair bs = (case bs of [lo, hi] \<Rightarrow> unat lo + 256 * unat hi | _ \<Rightarrow> 0)"

lemma LO_HI: "unat (LO_BYTE w) + 256 * unat (HI_BYTE w) = unat w mod 65536"
proof -
  have m: "(0xFF :: u32) = mask 8" by (simp add: mask_eq_exp_minus_1)
  have lo: "unat (LO_BYTE w) = unat w mod 256"
    by (simp add: LO_BYTE_def m unsigned_ucast_eq take_bit_eq_mod unat_mod flip: take_bit_eq_mask)
  have hi: "unat (HI_BYTE w) = unat w div 256 mod 256"
    by (simp add: HI_BYTE_def m unsigned_ucast_eq take_bit_eq_mod drop_bit_eq_div unat_mod unat_div flip: take_bit_eq_mask)
  have "65536 = 256 * (256 :: nat)" by simp
  then show ?thesis unfolding lo hi by (metis mod_mult2_eq add.commute)
qed

lemma written_append [simp]: "written (l @ l') p = written l p @ written l' p"
  by (simp add: written_def)

lemma written_Cons [simp]: "written ((q, b) # l) p = (if q = p then b # written l p else written l p)"
  by (simp add: written_def)

lemma written_Nil [simp]: "written [] p = []"
  by (simp add: written_def)

lemma and_FE: "unat (x AND 0xFE) = 2 * (unat x div 2)" for x :: u8
proof -
  have m: "(127 :: nat) = mask 7" by (simp add: mask_eq_exp_minus_1)
  have "unat x < 2 ^ LENGTH(8)" by (rule unsigned_less)
  then have "unat x div 2 < 2 ^ 7" by simp
  then have "unat x div 2 AND 127 = unat x div 2"
    unfolding m by (simp only: take_bit_nat_eq_self flip: take_bit_eq_mask)
  moreover have "unat x AND 254 = 2 * (unat x div 2 AND 127)" by (subst and_rec) simp
  ultimately show ?thesis by (simp add: unsigned_and_eq)
qed

section \<open>Properties\<close>

text \<open>
  Programming a transfer: after \<open>dma_start\<close> on the 8-bit channel 1 or the 16-bit channel 5
  the controller's page register and its address together hold the address of the buffer (which
  must be even for channel 5), its count is one
  less than the length, in words for channel 5, and the channel is masked first and unmasked last.
\<close>

theorem dma_start_programs:
  assumes "addr < 0x1000000" "0 < n" "n \<le> 0x10000" "c = 1 \<or> c = 5 \<and> even (unat addr) \<and> even (unat n)" "sb_ports s = []"
  shows "let l = sb_ports (dma_start c addr n mode s); w = (if c = 1 then 1 else 2) in
    hd l = (if c = 1 then (0xA, 5) else (0xD4, 5)) \<and> last l = (if c = 1 then (0xA, 1) else (0xD4, 1)) \<and>
    unat (hd (written l (if c = 1 then 0x83 else 0x8B))) * 65536 + byte_pair (written l (if c = 1 then 2 else 0xC4)) * w = unat addr \<and>
    (byte_pair (written l (if c = 1 then 3 else 0xC6)) + 1) * w = unat n"
proof -
  note defs = dma_start_def enable_dma_def disable_dma_def clear_dma_ff_def set_dma_mode_def set_dma_addr_def set_dma_page_def
    set_dma_count_def dma_outb_def page_port_def Let_def
  have n: "unat (n - 1) = unat n - 1" "unat n \<le> 65536" "0 < unat n"
    using assms(2,3) by (simp_all add: unat_minus_one word_le_nat_alt unat_gt_0)
  have a: "unat addr < 16777216" using assms(1) by (simp add: word_less_nat_alt)
  have page: "unat (ucast (drop_bit 16 addr) :: u8) = unat addr div 65536"
    using a by (simp add: unsigned_ucast_eq take_bit_eq_mod drop_bit_eq_div unat_div less_mult_imp_div_less)
  have lt: "\<not> (8 :: u8) \<le> 1" "\<not> (8 :: u8) \<le> 5" by (simp_all add: word_le_nat_alt)
  show ?thesis
  proof (cases "c = 1")
    case True
    have "unat (LO_BYTE (n - 1)) + 256 * unat (HI_BYTE (n - 1)) + 1 = unat n" unfolding LO_HI n(1) using n(2,3) by simp
    moreover have "unat addr div 65536 * 65536 + unat addr mod 65536 = unat addr" by simp
    ultimately show ?thesis using True assms(5) page LO_HI [of addr] by (simp add: defs byte_pair_def lt)
  next
    case False
    then have c: "c = 5" "even (unat addr)" "even (unat n)" using assms(4) by simp_all
    have "unat ((ucast (drop_bit 16 addr) :: u8) AND 0xFE) = 2 * (unat addr div 131072)"
      using page by (simp add: and_FE)
    moreover have "unat (addr div 2) = unat addr div 2" by (simp add: unat_div)
    moreover have "2 * (unat addr div 131072) * 65536 + unat addr div 2 mod 65536 * 2 = unat addr"
    proof -
      obtain a' where a': "unat addr = 2 * a'" using c(2) by (elim evenE)
      have "a' div 65536 * 131072 + a' mod 65536 * 2 = 2 * a'" using div_mult_mod_eq [of a' 65536] by linarith
      moreover have "2 * a' div 131072 = a' div 65536" using div_mult_mult1 [of 2 a' 65536] by simp
      ultimately show ?thesis unfolding a' by (simp add: mult.commute)
    qed
    moreover have "unat ((n - 1) div 2) mod 65536 = unat n div 2 - 1" using n c(3) by (auto simp: unat_div elim!: evenE)
    ultimately show ?thesis using False c assms(5) LO_HI [of "addr div 2"] LO_HI [of "(n - 1) div 2"] n
      by (auto simp: defs byte_pair_def lt elim!: evenE)
  qed
qed

definition silent_card :: sb16 where
  "silent_card = \<lparr>sb_process = None, sb_fd = 0, sb_channel = 1, sb_mode = 0, sb_playing = False, sb_second = False, sb_ports = []\<rparr>"

theorem dma_start_programs_witness:
  "byte_pair (written (sb_ports (dma_start 1 0x420000 0x10000 DMA_MODE_AI silent_card)) 3) = 65535"
  using dma_start_programs [of "0x420000" "0x10000" 1 silent_card DMA_MODE_AI] by (simp add: silent_card_def Let_def)

end
