(* ===== verification/Kernel.thy ===== *)
theory Kernel
  imports Kmem Lib_String Filesystem Task_Queue Paging Pic Spinlock Rtc Terminal Sb16
begin

text \<open>
  The state of the whole kernel. There is one machine memory: it is the field \<open>kbytes\<close> of
  the allocator's record, and \<open>on_tty\<close> and the other lifts hand it to a component and take
  it back. Process control blocks are kept apart from it, in a table indexed by the process
  number (in the kernel their place is computed from that number), and a \<^verbatim>\<open>process_t*\<close> is
  a process number.
\<close>

section \<open>Processes\<close>

text \<open>
  Where a process continues: at the label in \<open>task_switch\<close>, at the label in
  \<open>syscall_execute\<close>, or at the first instruction of its program.
\<close>

datatype code_addr = No_addr | Task_switch_back | Syscall_restore_regs | Start u32

record process =
  p_pid :: nat
  user_stack :: u32
  kernel_stack :: u32
  page_start :: u32
  open_files :: "file_info list"
  program :: "u8 list"
  args :: "u8 list"
  ret_val :: u32
  ret_addr :: code_addr
  p_level :: int
  p_parent :: "nat option"
  p_task :: "u32 option"
  p_terminal :: "nat option"
  vidmap_flag :: bool

section \<open>The kernel\<close>

record kernel =
  km :: kmem
  runqueue :: task_queue
  pages :: paging
  ktty :: tty
  procs :: "nat \<Rightarrow> process"
  current_process :: nat
  process_in_terminal :: "nat option list"
  kstatus :: status_bar
  kfs :: fs
  clock :: rtc
  irqs :: pic
  cflags :: cpu_flags
  terminal_lock :: u32
  shift_set :: bool
  ctrl_set :: bool
  alt_set :: bool
  exec_dir :: "u32 list"
  esp0 :: u32
  kmouse :: mouse
  pit_interrupt_occurred :: bool
  pit_ports :: port_log
  sound :: sb16

definition mem :: "kernel \<Rightarrow> memory" where
  "mem k = kbytes (km k)"

definition set_mem :: "memory \<Rightarrow> kernel \<Rightarrow> kernel" where
  "set_mem m k = k\<lparr>km := (km k)\<lparr>kbytes := m\<rparr>\<rparr>"

definition the_tty :: "kernel \<Rightarrow> tty" where
  "the_tty k = on_scr (\<lambda>s. s\<lparr>smem := mem k\<rparr>) (ktty k)"

definition put_tty :: "tty \<Rightarrow> kernel \<Rightarrow> kernel" where
  "put_tty t k = set_mem (smem (scr t)) (k\<lparr>ktty := t\<rparr>)"

definition on_tty :: "(tty \<Rightarrow> tty option) \<Rightarrow> kernel \<Rightarrow> kernel option" where
  "on_tty f k = do { t \<leftarrow> f (the_tty k); Some (put_tty t k) }"

definition on_screen :: "(screen \<Rightarrow> screen) \<Rightarrow> kernel \<Rightarrow> kernel" where
  "on_screen f k = put_tty (on_scr f (the_tty k)) k"

definition on_status :: "(status_bar \<Rightarrow> screen \<Rightarrow> status_bar \<times> screen) \<Rightarrow> kernel \<Rightarrow> kernel" where
  "on_status f k =
     (let (st, s) = f (kstatus k) (scr (the_tty k)) in on_screen (\<lambda>_. s) (k\<lparr>kstatus := st\<rparr>))"

definition upd_proc :: "nat \<Rightarrow> (process \<Rightarrow> process) \<Rightarrow> kernel \<Rightarrow> kernel" where
  "upd_proc p f k = k\<lparr>procs := (procs k)(p := f (procs k p))\<rparr>"

lemma put_tty_simps [simp]:
  "the_tty (put_tty t k) = t" "mem (put_tty t k) = smem (scr t)" "ktty (put_tty t k) = t"
  "runqueue (put_tty t k) = runqueue k" "pages (put_tty t k) = pages k" "procs (put_tty t k) = procs k"
  "current_process (put_tty t k) = current_process k" "process_in_terminal (put_tty t k) = process_in_terminal k"
  "kstatus (put_tty t k) = kstatus k" "kfs (put_tty t k) = kfs k" "clock (put_tty t k) = clock k" "irqs (put_tty t k) = irqs k"
  "cflags (put_tty t k) = cflags k" "terminal_lock (put_tty t k) = terminal_lock k" "shift_set (put_tty t k) = shift_set k"
  "ctrl_set (put_tty t k) = ctrl_set k" "alt_set (put_tty t k) = alt_set k" "exec_dir (put_tty t k) = exec_dir k"
  "esp0 (put_tty t k) = esp0 k" "kmouse (put_tty t k) = kmouse k" "sound (put_tty t k) = sound k"
  by (simp_all add: put_tty_def the_tty_def set_mem_def mem_def on_scr_def)

lemma on_screen_simps [simp]:
  "the_tty (on_screen f k) = on_scr f (the_tty k)" "runqueue (on_screen f k) = runqueue k" "pages (on_screen f k) = pages k"
  "procs (on_screen f k) = procs k" "current_process (on_screen f k) = current_process k"
  "process_in_terminal (on_screen f k) = process_in_terminal k" "kstatus (on_screen f k) = kstatus k" "kfs (on_screen f k) = kfs k"
  "clock (on_screen f k) = clock k" "irqs (on_screen f k) = irqs k" "cflags (on_screen f k) = cflags k"
  "terminal_lock (on_screen f k) = terminal_lock k" "shift_set (on_screen f k) = shift_set k" "ctrl_set (on_screen f k) = ctrl_set k"
  "alt_set (on_screen f k) = alt_set k" "esp0 (on_screen f k) = esp0 k" "kmouse (on_screen f k) = kmouse k" "sound (on_screen f k) = sound k"
  by (simp_all add: on_screen_def)

lemma the_tty_scr [simp]: "smem (scr (the_tty k)) = mem k" "terminals (the_tty k) = terminals (ktty k)"
  "current_terminal (the_tty k) = current_terminal (ktty k)" "scrollback_offset (the_tty k) = scrollback_offset (ktty k)"
  by (simp_all add: the_tty_def on_scr_def)

section \<open>A kernel with one shell\<close>

text \<open>The kernel process is number 0; process 1 runs in terminal 0. Used in examples.\<close>

definition closed_file :: file_info where
  "closed_file = \<lparr>f_ops = None, inode_ptr = 0, pos = 0, f_type = FileRegular, can_write = False, can_read = False, in_use = False\<rparr>"

definition plain_process :: "nat \<Rightarrow> process" where
  "plain_process p = \<lparr>p_pid = p, user_stack = 0x8400000, kernel_stack = 0x800000 - 0x2000 * of_nat p, page_start = 0x848000,
     open_files = replicate 8 closed_file, program = replicate 33 0, args = replicate 100 0, ret_val = 0, ret_addr = No_addr,
     p_level = int p, p_parent = (if p = 0 then None else Some 0), p_task = None,
     p_terminal = (if p = 0 then None else Some 0), vidmap_flag = False\<rparr>"

definition plain_kernel :: kernel where
  "plain_kernel = \<lparr>km = init_mem \<lparr>regions = (\<lambda>_. \<lparr>r_ptr = 0, r_size = 0, r_next = None, r_prev = None, r_in_use = False\<rparr>),
       free_regions = None, allocated_regions = None, kbytes = (\<lambda>_. 0)\<rparr>,
     runqueue = \<lparr>tasks = (\<lambda>_. \<lparr>t_process = 0, t_status = TaskActive, t_next = None, t_prev = None\<rparr>), q_head = None, q_tail = None, num_tasks = 0\<rparr>,
     pages = blank_tables, ktty = fresh_tty, procs = plain_process, current_process = 1,
     process_in_terminal = Some 1 # replicate 9 None, kstatus = plain_bar,
     kfs = \<lparr>fs_start = 0, inodes = 0, dentries = 0, data_blocks = 0\<rparr>,
     clock = \<lparr>current_freq = 2, num_tics = 0, rtc_lock = 0, freq_users = replicate 11 0, rtc_index = 0, rtc_reg = (\<lambda>_. 0), int_flag = True\<rparr>,
     irqs = masked_pic, cflags = \<lparr>eflags = 0x200\<rparr>, terminal_lock = 0, shift_set = False, ctrl_set = False, alt_set = False,
     exec_dir = replicate 15 0, esp0 = 0, kmouse = still_mouse, pit_interrupt_occurred = False, pit_ports = [], sound = silent_card\<rparr>"

end
