(* ===== verification/Line_Editing.thy ===== *)
theory Line_Editing
  imports Terminal
begin

text \<open>
  What the line editor of \<^verbatim>\<open>keyboard.c\<close> promises: the interface of a line editor as a locale,
  its interpretation on the model of the terminals, the enter key and the command history.
\<close>

section \<open>The interface of a line editor\<close>

fun run_keys :: "('k \<Rightarrow> 's \<Rightarrow> 's option) \<Rightarrow> 'k list \<Rightarrow> 's \<Rightarrow> 's option" where
  "run_keys step [] s = Some s"
| "run_keys step (k # ks) s = Option.bind (step k s) (run_keys step ks)"

locale line_editor =
  fixes step :: "'k \<Rightarrow> 's \<Rightarrow> 's option"
    and line :: "'s \<Rightarrow> 'c list \<Rightarrow> 'c list \<Rightarrow> bool"
    and spec :: "'k \<Rightarrow> 'c list \<times> 'c list \<Rightarrow> 'c list \<times> 'c list"
    and key_ok :: "'k \<Rightarrow> bool"
  assumes step_spec: "line s b a \<Longrightarrow> key_ok k \<Longrightarrow> spec k (b, a) = (b', a') \<Longrightarrow> \<exists>s'. step k s = Some s' \<and> line s' b' a'"
begin

lemma run_spec:
  assumes "line s b a" "\<forall>k \<in> set ks. key_ok k" "fold spec ks (b, a) = (b', a')"
  shows "\<exists>s'. run_keys step ks s = Some s' \<and> line s' b' a'"
  using assms
proof (induction ks arbitrary: s b a)
  case (Cons k ks)
  obtain b1 a1 where k: "spec k (b, a) = (b1, a1)" by fastforce
  then obtain s1 where "step k s = Some s1" "line s1 b1 a1" using step_spec [OF Cons.prems(1) _ k] Cons.prems(2) by auto
  then show ?case using Cons.IH [of s1 b1 a1] Cons.prems k by simp
qed simp

end

definition typable :: "edit_key \<Rightarrow> bool" where
  "typable k \<longleftrightarrow> (\<forall>c. k = Char c \<longrightarrow> c \<noteq> 0)"

interpretation editor: line_editor edit_step "\<lambda>t. displays t i" edit typable for i
proof unfold_locales
  fix t b a k b' a'
  assume "displays t i b a" "typable k" "edit k (b, a) = (b', a')"
  then show "\<exists>t'. edit_step k t = Some t' \<and> displays t' i b' a'" unfolding typable_def by (rule edit_step_refines)
qed

section \<open>History and the enter key\<close>

text \<open>
  \<open>recalls r hs n\<close>: the sixteen slots of the history hold the strings \<open>hs\<close>, the first
  \<open>n\<close> of them in use. \<open>remember\<close> is what enter does to them.
\<close>

definition recalls :: "terminal_info \<Rightarrow> u8 list list \<Rightarrow> nat \<Rightarrow> bool" where
  "recalls r hs n \<longleftrightarrow> command_history r = map padded hs \<and> length hs = 16 \<and> (\<forall>h \<in> set hs. 0 \<notin> set h \<and> length h \<le> line_max) \<and>
     unat (history_size r) = n \<and> n \<le> 16"

fun remember :: "u8 list \<Rightarrow> u8 list list \<times> nat \<Rightarrow> u8 list list \<times> nat" where
  "remember l (hs, n) = (if n = 16 then (tl hs @ [l], 16) else (hs[n := l], n + 1))"

lemma recalls_line: "line_of r' = line_of r \<Longrightarrow> recalls r' hs n = recalls r hs n"
  using line_of_fields [of r' r] by (simp add: recalls_def)

lemma push_history_remembers:
  assumes h: "recalls r hs n" and e: "edited r b a" and m: "remember (b @ a) (hs, n) = (hs', n')"
  shows "push_history r = Some (r\<lparr>command_history := map padded hs', history_size := of_nat n', history_curr := int n'\<rparr>)"
proof -
  have k: "keyboard_buffer r = padded (b @ a)" "0 \<notin> set (b @ a)" "length (b @ a) \<le> 1914" using e by (auto simp: edited_def)
  have s: "strncpy_buffer (padded (b @ a)) = padded (b @ a)" using k(2,3) by (rule strncpy_padded)
  have len: "length hs = 16" "command_history r = map padded hs" "history_size r = of_nat n" "n \<le> 16"
    using h by (auto simp: recalls_def)
  show ?thesis
  proof (cases "n = 16")
    case True
    have tl: "map strncpy_buffer (tl (map padded hs)) = map padded (tl hs)"
    proof -
      have "strncpy_buffer (padded x) = padded x" if "x \<in> set (tl hs)" for x
      proof (rule strncpy_padded)
        show "0 \<notin> set x" "length x \<le> 1914" using h list.set_sel(2) [OF _ that] len(1) by (fastforce simp: recalls_def)+
      qed
      then show ?thesis by (simp add: map_tl [symmetric])
    qed
    have "hs \<noteq> []" using len(1) by auto
    then have "put_at (map padded (tl hs) @ [last (map padded hs)]) 15 (padded (b @ a)) = Some (map padded (tl hs @ [b @ a]))"
      using put_at_append [of "map padded (tl hs)" "last (map padded hs)" "[]" "padded (b @ a)"] len(1) by simp
    moreover have "hs' = tl hs @ [b @ a]" "n' = 16" using True m by simp_all
    ultimately show ?thesis using True tl len s k(1) by (simp add: push_history_def MAX_HISTORY_CMDS_def)
  next
    case False
    then have "n < 16" using len by simp
    then have u: "unat (of_nat n :: u32) = n" "(of_nat n :: u32) \<noteq> 16"
      using unat_of_nat_u32 [of n] by (auto dest: arg_cong [of _ _ unat])
    have "int (unat (1 + of_nat n :: u32)) = int (n + 1)" using \<open>n < 16\<close> unat_of_nat_u32 [of "n + 1"] by simp
    then have v: "uint (1 + of_nat n :: u32) = int n + 1" by simp
    have "hs' = hs[n := b @ a]" "n' = Suc n" using False m by simp_all
    then show ?thesis using False \<open>n < 16\<close> u v len s k(1)
      by (simp add: push_history_def MAX_HISTORY_CMDS_def put_at_def map_update add.commute)
  qed
qed

text \<open>
  What a program reads: the line and a newline, or just the line without its trailing spaces
  when it has some.
\<close>

definition entered :: "u8 list \<Rightarrow> u8 list" where
  "entered l = (if strip l = l then l @ [10] else strip l)"

lemma strip_prefix: "strip l = take (length (strip l)) l"
  by (simp add: strip_def dropWhile_eq_drop rev_drop)

lemma strip_length: "length (strip l) \<le> length l"
  using length_dropWhile_le [of "\<lambda>c. c = 0x20" "rev l"] by (simp add: strip_def)

lemma strip_nonzero: "0 \<notin> set l \<Longrightarrow> 0 \<notin> set (strip l)"
  using strip_prefix [of l] by (metis in_set_takeD)

lemma strncpy_entered:
  assumes "0 \<notin> set l" "length l \<le> 1912"
  shows "strncpy_buffer (strip l @ replicate (length l - length (strip l)) 0 @ 10 # replicate (1913 - length l) 0) = padded (entered l)"
proof (cases "strip l = l")
  case True
  have "takeWhile (\<lambda>c. c \<noteq> 0) (l @ 10 # replicate (1913 - length l) 0) = l @ [10]"
  proof -
    have "c \<in> set l \<Longrightarrow> c \<noteq> 0" for c using assms(1) by blast
    then show ?thesis by (subst takeWhile_append2) (simp_all add: takeWhile_replicate)
  qed
  then show ?thesis using True assms by (simp add: strncpy_buffer_def entered_def padded_def Let_def)
next
  case False
  have "length (strip l) \<noteq> length l" using strip_prefix [of l] False by auto
  then have lt: "length (strip l) < length l" using strip_length [of l] by simp
  then have "replicate (length l - length (strip l)) (0 :: u8) = 0 # replicate (length l - length (strip l) - 1) 0"
    by (cases "length l - length (strip l)") simp_all
  then have "takeWhile (\<lambda>c. c \<noteq> 0) (strip l @ replicate (length l - length (strip l)) 0 @ 10 # replicate (1913 - length l) 0) = strip l"
  proof -
    have "c \<in> set (strip l) \<Longrightarrow> c \<noteq> 0" for c using strip_nonzero [OF assms(1)] by blast
    moreover assume "replicate (length l - length (strip l)) (0 :: u8) = 0 # replicate (length l - length (strip l) - 1) 0"
    ultimately show ?thesis by (subst takeWhile_append2) simp_all
  qed
  moreover have "length l - length (strip l) + Suc (1913 - length l) = 1914 - length (strip l)" using lt assms(2) by simp
  ultimately show ?thesis using False by (simp add: strncpy_buffer_def entered_def padded_def Let_def)
qed

lemma handle_enter_effect:
  assumes t: "cur_term t = Some (i, r)" and e: "edited r b a" and h: "recalls r hs n" and m: "remember (b @ a) (hs, n) = (hs', n')"
  shows "\<exists>t' r'. handle_enter t = Some t' \<and> cur_term t' = Some (i, r') \<and> edited r' [] [] \<and> recalls r' hs' n' \<and>
    history_curr r' = int n' \<and> keyboard_read_buffer r' = padded (entered (b @ a)) \<and> keyboard_read_flag r' \<and> index r' = index r"
proof -
  let ?l = "b @ a"
  let ?r = "r\<lparr>command_history := map padded hs', history_size := of_nat n', history_curr := int n'\<rparr>"
  have p: "push_history r = Some ?r" using h e m by (rule push_history_remembers)
  have l: "0 \<notin> set ?l" "length ?l \<le> 1912" "keyboard_buffer r = padded ?l" "unat (keyboard_buffer_size r) = length ?l"
    using e by (auto simp: edited_def)
  have n': "n' \<le> 16" "unat (of_nat n' :: u32) = n'" using h m by (auto simp: recalls_def unat_of_nat_u32 split: if_splits)
  let ?b = "?l @ 10 # replicate (1913 - length ?l) 0"
  have "keyboard_buffer r = ?l @ 0 # replicate (1913 - length ?l) 0"
  proof -
    have "1914 - length ?l = Suc (1913 - length ?l)" using l(2) by simp
    then show ?thesis using l(3) by (simp add: padded_def)
  qed
  then have pb: "put_at (keyboard_buffer ?r) (unat (keyboard_buffer_size ?r)) 10 = Some ?b"
    using l(4) put_at_append [of ?l 0 "replicate (1913 - length ?l) 0" 10] by simp
  have "0 \<in> set ?b" using l(2) by simp
  then obtain t1 where t1: "reprint_keyboard_buffer (upd_term i (\<lambda>_. ?r\<lparr>keyboard_buffer := ?b\<rparr>) t) = Some t1"
      "core t1 = core (upd_term i (\<lambda>_. ?r\<lparr>keyboard_buffer := ?b\<rparr>) t)"
    using reprint_core [OF cur_term_upd [OF t, of "\<lambda>_. ?r\<lparr>keyboard_buffer := ?b\<rparr>"]] by auto
  obtain r1 where r1: "cur_term t1 = Some (i, r1)" "line_of r1 = line_of (?r\<lparr>keyboard_buffer := ?b\<rparr>)"
    using cur_term_core [OF t1(2) cur_term_upd [OF t]] by blast
  obtain cx cy where c: "read_screen_coordinates (scr t1) = (cx, cy)" by fastforce
  let ?b1 = "strip ?l @ replicate (length ?l - length (strip ?l)) 0 @ 10 # replicate (1913 - length ?l) 0"
  have tr: "trim_spaces (unat (keyboard_buffer_size ?r)) ?b = Some ?b1" using l(4) trim_spaces_line [of ?l "10 # replicate (1913 - length ?l) 0"] by simp
  have b1: "strncpy_buffer ?b1 = padded (entered ?l)" using l(1,2) by (rule strncpy_entered)
  have lb: "length ?b1 = 1914" using strip_length [of ?l] l(2) by simp
  let ?f = "\<lambda>r. r\<lparr>keyboard_start_coord := (cx mod 256, cy mod 256), keyboard_read_buffer := strncpy_buffer ?b1,
     keyboard_buffer := replicate (length ?b1) 0, keyboard_buffer_pos := 0, keyboard_buffer_size := 0, keyboard_read_flag := True\<rparr>"
  have "handle_enter t = Some (upd_term i ?f t1)"
    unfolding handle_enter_def using t p pb t1(1) c tr by simp
  moreover have "cur_term (upd_term i ?f t1) = Some (i, ?f r1)" using r1(1) by (rule cur_term_upd)
  moreover have "edited (?f r1) [] []" unfolding lb by (simp add: edited_def padded_def)
  moreover have "recalls (?f r1) hs' n'"
  proof -
    have "\<forall>x \<in> set hs'. 0 \<notin> set x \<and> length x \<le> line_max" "length hs' = 16"
      using h m l(1,2) set_update_subset_insert [of hs n ?l] list.set_sel(2) [of hs]
      by (fastforce simp: recalls_def split: if_splits)+
    then show ?thesis using line_of_fields [OF r1(2)] n' by (simp add: recalls_def)
  qed
  moreover have "history_curr (?f r1) = int n'" "index (?f r1) = index r" using line_of_fields [OF r1(2)] by simp_all
  ultimately show ?thesis using b1 by (intro exI [of _ "upd_term i ?f t1"] exI [of _ "?f r1"]) simp
qed

lemma history_move_effect:
  assumes t: "cur_term t = Some (i, r)" and e: "edited r b a" and h: "recalls r hs n"
    and k: "0 \<le> history_curr r + off" "history_curr r + off \<le> int n"
  shows "if history_curr r + off < 16
    then \<exists>t' r'. history_move off t = Some t' \<and> cur_term t' = Some (i, r') \<and> edited r' (hs ! nat (history_curr r + off)) [] \<and>
      recalls r' hs n \<and> history_curr r' = history_curr r + off
    else history_move off t = None"
proof -
  let ?k = "nat (history_curr r + off)"
  let ?t0 = "on_scr (set_screen_coordinates (fst (keyboard_start_coord r)) (snd (keyboard_start_coord r)))
     (upd_term i (\<lambda>r. r\<lparr>keyboard_buffer := replicate (length (keyboard_buffer r)) 0\<rparr>) t)"
  have t0: "cur_term ?t0 = Some (i, r\<lparr>keyboard_buffer := replicate (length (keyboard_buffer r)) 0\<rparr>)"
    using t by (simp add: cur_term_upd)
  obtain t2 where t2: "putcs (replicate (unat (keyboard_buffer_size r)) 0x20) ?t0 = Some t2" "core t2 = core ?t0"
    using putcs_core [OF t0, of "replicate (unat (keyboard_buffer_size r)) 0x20"] by blast
  obtain r2 where r2: "cur_term t2 = Some (i, r2)" "line_of r2 = line_of (r\<lparr>keyboard_buffer := replicate (length (keyboard_buffer r)) 0\<rparr>)"
    using cur_term_core [OF t2(2) t0] by blast
  have guard: "0 \<le> history_curr r + off \<and> history_curr r + off \<le> int (unat (history_size r))" using k h by (simp add: recalls_def)
  show ?thesis
  proof (cases "history_curr r + off < 16")
    case False
    then have "get_at (command_history r) ?k = None" using h by (auto simp: get_at_def recalls_def)
    with False show ?thesis unfolding history_move_def using t guard t2(1) by (simp add: Let_def)
  next
    case True
    let ?h = "hs ! ?k"
    have "?h \<in> set hs" using True k h by (auto simp: recalls_def)
    then have hh: "0 \<notin> set ?h" "length ?h \<le> 1912" using h by (auto simp: recalls_def)
    have g: "get_at (command_history r) ?k = Some (padded ?h)" using True k(1) h by (auto simp: get_at_def recalls_def)
    have s: "strncpy_buffer (padded ?h) = padded ?h" "cstring (padded ?h) = Some ?h"
      using hh by (intro strncpy_padded cstring_padded; simp)+
    let ?f = "\<lambda>r. r\<lparr>keyboard_buffer := padded ?h, keyboard_buffer_pos := of_nat (length ?h), keyboard_buffer_size := of_nat (length ?h)\<rparr>"
    have "0 \<in> set (padded ?h)" using hh(2) by (intro padded_NUL) simp
    then obtain t3 where t3: "reprint_keyboard_buffer (upd_term i ?f t2) = Some t3" "core t3 = core (upd_term i ?f t2)"
      using reprint_core [OF cur_term_upd [OF r2(1), of ?f]] by auto
    obtain r3 where r3: "cur_term t3 = Some (i, r3)" "line_of r3 = line_of (?f r2)" using cur_term_core [OF t3(2) cur_term_upd [OF r2(1)]] by blast
    let ?r = "r3\<lparr>history_curr := history_curr r + off\<rparr>"
    have "history_move off t = Some (upd_term i (\<lambda>r'. r'\<lparr>history_curr := history_curr r + off\<rparr>) t3)"
      unfolding history_move_def using t guard t2(1) g s t3(1) by (simp add: Let_def)
    moreover have "edited ?r ?h []" using line_of_fields [OF r3(2)] hh by (simp add: edited_def unat_of_nat_u32)
    moreover have "recalls ?r hs n" using line_of_fields [OF r3(2)] line_of_fields [OF r2(2)] h by (simp add: recalls_def)
    ultimately show ?thesis using True cur_term_upd [OF r3(1)] by auto
  qed
qed

section \<open>Properties\<close>

lemma fresh_displays: "displays fresh_tty 0 [] []" "recalls fresh_terminal (replicate 16 []) 0" "cur_term fresh_tty = Some (0, fresh_terminal)"
  by (simp_all add: displays_def cur_term_Some fresh_tty_def fresh_terminal_def edited_def recalls_def)

text \<open>
  C4. The line editor refines its specification: for any sequence of typed characters,
  backspaces, arrows, Ctrl-A and Ctrl-K, every buffer access is in bounds, the loops end, and the
  buffer ends up as the line with cursor that the abstract editor computes, cut at 1912
  characters.
\<close>

theorem line_editor_refines:
  assumes "displays t i b a" "\<forall>k \<in> set ks. \<forall>c. k = Char c \<longrightarrow> c \<noteq> 0" "fold edit ks (b, a) = (b', a')"
  shows "\<exists>t'. run_keys edit_step ks t = Some t' \<and> displays t' i b' a'"
  using assms editor.run_spec [of t i b a ks b' a'] by (simp add: typable_def)

theorem line_editor_refines_witness:
  "\<exists>t'. run_keys edit_step [Char 98, Left, Char 97, Backspace, Char 99] fresh_tty = Some t' \<and> displays t' 0 [99] [98]"
  using line_editor_refines [OF fresh_displays(1), of "[Char 98, Left, Char 97, Backspace, Char 99]" "[99]" "[98]"] by simp

text \<open>
  Enter hands the line to the reader, adds it to the history, dropping the oldest entry
  of sixteen, and clears the line. What is read is the line and a newline, but a line with
  trailing spaces loses its newline with them.
\<close>

theorem enter_delivers:
  assumes "cur_term t = Some (i, r)" "edited r b a" "recalls r hs n"
  shows "\<exists>t' r'. handle_enter t = Some t' \<and> cur_term t' = Some (i, r') \<and> edited r' [] [] \<and>
    (case remember (b @ a) (hs, n) of (hs', n') \<Rightarrow> recalls r' hs' n' \<and> history_curr r' = int n') \<and>
    keyboard_read_flag r' \<and>
    cstring (keyboard_read_buffer r') = Some (if strip (b @ a) = b @ a then b @ a @ [10] else strip (b @ a))"
proof -
  obtain hs' n' where m: "remember (b @ a) (hs, n) = (hs', n')" by fastforce
  obtain t' r' where "handle_enter t = Some t'" "cur_term t' = Some (i, r')" "edited r' [] []" "recalls r' hs' n'" "history_curr r' = int n'"
    "keyboard_read_flag r'" and rb: "keyboard_read_buffer r' = padded (entered (b @ a))"
    using handle_enter_effect [OF assms m] by blast
  moreover have "cstring (padded (entered (b @ a))) = Some (entered (b @ a))"
    using assms(2) strip_length [of "b @ a"] strip_nonzero [of "b @ a"] by (intro cstring_padded) (auto simp: entered_def edited_def)
  ultimately show ?thesis using m by (simp add: entered_def)
qed

definition typed_terminal :: terminal_info where
  "typed_terminal = fresh_terminal\<lparr>keyboard_buffer := padded [108, 115, 32], keyboard_buffer_pos := 3, keyboard_buffer_size := 3\<rparr>"

definition typed_tty :: tty where
  "typed_tty = fresh_tty\<lparr>terminals := [typed_terminal]\<rparr>"

lemma typed_line:
  "cur_term typed_tty = Some (0, typed_terminal)" "edited typed_terminal [108, 115, 32] []" "recalls typed_terminal (replicate 16 []) 0"
  by (simp_all add: cur_term_Some typed_tty_def fresh_tty_def typed_terminal_def fresh_terminal_def edited_def recalls_def)

theorem enter_delivers_witness:
  "\<exists>t' r'. handle_enter typed_tty = Some t' \<and> cur_term t' = Some (0, r') \<and> cstring (keyboard_read_buffer r') = Some [108, 115]"
  using enter_delivers [OF typed_line] by (auto simp: strip_def)

text \<open>
  C28. Enter and then the up arrow bring the line back, cursor at its end, whatever the history
  held before.
\<close>

theorem enter_then_up_recalls:
  assumes "cur_term t = Some (i, r)" "edited r b a" "recalls r hs n"
  shows "\<exists>t1 t2. handle_enter t = Some t1 \<and> history_move (- 1) t1 = Some t2 \<and> displays t2 i (b @ a) []"
proof -
  obtain hs' n' where m: "remember (b @ a) (hs, n) = (hs', n')" by fastforce
  have n': "0 < n'" "n' \<le> 16" "hs' ! (n' - 1) = b @ a" using assms(3) m by (auto simp: recalls_def nth_append split: if_splits)
  obtain t1 r1 where t1: "handle_enter t = Some t1" "cur_term t1 = Some (i, r1)" "edited r1 [] []" "recalls r1 hs' n'" "history_curr r1 = int n'"
    using handle_enter_effect [OF assms m] by blast
  have "nat (history_curr r1 + - 1) = n' - 1" "history_curr r1 + - 1 < 16" "0 \<le> history_curr r1 + - 1" "history_curr r1 + - 1 \<le> int n'"
    using t1(5) n' by auto
  then obtain t2 r2 where "history_move (- 1) t1 = Some t2" "cur_term t2 = Some (i, r2)" "edited r2 (b @ a) []"
    using history_move_effect [OF t1(2,3,4), of "- 1"] n'(3) by auto
  with t1(1) show ?thesis by (auto simp: displays_def)
qed

theorem enter_then_up_recalls_witness:
  "\<exists>t1 t2. handle_enter typed_tty = Some t1 \<and> history_move (- 1) t1 = Some t2 \<and> displays t2 0 [108, 115, 32] []"
  using enter_then_up_recalls [OF typed_line] by simp

text \<open>
  With a full history the down arrow on the newest entry is let through by the check and
  reads a seventeenth entry, outside of the array.
\<close>

theorem history_move_out_of_bounds:
  assumes "cur_term t = Some (i, r)" "edited r b a" "recalls r hs 16" "history_curr r = 15"
  shows "history_move 1 t = None"
  using history_move_effect [OF assms(1-3), of 1] assms(4) by simp

definition full_tty :: tty where
  "full_tty = fresh_tty\<lparr>terminals := [typed_terminal\<lparr>history_size := 16, history_curr := 15\<rparr>]\<rparr>"

theorem history_move_out_of_bounds_witness: "history_move 1 full_tty = None"
proof (rule history_move_out_of_bounds)
  show "cur_term full_tty = Some (0, typed_terminal\<lparr>history_size := 16, history_curr := 15\<rparr>)"
    by (simp add: cur_term_Some full_tty_def fresh_tty_def)
  show "edited (typed_terminal\<lparr>history_size := 16, history_curr := 15\<rparr>) [108, 115, 32] []"
    "recalls (typed_terminal\<lparr>history_size := 16, history_curr := 15\<rparr>) (replicate 16 []) 16"
    using typed_line by (simp_all add: edited_def recalls_def)
qed simp

end
