(* ===== verification/Console.thy ===== *)
theory Console
  imports Kernel Line_Editing
begin

text \<open>
  The rest of \<^verbatim>\<open>keyboard.c\<close>, over the state of the kernel: switching terminals, tab
  completion, the keyboard interrupt, the read and write calls of a terminal and the
  initialisation of the terminals.
\<close>

definition cli :: "cpu_flags \<Rightarrow> cpu_flags" where
  "cli c = c\<lparr>eflags := eflags c AND NOT 0x200\<rparr>"

definition sti :: "cpu_flags \<Rightarrow> cpu_flags" where
  "sti c = c\<lparr>eflags := eflags c OR 0x200\<rparr>"

section \<open>Switching terminals\<close>

text \<open>
  \<open>map_vidmap\<close> remaps the video page of the process of terminal \<open>i\<close>, when it has called
  \<open>vidmap\<close>, as \<open>switch_terminals\<close> does it: with page table 0.
\<close>

definition map_vidmap :: "nat \<Rightarrow> u32 \<Rightarrow> kernel \<Rightarrow> kernel option" where
  "map_vidmap i p_addr k = do {
     who \<leftarrow> get_at (process_in_terminal k) i;
     Some (case who of
        None \<Rightarrow> k
      | Some p \<Rightarrow> if vidmap_flag (procs k p)
          then k\<lparr>pages := map_4kb_page p_addr (MBw 256) (p_pid (procs k p)) KernelPrivilege 0 (pages k)\<rparr> else k)
   }"

definition leave_terminal :: "kernel \<Rightarrow> kernel option" where
  "leave_terminal k =
     (case current_terminal (ktty k) of
        None \<Rightarrow> Some k
      | Some i \<Rightarrow> do {
          r \<leftarrow> term_at i (ktty k);
          let (x, y) = read_screen_coordinates (scr (the_tty k));
          k1 \<leftarrow> on_tty (\<lambda>t. map_backing_page i (upd_term i (\<lambda>r. r\<lparr>current_position := (x mod 256, y mod 256)\<rparr>) t)) k;
          k2 \<leftarrow> map_vidmap (index r) (video_memory r) k1;
          Some (on_status (set_segment_inactive (index r + 2)) k2)
        })"

definition enter_terminal :: "nat \<Rightarrow> kernel \<Rightarrow> kernel option" where
  "enter_terminal i k = do {
     k1 \<leftarrow> on_tty (\<lambda>t. unmap_backing_page i (t\<lparr>current_terminal := Some i\<rparr>)) k;
     r \<leftarrow> term_at i (ktty k1);
     k2 \<leftarrow> map_vidmap (index r) VIDEO k1;
     let (x, y) = current_position r;
     Some (on_status (set_segment_active (index r + 2)) (on_screen show_cursor (on_screen (set_screen_coordinates x y) k2)))
   }"

definition switch_terminals :: "nat option \<Rightarrow> kernel \<Rightarrow> kernel option" where
  "switch_terminals terminal k = do {
     l \<leftarrow> spin_lock (terminal_lock k);
     let (c, flags) = block_interrupts (cflags k);
     let k1 = on_screen hide_cursor (k\<lparr>terminal_lock := l, cflags := c\<rparr>);
     let k2 = (if terminal = None then k1\<lparr>ktty := (ktty k1)\<lparr>current_terminal := None\<rparr>\<rparr> else k1);
     k3 \<leftarrow> leave_terminal k2;
     i \<leftarrow> terminal;
     k4 \<leftarrow> enter_terminal i k3;
     Some (k4\<lparr>terminal_lock := spin_unlock (terminal_lock k4), cflags := restore_interrupts flags (cflags k4)\<rparr>)
   }"

definition new_terminal :: "kernel \<Rightarrow> nat option" where
  "new_terminal k =
     List.find (\<lambda>i. case process_in_terminal k ! i of None \<Rightarrow> True | Some p \<Rightarrow> p_pid (procs k p) = 0) [0..<NUM_TERMINALS]"

section \<open>Tab completion\<close>

text \<open>
  The local arrays of \<open>tab_complete\<close> are at the addresses \<open>cmd\<close> and \<open>buffer\<close> of the
  stack and the literal \<^verbatim>\<open>" "\<close> at \<open>space\<close>; the string functions then work on memory. The
  word to complete starts after the last space of the line.
\<close>

definition last_word :: "u8 list \<Rightarrow> nat" where
  "last_word line = length line - length (takeWhile (\<lambda>c. c \<noteq> 0x20) (rev line))"

definition match_name :: "u32 \<Rightarrow> u32 \<Rightarrow> u32 \<Rightarrow> u32 \<Rightarrow> memory \<Rightarrow> memory option" where
  "match_name cmd buffer space name m = do {
     found \<leftarrow> substr (at m buffer) (at m name);
     if found = 1 then
       if m cmd = 0 then do {
         m1 \<leftarrow> strcpy cmd name m;
         Some (fst (strlcat cmd space 80 m1))
       } else do {
         len \<leftarrow> strcmp (at m name) (at m cmd);
         Some (strncpy cmd name (of_int len) (store_bytes m cmd (replicate 80 0)))
       }
     else Some m
   }"

fun match_names :: "u32 \<Rightarrow> u32 \<Rightarrow> u32 \<Rightarrow> u32 list \<Rightarrow> kmem \<Rightarrow> kmem option" where
  "match_names cmd buffer space [] s = Some s"
| "match_names cmd buffer space (name # names) s = do {
     m \<leftarrow> match_name cmd buffer space name (kbytes s);
     s1 \<leftarrow> kfree name (s\<lparr>kbytes := m\<rparr>);
     match_names cmd buffer space names s1
   }"

definition replace_word :: "u8 list \<Rightarrow> terminal_info \<Rightarrow> terminal_info option" where
  "replace_word cs r =
     (let n = unat (keyboard_buffer_size r);
          i = last_word (take n (keyboard_buffer r));
          b = take i (keyboard_buffer r) @ replicate (n - i) 0 @ drop n (keyboard_buffer r)
      in if length b < i + length cs then None
         else do {
           let b1 = take i b @ cs @ drop (i + length cs) b;
           line \<leftarrow> cstring b1;
           Some (r\<lparr>keyboard_buffer := b1, keyboard_buffer_size := of_nat (length line), keyboard_buffer_pos := of_nat (length line)\<rparr>)
         })"

definition tab_complete :: "u32 \<Rightarrow> u32 \<Rightarrow> u32 \<Rightarrow> kernel \<Rightarrow> kernel option" where
  "tab_complete cmd buffer space k = do {
     let m0 = store_bytes (store_bytes (mem k) cmd (replicate BUFFER_SIZE 0)) buffer (replicate BUFFER_SIZE 0);
     (s1, dir, num_files) \<leftarrow> get_executables (kfs k) (exec_dir k) 15 ((km k)\<lparr>kbytes := m0\<rparr>);
     (i, r) \<leftarrow> cur_term (ktty k);
     let n = unat (keyboard_buffer_size r);
     if length (keyboard_buffer r) < n then None else do {
       let line = take n (keyboard_buffer r);
       let s2 = s1\<lparr>kbytes := store_bytes (kbytes s1) buffer (drop (last_word line) line)\<rparr>;
       s3 \<leftarrow> match_names cmd buffer space (take (nat num_files) dir) s2;
       let k1 = k\<lparr>km := s3, exec_dir := dir\<rparr>;
       if kbytes s3 cmd \<noteq> 0 then do {
         len \<leftarrow> strlen (at (kbytes s3) cmd);
         r1 \<leftarrow> replace_word (bytes (kbytes s3) cmd (unat len)) r;
         Some (k1\<lparr>ktty := upd_term i (\<lambda>_. r1) (ktty k1)\<rparr>)
       } else Some k1
     }
   }"

definition handle_tab :: "u32 \<Rightarrow> u32 \<Rightarrow> u32 \<Rightarrow> kernel \<Rightarrow> kernel option" where
  "handle_tab cmd buffer space k = do {
     (i, r) \<leftarrow> cur_term (ktty k);
     if keyboard_buffer_size r = 0 then Some k
     else do {
       let (x, y) = keyboard_start_coord r;
       k1 \<leftarrow> on_tty (\<lambda>t. putcs (replicate (unat (keyboard_buffer_size r)) 0x20) (on_scr (set_screen_coordinates x y) t)) k;
       k2 \<leftarrow> tab_complete cmd buffer space k1;
       k3 \<leftarrow> on_tty reprint_keyboard_buffer k2;
       (j, q) \<leftarrow> cur_term (ktty k3);
       Some (on_screen (set_screen_coordinates (fst (keyboard_start_coord q) + int (unat (keyboard_buffer_pos q)))
         (snd (keyboard_start_coord q))) k3)
     }
   }"

section \<open>The keyboard interrupt\<close>

definition keyboard_char :: "u8 list" where
  "keyboard_char =
     [0, 0, 49, 50, 51, 52, 53, 54, 55, 56, 57, 48, 45, 61, 0, 0,
      113, 119, 101, 114, 116, 121, 117, 105, 111, 112, 91, 93, 0, 0, 97, 115,
      100, 102, 103, 104, 106, 107, 108, 59, 39, 96, 0, 92, 122, 120, 99, 118,
      98, 110, 109, 44, 46, 47, 0, 0, 0, 32, 0, 0, 0, 0, 0, 0]"

definition keyboard_char_shift :: "u8 list" where
  "keyboard_char_shift =
     [0, 0, 33, 64, 35, 36, 37, 94, 38, 42, 40, 41, 95, 43, 0, 0,
      81, 87, 69, 82, 84, 89, 85, 73, 79, 80, 123, 125, 0, 0, 65, 83,
      68, 70, 71, 72, 74, 75, 76, 58, 34, 126, 0, 124, 90, 88, 67, 86,
      66, 78, 77, 60, 62, 63, 0, 0, 0, 32, 0, 0, 0, 0, 0, 0]"

text \<open>
  The handler, from the outside in: \<open>keypress_handler\<close> gets the three bytes it reads from the
  keyboard's port, \<open>press\<close> is its chain of tests, \<open>press_line\<close> the branch for the keys
  up to space, \<open>plain_key\<close> and \<open>shifted_key\<close> its two halves.
\<close>

definition type_char :: "u8 \<Rightarrow> tty \<Rightarrow> tty option" where
  "type_char c t = (if c \<noteq> 0 then key_char c t else Some t)"

definition room_left :: "kernel \<Rightarrow> bool" where
  "room_left k = (case cur_term (ktty k) of None \<Rightarrow> False | Some (i, r) \<Rightarrow> keyboard_buffer_size r + 1 < of_nat BUFFER_SIZE - 1)"

definition plain_key :: "u32 \<times> u32 \<times> u32 \<Rightarrow> u8 \<Rightarrow> int \<times> int \<Rightarrow> kernel \<Rightarrow> kernel option" where
  "plain_key frame scan current k =
     (if scan = 0x0E then on_tty handle_backspace k
      else if scan = 0x1C then on_tty handle_enter k
      else if scan = 0x0F then (case frame of (cmd, buffer, space) \<Rightarrow> handle_tab cmd buffer space k)
      else if \<not> ctrl_set k \<and> \<not> alt_set k \<and> room_left k then on_tty (type_char (keyboard_char ! unat scan)) k
      else do {
        k1 \<leftarrow> (if ctrl_set k \<and> scan = 0x26 then on_tty (ctrl_l current) k else Some k);
        k2 \<leftarrow> (if ctrl_set k1 \<and> scan = 0x1E then on_tty ctrl_a k1 else Some k1);
        (if ctrl_set k2 \<and> scan = 0x25 then on_tty ctrl_k k2 else Some k2)
      })"

definition shifted_key :: "u32 \<times> u32 \<times> u32 \<Rightarrow> u8 \<Rightarrow> kernel \<Rightarrow> kernel option" where
  "shifted_key frame scan k =
     (if scan = 0x0E then on_tty handle_backspace k
      else if scan = 0x1C then on_tty handle_enter k
      else if scan = 0x0F then (case frame of (cmd, buffer, space) \<Rightarrow> handle_tab cmd buffer space k)
      else if room_left k then on_tty (type_char (keyboard_char_shift ! unat scan)) k
      else Some k)"

definition reset_scrollback :: "kernel \<Rightarrow> kernel option" where
  "reset_scrollback k = on_tty (\<lambda>t. set_scrollback_page 0 (t\<lparr>scrollback_offset := 0\<rparr>)) k"

definition start_line :: "bool \<Rightarrow> nat \<Rightarrow> int \<times> int \<Rightarrow> tty \<Rightarrow> tty" where
  "start_line first i current t =
     (if first then upd_term i (\<lambda>r. r\<lparr>keyboard_start_coord := (fst current mod 256, snd current mod 256)\<rparr>) t else t)"

definition press_line :: "u32 \<times> u32 \<times> u32 \<Rightarrow> u8 \<Rightarrow> int \<times> int \<Rightarrow> kernel \<Rightarrow> kernel option" where
  "press_line frame scan current k = do {
     (i, r) \<leftarrow> cur_term (ktty k);
     who \<leftarrow> get_at (process_in_terminal k) (index r);
     if who = None then Some k
     else do {
       k1 \<leftarrow> reset_scrollback k;
       k2 \<leftarrow> on_tty (\<lambda>t. Some (start_line (keyboard_buffer_size r = 0) i current t)) k1;
       if shift_set k2 then shifted_key frame scan k2 else plain_key frame scan current k2
     }
   }"

definition press :: "u32 \<times> u32 \<times> u32 \<Rightarrow> u8 \<Rightarrow> kernel \<Rightarrow> kernel option" where
  "press frame scan k =
     (let current = read_screen_coordinates (scr (ktty k)) in
      if scan = 0x2A \<or> scan = 0x36 then Some (k\<lparr>shift_set := True\<rparr>)
      else if scan = 0x2A OR 0x80 \<or> scan = 0x36 OR 0x80 then Some (k\<lparr>shift_set := False\<rparr>)
      else if scan = 0x1D then Some (k\<lparr>ctrl_set := True\<rparr>)
      else if scan = 0x1D OR 0x80 then Some (k\<lparr>ctrl_set := False\<rparr>)
      else if scan = 0x38 then Some (k\<lparr>alt_set := True\<rparr>)
      else if scan = 0x38 OR 0x80 then Some (k\<lparr>alt_set := False\<rparr>)
      else if scan = 0x4B then on_tty key_left k
      else if scan = 0x4D then on_tty key_right k
      else if scan = 0x48 then do { k1 \<leftarrow> reset_scrollback k; on_tty (history_move (- 1)) k1 }
      else if scan = 0x50 then do { k1 \<leftarrow> reset_scrollback k; on_tty (history_move 1) k1 }
      else if scan = 0x49 then on_tty (adjust_scrollback_page 1) k
      else if scan = 0x51 then on_tty (adjust_scrollback_page (- 1)) k
      else if alt_set k \<and> 0x3B \<le> scan \<and> scan \<le> 0x41 then do {
        k1 \<leftarrow> reset_scrollback k;
        k2 \<leftarrow> switch_terminals (Some (unat (scan - 0x3B))) (k1\<lparr>terminal_lock := spin_unlock (terminal_lock k1)\<rparr>);
        l \<leftarrow> spin_lock (terminal_lock k2);
        Some (k2\<lparr>terminal_lock := l\<rparr>)
      }
      else if scan \<le> 0x39 then press_line frame scan current k
      else Some k)"

definition keypress_handler :: "u32 \<times> u32 \<times> u32 \<Rightarrow> u8 \<Rightarrow> u8 \<Rightarrow> u8 \<Rightarrow> kernel \<Rightarrow> kernel option" where
  "keypress_handler frame scan0 scan1 scan2 k = do {
     l \<leftarrow> spin_lock (terminal_lock k);
     let k0 = k\<lparr>terminal_lock := l\<rparr>;
     let scan = (if scan0 = 0xE0 then scan1 else scan0);
     k1 \<leftarrow> (if scan \<noteq> 0xE0 then press frame scan (on_screen (\<lambda>s. s\<lparr>cursor_on := True\<rparr>) k0) else Some k0);
     Some (k1\<lparr>irqs := send_eoi 1 (irqs k1), terminal_lock := spin_unlock (terminal_lock k1)\<rparr>)
   }"

section \<open>The calls of a terminal\<close>

text \<open>
  \<open>keyboard_read\<close> schedules other tasks until its terminal is visible and has a line; the
  list says what they and the interrupts do to the kernel in each turn of that loop. The buffer
  it reads has a NUL, so the loop that copies stays inside.
\<close>

definition line_ready :: "kernel \<Rightarrow> bool" where
  "line_ready k \<longleftrightarrow> current_terminal (ktty k) = p_terminal (procs k (current_process k)) \<and>
     (case cur_term (ktty k) of None \<Rightarrow> False | Some (i, r) \<Rightarrow> keyboard_read_flag r)"

fun read_wait :: "(kernel \<Rightarrow> kernel) list \<Rightarrow> kernel \<Rightarrow> kernel option" where
  "read_wait turns k =
     (if line_ready k then Some k else case turns of [] \<Rightarrow> None | f # fs \<Rightarrow> read_wait fs (f k))"

lemma read_wait_simps [simp]:
  "read_wait [] k = (if line_ready k then Some k else None)"
  "read_wait (f # fs) k = (if line_ready k then Some k else read_wait fs (f k))"
  by simp_all

declare read_wait.simps [simp del]

definition keyboard_read :: "(kernel \<Rightarrow> kernel) list \<Rightarrow> u32 \<Rightarrow> int \<Rightarrow> kernel \<Rightarrow> (kernel \<times> int) option" where
  "keyboard_read turns buf nbytes k = do {
     k1 \<leftarrow> read_wait turns k;
     (i, r) \<leftarrow> cur_term (ktty k1);
     line \<leftarrow> cstring (keyboard_read_buffer r);
     let cs = take (nat nbytes) line;
     let m = store_bytes (mem k1) buf (cs @ replicate (nat nbytes - length cs) 0);
     let k2 = k1\<lparr>cflags := cli (cflags k1), ktty := upd_term i (\<lambda>r. r\<lparr>keyboard_read_flag := False\<rparr>) (ktty k1)\<rparr>;
     Some (set_mem m k2, int (length cs))
   }"

definition advance_start :: "u8 \<Rightarrow> terminal_info \<Rightarrow> terminal_info" where
  "advance_start c r =
     (let (x, y) = keyboard_start_coord r; x1 = (x + 1) mod 256
      in r\<lparr>keyboard_start_coord :=
           (if x1 = NUM_COLS \<or> c = 10
            then (0, let y1 = (y + 1) mod 256 in if NUM_ROWS \<le> y1 then NUM_ROWS - 1 else y1) else (x1, y))\<rparr>)"

definition write_char :: "nat option \<Rightarrow> u8 \<Rightarrow> tty \<Rightarrow> tty option" where
  "write_char who c t = do {
     i \<leftarrow> who;
     t1 \<leftarrow> (if current_terminal t = Some i then do {
              t1 \<leftarrow> set_scrollback_page 0 (t\<lparr>scrollback_offset := 0\<rparr>);
              t2 \<leftarrow> putc c (on_scr hide_cursor t1);
              Some (on_scr show_cursor t2)
            } else putc_to_backing c i t);
     _ \<leftarrow> term_at i t1;
     Some (upd_term i (advance_start c) t1)
   }"

fun write_chars :: "nat option \<Rightarrow> nat \<Rightarrow> u32 \<Rightarrow> tty \<Rightarrow> (tty \<times> int) option" where
  "write_chars who 0 buf t = Some (t, 0)"
| "write_chars who (Suc left) buf t =
     (let c = smem (scr t) buf
      in if c \<noteq> 0 then do { t1 \<leftarrow> write_char who c t; (t2, n) \<leftarrow> write_chars who left (buf + 1) t1; Some (t2, n + 1) } else Some (t, 0))"

definition keyboard_write :: "u32 \<Rightarrow> int \<Rightarrow> kernel \<Rightarrow> (kernel \<times> int) option" where
  "keyboard_write buf nbytes k = do {
     let who = p_terminal (procs k (current_process k));
     (t1, n) \<leftarrow> write_chars who (nat nbytes) buf (the_tty k);
     Some (put_tty (if current_terminal t1 = who then on_scr update_cursor t1 else t1) k, n)
   }"

definition keyboard_open :: int where
  "keyboard_open = 0"

definition keyboard_close :: "file_info \<Rightarrow> int" where
  "keyboard_close file = 0"

section \<open>Initialisation and clicks\<close>

definition boot_terminal :: "nat \<Rightarrow> u32 \<Rightarrow> terminal_info" where
  "boot_terminal i p = \<lparr>index = i, keyboard_read_flag = False, keyboard_start_coord = (0, 0), keyboard_buffer_pos = 0,
     keyboard_buffer_size = 0, keyboard_buffer = replicate BUFFER_SIZE 0, keyboard_read_buffer = replicate BUFFER_SIZE 0,
     history_size = 0, history_curr = 0, command_history = replicate MAX_HISTORY_CMDS (replicate BUFFER_SIZE 0),
     current_position = (0, 0), video_memory = p, video_memory_base = p\<rparr>"

definition sizeof_terminal_info :: u32 where
  "sizeof_terminal_info = 34488"

definition init_terminal :: "nat \<Rightarrow> kernel \<Rightarrow> kernel option" where
  "init_terminal i k = do {
     (s1, p) \<leftarrow> kmalloc (PAGE_BYTES * 6) (km k);
     let t = boot_terminal i (p + PAGE_BYTES * 5);
     on_tty (clear_terminal_backing_page i) (k\<lparr>km := s1, ktty := (ktty k)\<lparr>terminals := terminals (ktty k) @ [t]\<rparr>\<rparr>)
   }"

fun init_terminal_loop :: "nat list \<Rightarrow> kernel \<Rightarrow> kernel option" where
  "init_terminal_loop [] k = Some k"
| "init_terminal_loop (i # is) k = do { k1 \<leftarrow> init_terminal i k; init_terminal_loop is k1 }"

definition init_terminals :: "kernel \<Rightarrow> (kernel \<times> int) option" where
  "init_terminals k = do {
     (s1, p) \<leftarrow> kmalloc (6 * of_nat NUM_TERMINALS * sizeof_terminal_info) (km k);
     if p = 0 then None else do {
       k1 \<leftarrow> init_terminal_loop [0..<NUM_TERMINALS] (k\<lparr>km := s1, ktty := (ktty k)\<lparr>terminals := [], current_terminal := Some 0\<rparr>\<rparr>);
       Some (k1\<lparr>kmouse := fst (add_left_click Line_click (kmouse k1))\<rparr>, 0)
     }
   }"

text \<open>
  A click on the line. Two of the ways out return without enabling interrupts again; a start
  column of 80 divides by zero.
\<close>

definition line_click :: "int \<Rightarrow> int \<Rightarrow> kernel \<Rightarrow> kernel option" where
  "line_click x y k = do {
     (i, r) \<leftarrow> cur_term (ktty k);
     let k0 = k\<lparr>cflags := cli (cflags k)\<rparr>;
     let (sx, sy) = keyboard_start_coord r;
     let width = (NUM_COLS - sx) mod 2 ^ 32;
     if width = 0 then None else do {
       let n = int (unat (keyboard_buffer_size r));
       let height = n div width;
       let rem = n mod width;
       let y_off = y - sy;
       if y_off < 0 \<or> height < y_off \<or> (y_off = 0 \<and> x < sx) then Some k0
       else do {
         let x1 = (if y_off = 0 then if height = 0 \<and> sx + rem < x then sx + rem else x
                   else if y_off = height \<and> rem < x then rem else x);
         let k1 = on_screen (clear_char_attrib (sx + int (unat (keyboard_buffer_pos r))) sy) k0;
         let k2 = k1\<lparr>ktty := upd_term i (\<lambda>r. r\<lparr>keyboard_buffer_pos := of_int (y_off * NUM_COLS + x1 - sx)\<rparr>) (ktty k1)\<rparr>;
         let k3 = on_screen (set_screen_coordinates x1 y) k2;
         Some (k3\<lparr>cflags := sti (cflags k3)\<rparr>)
       }
     }
   }"

section \<open>A session at the keyboard\<close>

text \<open>
  \<open>session t i b a hs n\<close>: terminal \<open>i\<close> is visible, its line is \<open>b @ a\<close> with the
  cursor in between, and its history is \<open>hs\<close> with \<open>n\<close> entries in use.
\<close>

definition session :: "tty \<Rightarrow> nat \<Rightarrow> u8 list \<Rightarrow> u8 list \<Rightarrow> u8 list list \<Rightarrow> nat \<Rightarrow> bool" where
  "session t i b a hs n \<longleftrightarrow> (\<exists>r. cur_term t = Some (i, r) \<and> index r = i \<and> edited r b a \<and> recalls r hs n)"

lemma session_core:
  assumes "core t' = core t" "session t i b a hs n" shows "session t' i b a hs n"
proof -
  obtain r where r: "cur_term t = Some (i, r)" "index r = i" "edited r b a" "recalls r hs n" using assms(2) by (auto simp: session_def)
  obtain r' where r': "cur_term t' = Some (i, r')" "line_of r' = line_of r" using cur_term_core [OF assms(1) r(1)] by blast
  then have "index r' = i" "edited r' b a" "recalls r' hs n" 
    using r edited_line [OF r'(2)] recalls_line [OF r'(2)] line_of_fields(1) [OF r'(2)] by simp_all
  with r'(1) show ?thesis by (auto simp: session_def)
qed

lemma relined_session:
  assumes "relined i f t t'" "cur_term t = Some (i, r)" "edited (f r) b a" "recalls (f r) hs n" "index (f r) = i"
  shows "session t' i b a hs n"
proof -
  have "session (upd_term i f t) i b a hs n" using cur_term_upd [OF assms(2)] assms(3-5) by (auto simp: session_def)
  then show ?thesis using assms(1) session_core unfolding relined_def by blast
qed

lemma type_char_session:
  assumes "session t i b a hs n" "c \<noteq> 0" "length b + length a < line_max"
  shows "\<exists>t'. type_char c t = Some t' \<and> session t' i (b @ [c]) a hs n"
proof -
  obtain r where r: "cur_term t = Some (i, r)" "index r = i" "edited r b a" "recalls r hs n" using assms(1) by (auto simp: session_def)
  obtain t' where t': "key_char c t = Some t'" "relined i (\<lambda>r. r\<lparr>keyboard_buffer := padded (b @ c # a),
      keyboard_buffer_pos := keyboard_buffer_pos r + 1, keyboard_buffer_size := keyboard_buffer_size r + 1\<rparr>) t t'"
    using key_char_edits [OF r(1,3) assms(2)] assms(3) by auto
  have "session t' i (b @ [c]) a hs n"
    by (rule relined_session [OF t'(2) r(1)])
      (use r edited_bounds [OF r(3)] assms(2,3) in \<open>auto simp: edited_def recalls_def unat_add1\<close>)
  then show ?thesis using t'(1) assms(2) by (simp add: type_char_def)
qed

lemma enter_session:
  assumes "session t i b a hs n" "remember (b @ a) (hs, n) = (hs', n')"
  shows "\<exists>t' r'. handle_enter t = Some t' \<and> session t' i [] [] hs' n' \<and> cur_term t' = Some (i, r') \<and>
    keyboard_read_flag r' \<and> keyboard_read_buffer r' = padded (entered (b @ a))"
proof -
  obtain r where r: "cur_term t = Some (i, r)" "index r = i" "edited r b a" "recalls r hs n" using assms(1) by (auto simp: session_def)
  from handle_enter_effect [OF r(1,3,4) assms(2)] obtain t' r' where "handle_enter t = Some t'" "cur_term t' = Some (i, r')"
    "edited r' [] []" "recalls r' hs' n'" "keyboard_read_buffer r' = padded (entered (b @ a))" "keyboard_read_flag r'" "index r' = index r" by blast
  then show ?thesis using r(2) by (intro exI [of _ t'] exI [of _ r']) (auto simp: session_def)
qed

lemma load_scrollback_term:
  assumes "cur_term t = Some (i, r)"
  shows "\<exists>t'. load_scrollback_page off t = Some t' \<and>
    relined i (\<lambda>r. r\<lparr>video_memory := video_memory_base r - PAGE_BYTES * of_int off\<rparr>) t t'"
proof -
  let ?f = "\<lambda>r. r\<lparr>video_memory := video_memory_base r - PAGE_BYTES * of_int off\<rparr>"
  have "term_at i (upd_term i ?f t) = Some (?f r)" using cur_term_at [OF cur_term_upd [OF assms]] by simp
  then show ?thesis using assms by (simp add: load_scrollback_page_def unmap_backing_page_def relined_def)
qed

lemma scrollback_session:
  assumes "session t i b a hs n"
  shows "\<exists>t'. set_scrollback_page v (t\<lparr>scrollback_offset := off\<rparr>) = Some t' \<and> session t' i b a hs n"
proof -
  let ?t1 = "on_scr hide_cursor (t\<lparr>scrollback_offset := off\<rparr>)"
  have s1: "session ?t1 i b a hs n" using assms by (simp add: session_def cur_term_Some)
  then obtain r1 where r1: "cur_term ?t1 = Some (i, r1)" by (auto simp: session_def)
  have "\<exists>t2. (if scrollback_offset ?t1 = 0 then do { (i, _) \<leftarrow> cur_term ?t1; map_backing_page i ?t1 } else Some ?t1) = Some t2 \<and> core t2 = core ?t1"
    using map_backing_page_core [of i ?t1] cur_term_at [OF r1] r1 by auto
  then obtain t2 where t2: "(if scrollback_offset ?t1 = 0 then do { (i, _) \<leftarrow> cur_term ?t1; map_backing_page i ?t1 } else Some ?t1) = Some t2"
    "core t2 = core ?t1" by blast
  let ?t3 = "t2\<lparr>scrollback_offset := clamp_offset v\<rparr>"
  have s3: "session ?t3 i b a hs n" using session_core [OF t2(2) s1] by (simp add: session_def cur_term_Some)
  then obtain r where r: "cur_term ?t3 = Some (i, r)" "index r = i" "edited r b a" "recalls r hs n" by (auto simp: session_def)
  let ?f = "\<lambda>r. r\<lparr>video_memory := video_memory_base r - PAGE_BYTES * of_int (clamp_offset v)\<rparr>"
  obtain t4 where t4: "load_scrollback_page (clamp_offset v) ?t3 = Some t4" "relined i ?f ?t3 t4" using load_scrollback_term [OF r(1)] by blast
  have "session t4 i b a hs n"
    by (rule relined_session [OF t4(2) r(1)]) (use r in \<open>simp_all add: edited_def recalls_def\<close>)
  then have "session (on_scr show_cursor t4) i b a hs n" by (simp add: session_def)
  moreover have "set_scrollback_page v (t\<lparr>scrollback_offset := off\<rparr>) = Some (on_scr show_cursor t4)"
    unfolding set_scrollback_page_def Let_def t2(1) using t4(1) by simp
  ultimately show ?thesis by blast
qed

text \<open>What a key on the line does to the kernel: only its terminals, the screen and memory change.\<close>

lemma put_put_tty [simp]: "put_tty t (put_tty u k) = put_tty t k"
  by (simp add: put_tty_def set_mem_def)

lemma on_tty_put: "on_tty f (put_tty t k) = map_option (\<lambda>t'. put_tty t' k) (f t)"
  by (simp add: on_tty_def map_option_case split: Option.bind_splits option.splits)

lemma on_tty_start: "on_tty f k = map_option (\<lambda>t'. put_tty t' k) (f (the_tty k))"
  by (simp add: on_tty_def map_option_case split: Option.bind_splits option.splits)

lemma session_the_tty [simp]: "session (the_tty k) i b a hs n = session (ktty k) i b a hs n"
  by (simp add: session_def cur_term_Some)

definition at_terminal :: "nat \<Rightarrow> kernel \<Rightarrow> bool" where
  "at_terminal i k \<longleftrightarrow> i < length (process_in_terminal k) \<and> process_in_terminal k ! i \<noteq> None"

lemma press_line_session:
  assumes s: "session (ktty k) i b a hs n" and p: "at_terminal i k"
  obtains t where "session t i b a hs n" "reset_scrollback k = Some (put_tty t k)"
    "\<And>frame scan current. press_line frame scan current k =
       (if shift_set k then shifted_key frame scan (put_tty (start_line (b @ a = []) i current t) k)
        else plain_key frame scan current (put_tty (start_line (b @ a = []) i current t) k))"
proof -
  obtain r where r: "cur_term (ktty k) = Some (i, r)" "index r = i" "edited r b a" "recalls r hs n" using s by (auto simp: session_def)
  obtain t where t: "set_scrollback_page 0 ((the_tty k)\<lparr>scrollback_offset := 0\<rparr>) = Some t" "session t i b a hs n"
    using scrollback_session [of "the_tty k" i b a hs n 0 0] s by auto
  have z: "keyboard_buffer_size r = 0 \<longleftrightarrow> b @ a = []" using r(3) by (auto simp: edited_def unat_eq_0 [symmetric])
  obtain q where w: "get_at (process_in_terminal k) (index r) = Some (Some q)"
    using p r(2) by (auto simp: get_at_def at_terminal_def)
  have reset: "reset_scrollback k = Some (put_tty t k)" using t(1) by (simp add: reset_scrollback_def on_tty_start)
  show ?thesis
  proof (rule that [OF t(2) reset])
    fix frame scan current
    show "press_line frame scan current k =
       (if shift_set k then shifted_key frame scan (put_tty (start_line (b @ a = []) i current t) k)
        else plain_key frame scan current (put_tty (start_line (b @ a = []) i current t) k))"
      unfolding press_line_def z [symmetric] using r(1) w reset by (simp add: on_tty_put)
  qed
qed

lemma session_start: "session t i b a hs n \<Longrightarrow> session (start_line e j c t) i b a hs n"
  by (rule session_core [of _ t]) (simp_all add: start_line_def line_of_def)

lemma room_left_session: "session (ktty k) i b a hs n \<Longrightarrow> room_left k \<longleftrightarrow> length b + length a < line_max"
  using edited_bounds(5) by (fastforce simp: session_def room_left_def)

lemma press_char_session:
  assumes s: "session (ktty k) i b a hs n" and p: "at_terminal i k"
    and scan: "scan \<le> 0x39" "keyboard_char ! unat scan \<noteq> 0" and m: "\<not> shift_set k" "\<not> ctrl_set k" "\<not> alt_set k"
    and room: "length b + length a < line_max"
  shows "\<exists>t. press_line frame scan current k = Some (put_tty t k) \<and> session t i (b @ [keyboard_char ! unat scan]) a hs n"
proof -
  obtain t where t: "session t i b a hs n" and pl: "\<And>frame scan current. press_line frame scan current k =
       (if shift_set k then shifted_key frame scan (put_tty (start_line (b @ a = []) i current t) k)
        else plain_key frame scan current (put_tty (start_line (b @ a = []) i current t) k))"
    using s p by (rule press_line_session) blast
  let ?t = "start_line (b @ a = []) i current t"
  have st: "session ?t i b a hs n" using t by (rule session_start)
  have "scan \<noteq> 0x0E" "scan \<noteq> 0x1C" "scan \<noteq> 0x0F" using scan(2) by (auto simp: keyboard_char_def)
  moreover have "room_left (put_tty ?t k)" using room_left_session [of "put_tty ?t k" i b a hs n] st room by simp
  moreover obtain t' where "type_char (keyboard_char ! unat scan) ?t = Some t'" "session t' i (b @ [keyboard_char ! unat scan]) a hs n"
    using type_char_session [OF st scan(2) room] by blast
  ultimately show ?thesis using m by (auto simp: pl plain_key_def on_tty_put)
qed

lemma press_enter_session:
  assumes s: "session (ktty k) i b a hs n" and p: "at_terminal i k" and m: "remember (b @ a) (hs, n) = (hs', n')"
  shows "\<exists>t r. press_line frame 0x1C current k = Some (put_tty t k) \<and> session t i [] [] hs' n' \<and> cur_term t = Some (i, r) \<and>
    keyboard_read_flag r \<and> keyboard_read_buffer r = padded (entered (b @ a))"
proof -
  obtain t where t: "session t i b a hs n" and pl: "\<And>frame scan current. press_line frame scan current k =
       (if shift_set k then shifted_key frame scan (put_tty (start_line (b @ a = []) i current t) k)
        else plain_key frame scan current (put_tty (start_line (b @ a = []) i current t) k))"
    using s p by (rule press_line_session) blast
  let ?t = "start_line (b @ a = []) i current t"
  have st: "session ?t i b a hs n" using t by (rule session_start)
  obtain t' r' where "handle_enter ?t = Some t'" "session t' i [] [] hs' n'" "cur_term t' = Some (i, r')"
    "keyboard_read_flag r'" "keyboard_read_buffer r' = padded (entered (b @ a))" using enter_session [OF st m] by blast
  then show ?thesis by (intro exI [of _ t'] exI [of _ r']) (simp add: pl plain_key_def shifted_key_def on_tty_put)
qed

text \<open>\<open>resting i k\<close>: no modifier is held and the current process runs in the visible terminal.\<close>

definition resting :: "nat \<Rightarrow> kernel \<Rightarrow> bool" where
  "resting i k \<longleftrightarrow> terminal_lock k = 0 \<and> at_terminal i k \<and> \<not> shift_set k \<and> \<not> ctrl_set k \<and> \<not> alt_set k \<and>
     p_terminal (procs k (current_process k)) = Some i"

definition key_char_of :: "u8 \<Rightarrow> u8" where
  "key_char_of scan = (if scan \<le> 0x39 then keyboard_char ! unat scan else 0)"

fun presses :: "u32 \<times> u32 \<times> u32 \<Rightarrow> u8 list \<Rightarrow> kernel \<Rightarrow> kernel option" where
  "presses frame [] k = Some k"
| "presses frame (scan # scans) k = Option.bind (keypress_handler frame scan 0 0 k) (presses frame scans)"

lemma handler_line:
  assumes "terminal_lock k = 0" "scan \<le> 0x39" "scan \<notin> {0x2A, 0x36, 0x1D, 0x38}"
  obtains k0 current where "ktty k0 = on_scr (\<lambda>s. s\<lparr>cursor_on := True\<rparr>) (the_tty k)" "resting i k \<Longrightarrow> at_terminal i k0" "shift_set k0 = shift_set k"
    "ctrl_set k0 = ctrl_set k" "alt_set k0 = alt_set k"
    "\<And>t. press_line frame scan current k0 = Some (put_tty t k0) \<Longrightarrow>
       \<exists>k'. keypress_handler frame scan s1 s2 k = Some k' \<and> ktty k' = t \<and> mem k' = smem (scr t) \<and> (resting i k \<longrightarrow> resting i k')"
proof -
  let ?k0 = "on_screen (\<lambda>s. s\<lparr>cursor_on := True\<rparr>) (k\<lparr>terminal_lock := 1\<rparr>)"
  let ?c = "read_screen_coordinates (scr (ktty ?k0))"
  have nE: "scan \<noteq> 0xE0" "scan \<noteq> 0xAA" "scan \<noteq> 0xB6" "scan \<noteq> 0x9D" "scan \<noteq> 0xB8" "scan \<noteq> 0x4B" "scan \<noteq> 0x4D" "scan \<noteq> 0x48"
    "scan \<noteq> 0x50" "scan \<noteq> 0x49" "scan \<noteq> 0x51"
    using assms(2) by auto
  moreover have "\<not> 0x3B \<le> scan" using assms(2) by unat_arith
  ultimately have press: "press frame scan ?k0 = press_line frame scan ?c ?k0"
    using assms(2,3) by (simp add: press_def Let_def)
  show ?thesis
  proof (rule that [of ?k0 ?c])
    show "\<exists>k'. keypress_handler frame scan s1 s2 k = Some k' \<and> ktty k' = t \<and> mem k' = smem (scr t) \<and> (resting i k \<longrightarrow> resting i k')"
      if "press_line frame scan ?c ?k0 = Some (put_tty t ?k0)" for t
      using that nE(1) assms(1) press
      by (auto simp: keypress_handler_def spin_lock_free Let_def spin_unlock_def resting_def at_terminal_def mem_def put_tty_def set_mem_def)
  qed (auto simp: resting_def at_terminal_def on_screen_def the_tty_def on_scr_def put_tty_def set_mem_def mem_def)
qed

lemma handler_char:
  assumes "session (ktty k) i b a hs n" "resting i k" "key_char_of scan \<noteq> 0" "length b + length a < line_max"
  shows "\<exists>k'. keypress_handler frame scan s1 s2 k = Some k' \<and> session (ktty k') i (b @ [key_char_of scan]) a hs n \<and> resting i k'"
proof -
  have sc: "scan \<le> 0x39" "key_char_of scan = keyboard_char ! unat scan" using assms(3) by (auto simp: key_char_of_def split: if_splits)
  have ns: "scan \<notin> {0x2A, 0x36, 0x1D, 0x38}" using assms(3) sc by (auto simp: keyboard_char_def)
  have "terminal_lock k = 0" using assms(2) by (simp add: resting_def)
  then obtain k0 current where k0: "ktty k0 = on_scr (\<lambda>s. s\<lparr>cursor_on := True\<rparr>) (the_tty k)" "resting i k \<Longrightarrow> at_terminal i k0"
    "shift_set k0 = shift_set k" "ctrl_set k0 = ctrl_set k" "alt_set k0 = alt_set k"
    and h: "\<And>t. press_line frame scan current k0 = Some (put_tty t k0) \<Longrightarrow>
       \<exists>k'. keypress_handler frame scan s1 s2 k = Some k' \<and> ktty k' = t \<and> mem k' = smem (scr t) \<and> (resting i k \<longrightarrow> resting i k')"
    using sc(1) ns by (rule handler_line [where i = i]) blast
  have s0: "session (ktty k0) i b a hs n" using assms(1) k0(1) by (simp add: session_def) (simp add: cur_term_Some)
  obtain t where "press_line frame scan current k0 = Some (put_tty t k0)" "session t i (b @ [key_char_of scan]) a hs n"
    using press_char_session [OF s0 k0(2) [OF assms(2)], of scan frame current] sc assms(2,3,4) k0(3-5) by (auto simp: resting_def)
  with h assms(2) show ?thesis by blast
qed

lemma handler_enter:
  assumes "session (ktty k) i b a hs n" "resting i k" "remember (b @ a) (hs, n) = (hs', n')"
  shows "\<exists>k' r. keypress_handler frame 0x1C s1 s2 k = Some k' \<and> session (ktty k') i [] [] hs' n' \<and> resting i k' \<and>
    cur_term (ktty k') = Some (i, r) \<and> keyboard_read_flag r \<and> keyboard_read_buffer r = padded (entered (b @ a))"
proof -
  have "terminal_lock k = 0" "(0x1C :: u8) \<le> 0x39" "(0x1C :: u8) \<notin> {0x2A, 0x36, 0x1D, 0x38}" using assms(2) by (simp_all add: resting_def)
  then obtain k0 current where k0: "ktty k0 = on_scr (\<lambda>s. s\<lparr>cursor_on := True\<rparr>) (the_tty k)" "resting i k \<Longrightarrow> at_terminal i k0"
    and h: "\<And>t. press_line frame 0x1C current k0 = Some (put_tty t k0) \<Longrightarrow>
       \<exists>k'. keypress_handler frame 0x1C s1 s2 k = Some k' \<and> ktty k' = t \<and> mem k' = smem (scr t) \<and> (resting i k \<longrightarrow> resting i k')"
    by (rule handler_line [where i = i]) blast
  have s0: "session (ktty k0) i b a hs n" using assms(1) k0(1) by (simp add: session_def) (simp add: cur_term_Some)
  from press_enter_session [OF s0 k0(2) [OF assms(2)] assms(3), of frame current]
  obtain t r where t: "press_line frame 0x1C current k0 = Some (put_tty t k0)" "session t i [] [] hs' n'" "cur_term t = Some (i, r)"
    "keyboard_read_flag r" "keyboard_read_buffer r = padded (entered (b @ a))" by blast
  from h [OF t(1)] t(2-5) assms(2) show ?thesis by blast
qed

lemma presses_chars:
  assumes "session (ktty k) i b [] hs n" "resting i k" "\<forall>scan \<in> set ss. key_char_of scan \<noteq> 0" "length b + length ss \<le> line_max"
  shows "\<exists>k'. presses frame ss k = Some k' \<and> session (ktty k') i (b @ map key_char_of ss) [] hs n \<and> resting i k'"
  using assms
proof (induction ss arbitrary: k b)
  case (Cons scan ss)
  have "key_char_of scan \<noteq> 0" "length b + length [] < line_max" using Cons.prems(3,4) by simp_all
  then obtain k1 where k1: "keypress_handler frame scan 0 0 k = Some k1" "session (ktty k1) i (b @ [key_char_of scan]) [] hs n" "resting i k1"
    using handler_char [OF Cons.prems(1,2)] by blast
  then show ?case using Cons.IH [OF k1(2,3)] Cons.prems(3,4) by simp
qed simp

lemma presses_append: "presses frame (xs @ ys) k = Option.bind (presses frame xs k) (presses frame ys)"
proof (induction xs arbitrary: k)
  case (Cons x xs)
  then show ?case by (cases "keypress_handler frame x 0 0 k") simp_all
qed simp

section \<open>Properties\<close>


lemma plain_kernel_session: "session (ktty plain_kernel) 0 [] [] (replicate 16 []) 0" "resting 0 plain_kernel"
  by (simp_all add: session_def resting_def at_terminal_def plain_kernel_def plain_process_def fresh_tty_def fresh_terminal_def cur_term_Some
      edited_def recalls_def)


end
