(* ===== verification/Files.thy ===== *)
theory Files
  imports Console
begin

text \<open>
  The file calls of \<^verbatim>\<open>syscall.c\<close>: descriptors, and the dispatch of open, read, write
  and close to the terminal, the file system, the directory and the clock. A name is a function
  from an index to a byte, since some callers pass a literal. What other tasks and interrupts do
  while a read waits is an argument: the turns of the terminal's loop and the ticks of the clock.
\<close>

section \<open>Descriptors\<close>

definition STDIN_FD :: nat where
  "STDIN_FD = 0"

definition STDOUT_FD :: nat where
  "STDOUT_FD = 1"

definition MAX_FILES :: nat where
  "MAX_FILES = 8"

definition valid_fd :: "int \<Rightarrow> process \<Rightarrow> bool" where
  "valid_fd fd p \<longleftrightarrow> 0 \<le> fd \<and> fd < 8 \<and> in_use (open_files p ! nat fd)"

definition find_new_fd :: "process \<Rightarrow> int" where
  "find_new_fd p = (case List.find (\<lambda>fd. \<not> in_use (open_files p ! fd)) [0..<8] of None \<Rightarrow> - 1 | Some fd \<Rightarrow> int fd)"

abbreviation proc :: "kernel \<Rightarrow> process" where
  "proc k \<equiv> procs k (current_process k)"

definition set_file :: "nat \<Rightarrow> nat \<Rightarrow> file_info \<Rightarrow> kernel \<Rightarrow> kernel" where
  "set_file p fd f k = upd_proc p (\<lambda>r. r\<lparr>open_files := (open_files r)[fd := f]\<rparr>) k"

section \<open>The clock as part of the kernel\<close>

text \<open>
  The clock's record has the interrupt flag its functions set and clear; in the kernel that flag
  is bit 9 of EFLAGS.
\<close>

definition on_clock :: "(rtc \<Rightarrow> (rtc \<times> 'a) option) \<Rightarrow> kernel \<Rightarrow> (kernel \<times> 'a) option" where
  "on_clock f k = do {
     (c, r) \<leftarrow> f ((clock k)\<lparr>int_flag := bit (eflags (cflags k)) 9\<rparr>);
     Some (k\<lparr>clock := c, cflags := (if int_flag c then sti (cflags k) else cli (cflags k))\<rparr>, r)
   }"

section \<open>The tables of operations\<close>

definition open_func :: "file_ops \<Rightarrow> kernel \<Rightarrow> kernel option" where
  "open_func ops k =
     (case ops of
        Terminal_funcs \<Rightarrow> (let r = keyboard_open in Some k)
      | Fs_funcs \<Rightarrow> (let r = fs_open in Some k)
      | Dir_funcs \<Rightarrow> (let r = fs_open in Some k)
      | Rtc_funcs \<Rightarrow> map_option fst (on_clock rtc_open k))"

definition read_func :: "(kernel \<Rightarrow> kernel) list \<Rightarrow> nat list \<Rightarrow> file_ops \<Rightarrow> nat \<Rightarrow> nat \<Rightarrow> u32 \<Rightarrow> int \<Rightarrow> kernel \<Rightarrow> (kernel \<times> int) option" where
  "read_func turns ticks ops p fd buf nbytes k =
     (let f = open_files (procs k p) ! fd in
      case ops of
        Terminal_funcs \<Rightarrow> keyboard_read turns buf nbytes k
      | Fs_funcs \<Rightarrow> (case file_read (kfs k) f buf (of_int nbytes) (mem k) of
          (m, f1, r) \<Rightarrow> Some (set_file p fd f1 (set_mem m k), sint r))
      | Dir_funcs \<Rightarrow> (case directory_read (kfs k) f buf (of_int nbytes) (mem k) of
          None \<Rightarrow> None
        | Some (m, f1, r) \<Rightarrow> Some (set_file p fd f1 (set_mem m k), sint r))
      | Rtc_funcs \<Rightarrow> map_option (\<lambda>(k1, r). (k1, sint r)) (on_clock (rtc_read f ticks) k))"

definition write_func :: "file_ops \<Rightarrow> nat \<Rightarrow> nat \<Rightarrow> u32 \<Rightarrow> int \<Rightarrow> kernel \<Rightarrow> (kernel \<times> int) option" where
  "write_func ops p fd buf nbytes k =
     (let f = open_files (procs k p) ! fd in
      case ops of
        Terminal_funcs \<Rightarrow> keyboard_write buf nbytes k
      | Fs_funcs \<Rightarrow> Some (k, sint (fs_write f buf (of_int nbytes)))
      | Dir_funcs \<Rightarrow> Some (k, sint (fs_write f buf (of_int nbytes)))
      | Rtc_funcs \<Rightarrow> do {
          (k1, f1, r) \<leftarrow> on_clock (rtc_write f (mem k) buf nbytes) k;
          Some (set_file p fd f1 k1, sint r)
        })"

definition close_func :: "file_ops \<Rightarrow> file_info \<Rightarrow> kernel \<Rightarrow> kernel option" where
  "close_func ops f k =
     (case ops of
        Terminal_funcs \<Rightarrow> (let r = keyboard_close f in Some k)
      | Fs_funcs \<Rightarrow> (let r = fs_close f in Some k)
      | Dir_funcs \<Rightarrow> (let r = fs_close f in Some k)
      | Rtc_funcs \<Rightarrow> map_option fst (on_clock (rtc_close f) k))"

section \<open>The calls\<close>

definition literal :: "string \<Rightarrow> reader" where
  "literal s = (\<lambda>i. if unat i < length s then of_char (s ! unat i) else 0)"

definition DENTRY_RTC :: u32 where "DENTRY_RTC = 0"

definition DENTRY_DIRECTORY :: u32 where "DENTRY_DIRECTORY = 1"

definition DENTRY_FILE :: u32 where "DENTRY_FILE = 2"

definition terminal_file :: "bool \<Rightarrow> bool \<Rightarrow> file_info" where
  "terminal_file r w = \<lparr>f_ops = Some Terminal_funcs, inode_ptr = 0, pos = 0, f_type = FileTerminal, can_write = w, can_read = r, in_use = True\<rparr>"

definition rtc_file :: "u32 \<Rightarrow> file_info" where
  "rtc_file inode = \<lparr>f_ops = Some Rtc_funcs, inode_ptr = inode, pos = 0, f_type = FileRTC, can_write = True, can_read = True, in_use = True\<rparr>"

definition fs_file :: "file_ops \<Rightarrow> u32 \<Rightarrow> file_info" where
  "fs_file ops inode = \<lparr>f_ops = Some ops, inode_ptr = inode, pos = 0, f_type = FileRegular, can_write = False, can_read = True, in_use = True\<rparr>"

text \<open>
  What \<open>open\<close> puts in the structure for an entry of the directory. For any other type the
  operations and the permissions stay uninitialised; \<open>uninit\<close> is what the stack held.
\<close>

definition dentry_file :: "file_info \<Rightarrow> fs \<Rightarrow> dentry \<Rightarrow> file_info" where
  "dentry_file uninit f d =
     (let inode = get_inode_ptr f (d_inode d) in
      if d_type d = DENTRY_DIRECTORY then fs_file Dir_funcs inode
      else if d_type d = DENTRY_FILE then fs_file Fs_funcs inode
      else if d_type d = DENTRY_RTC then rtc_file inode
      else uninit\<lparr>inode_ptr := inode, pos := 0, in_use := True\<rparr>)"

definition open_at :: "int \<Rightarrow> file_info \<Rightarrow> kernel \<Rightarrow> (kernel \<times> int) option" where
  "open_at fd f k = do {
     let k1 = set_file (current_process k) (nat fd) f k;
     ops \<leftarrow> f_ops f;
     k2 \<leftarrow> open_func ops k1;
     Some (k2, fd)
   }"

text \<open>
  The body of \<open>syscall_open\<close> up to the call of the \<open>open\<close> operation: where the new structure goes
  and what is in it, or \<open>Some None\<close> for the early returns of \<open>- 1\<close>. \<open>None\<close> is a name whose end is
  never found. The call that follows is made through the structure's table of operations, set or not.
\<close>

definition new_place :: "file_info \<Rightarrow> kernel \<Rightarrow> (int \<times> file_info) option" where
  "new_place f k = (let fd = find_new_fd (proc k) in if fd < 0 then None else Some (fd, f))"

definition open_target :: "file_info \<Rightarrow> reader \<Rightarrow> kernel \<Rightarrow> (int \<times> file_info) option option" where
  "open_target uninit filename k =
     (if strncmp filename (literal ''/dev/stdin'') 100 = 0 then Some (Some (int STDIN_FD, terminal_file True False))
      else if strncmp filename (literal ''/dev/stdout'') 100 = 0 then Some (Some (int STDOUT_FD, terminal_file False True))
      else if strncmp filename (literal ''/dev/rtc'') 100 = 0 then Some (new_place (rtc_file 0) k)
      else do {
        (r, found) \<leftarrow> read_dentry_by_name (kfs k) (mem k) filename;
        if r \<noteq> 0 then Some None
        else do { d \<leftarrow> found; Some (new_place (dentry_file uninit (kfs k) d) k) }
      })"

definition syscall_open :: "file_info \<Rightarrow> reader \<Rightarrow> kernel \<Rightarrow> (kernel \<times> int) option" where
  "syscall_open uninit filename k = do {
     target \<leftarrow> open_target uninit filename k;
     (case target of
        None \<Rightarrow> Some (k, - 1)
      | Some (fd, f) \<Rightarrow> open_at fd f k)
   }"

definition syscall_read :: "(kernel \<Rightarrow> kernel) list \<Rightarrow> nat list \<Rightarrow> int \<Rightarrow> u32 \<Rightarrow> int \<Rightarrow> kernel \<Rightarrow> (kernel \<times> int) option" where
  "syscall_read turns ticks fd buf nbytes k =
     (if valid_fd fd (proc k) \<and> can_read (open_files (proc k) ! nat fd) then do {
        ops \<leftarrow> f_ops (open_files (proc k) ! nat fd);
        read_func turns ticks ops (current_process k) (nat fd) buf nbytes k
      } else Some (k, - 1))"

definition syscall_write :: "int \<Rightarrow> u32 \<Rightarrow> int \<Rightarrow> kernel \<Rightarrow> (kernel \<times> int) option" where
  "syscall_write fd buf nbytes k =
     (if valid_fd fd (proc k) \<and> can_write (open_files (proc k) ! nat fd) then do {
        ops \<leftarrow> f_ops (open_files (proc k) ! nat fd);
        (k1, _) \<leftarrow> write_func ops (current_process k) (nat fd) buf nbytes k;
        Some (k1, 0)
      } else Some (k, - 1))"

definition syscall_close :: "int \<Rightarrow> kernel \<Rightarrow> (kernel \<times> int) option" where
  "syscall_close fd k =
     (if valid_fd fd (proc k) \<and> fd \<noteq> int STDIN_FD \<and> fd \<noteq> int STDOUT_FD then do {
        let p = current_process k;
        let f = open_files (procs k p) ! nat fd;
        ops \<leftarrow> f_ops f;
        k1 \<leftarrow> close_func ops f k;
        Some (set_file p (nat fd) ((open_files (procs k1 p) ! nat fd)\<lparr>in_use := False\<rparr>) k1, 0)
      } else Some (k, - 1))"

text \<open>Opening in a new descriptor, and \<open>open\<close> by the kinds of names.\<close>

definition open_new :: "file_info \<Rightarrow> kernel \<Rightarrow> (kernel \<times> int) option" where
  "open_new f k = (let fd = find_new_fd (proc k) in if fd < 0 then Some (k, - 1) else open_at fd f k)"

lemma syscall_open_unfold:
  "syscall_open uninit filename k =
     (if strncmp filename (literal ''/dev/stdin'') 100 = 0 then open_at (int STDIN_FD) (terminal_file True False) k
      else if strncmp filename (literal ''/dev/stdout'') 100 = 0 then open_at (int STDOUT_FD) (terminal_file False True) k
      else if strncmp filename (literal ''/dev/rtc'') 100 = 0 then open_new (rtc_file 0) k
      else do {
        (r, found) \<leftarrow> read_dentry_by_name (kfs k) (mem k) filename;
        if r \<noteq> 0 then Some (k, - 1)
        else do { d \<leftarrow> found; open_new (dentry_file uninit (kfs k) d) k }
      })"
proof -
  have n: "(case new_place f k of None \<Rightarrow> Some (k, - 1) | Some (fd, f) \<Rightarrow> open_at fd f k) = open_new f k" for f
    by (simp add: new_place_def open_new_def Let_def)
  show ?thesis
    by (cases "read_dentry_by_name (kfs k) (mem k) filename") (auto simp: syscall_open_def open_target_def n split: Option.bind_splits if_splits)
qed

section \<open>Descriptor tables\<close>

text \<open>
  What the calls rely on: a table of eight places, the search for the first free one, the test
  whether a descriptor is in use, and the replacement of an entry.
\<close>

locale descriptor_table =
  fixes wf :: "'p \<Rightarrow> bool" and get :: "'p \<Rightarrow> nat \<rightharpoonup> 'f" and live :: "'f \<Rightarrow> bool"
    and new_fd :: "'p \<Rightarrow> int" and valid :: "int \<Rightarrow> 'p \<Rightarrow> bool" and put :: "nat \<Rightarrow> 'f \<Rightarrow> 'p \<Rightarrow> 'p"
  assumes get_bound: "wf p \<Longrightarrow> get p i \<noteq> None \<Longrightarrow> i < 8"
    and new_fd_none: "wf p \<Longrightarrow> new_fd p < 0 \<Longrightarrow> new_fd p = - 1 \<and> (\<forall>i < 8. get p i \<noteq> None)"
    and new_fd_first: "wf p \<Longrightarrow> 0 \<le> new_fd p \<Longrightarrow> new_fd p < 8 \<and> get p (nat (new_fd p)) = None \<and> (\<forall>i < nat (new_fd p). get p i \<noteq> None)"
    and valid_get: "wf p \<Longrightarrow> valid fd p \<longleftrightarrow> 0 \<le> fd \<and> get p (nat fd) \<noteq> None"
    and put_wf: "wf p \<Longrightarrow> wf (put i f p)"
    and put_get: "wf p \<Longrightarrow> i < 8 \<Longrightarrow> get (put i f p) = (get p)(i := if live f then Some f else None)"
begin

lemma put_new:
  assumes "wf p" "0 \<le> new_fd p" "live f"
  shows "get (put (nat (new_fd p)) f p) = (get p)(nat (new_fd p) \<mapsto> f)" "valid (new_fd p) (put (nat (new_fd p)) f p)"
    "\<not> valid (new_fd p) p"
proof -
  have n: "nat (new_fd p) < 8" "get p (nat (new_fd p)) = None" using assms(2) new_fd_first [OF assms(1,2)] by auto
  show g: "get (put (nat (new_fd p)) f p) = (get p)(nat (new_fd p) \<mapsto> f)" using put_get [OF assms(1) n(1)] assms(3) by simp
  show "valid (new_fd p) (put (nat (new_fd p)) f p)" "\<not> valid (new_fd p) p"
    using valid_get [OF put_wf [OF assms(1)]] valid_get [OF assms(1)] g n(2) assms(2) by simp_all
qed

lemma put_new_back:
  assumes "wf p" "0 \<le> new_fd p" "live f" "\<not> live g"
  shows "get (put (nat (new_fd p)) g (put (nat (new_fd p)) f p)) = get p"
proof -
  have n: "nat (new_fd p) < 8" "get p (nat (new_fd p)) = None" using assms(2) new_fd_first [OF assms(1,2)] by auto
  then show ?thesis using put_get [OF assms(1) n(1)] put_get [OF put_wf [OF assms(1)] n(1)] assms(3,4) by auto
qed

lemma new_fd_high: "wf p \<Longrightarrow> get p 0 \<noteq> None \<Longrightarrow> get p 1 \<noteq> None \<Longrightarrow> 0 \<le> new_fd p \<Longrightarrow> 2 \<le> new_fd p"
  using new_fd_first [of p] by (cases "new_fd p = 0"; cases "new_fd p = 1") auto

end

definition descriptors :: "process \<Rightarrow> nat \<rightharpoonup> file_info" where
  "descriptors p = (\<lambda>fd. if fd < length (open_files p) \<and> in_use (open_files p ! fd) then Some (open_files p ! fd) else None)"

definition put_file :: "nat \<Rightarrow> file_info \<Rightarrow> process \<Rightarrow> process" where
  "put_file fd f p = p\<lparr>open_files := (open_files p)[fd := f]\<rparr>"

definition eight_files :: "process \<Rightarrow> bool" where
  "eight_files p \<longleftrightarrow> length (open_files p) = 8"

lemma find_upt_Some:
  assumes "List.find P [a..<b] = Some i" shows "a \<le> i \<and> i < b \<and> P i \<and> (\<forall>j. a \<le> j \<and> j < i \<longrightarrow> \<not> P j)"
proof -
  obtain n where n: "n < length [a..<b]" "P ([a..<b] ! n)" "i = [a..<b] ! n" "\<forall>j < n. \<not> P ([a..<b] ! j)"
    using assms by (auto simp: find_Some_iff)
  then have i: "i = a + n" "n < b - a" by simp_all
  have "\<not> P j" if "a \<le> j" "j < i" for j
    using n(4) [rule_format, of "j - a"] that i by auto
  then show ?thesis using n(2) i by auto
qed

interpretation fd_table: descriptor_table eight_files descriptors in_use find_new_fd valid_fd put_file
proof
  fix p :: process and i :: nat and fd :: int and f :: file_info
  assume wf: "eight_files p"
  show "i < 8" if "descriptors p i \<noteq> None" using that wf by (auto simp: descriptors_def eight_files_def split: if_splits)
  show "find_new_fd p = - 1 \<and> (\<forall>i < 8. descriptors p i \<noteq> None)" if "find_new_fd p < 0"
    using that wf by (auto simp: find_new_fd_def descriptors_def eight_files_def find_None_iff split: option.splits)
  show "find_new_fd p < 8 \<and> descriptors p (nat (find_new_fd p)) = None \<and> (\<forall>i < nat (find_new_fd p). descriptors p i \<noteq> None)"
    if new: "0 \<le> find_new_fd p"
  proof -
    obtain n where n: "List.find (\<lambda>fd. \<not> in_use (open_files p ! fd)) [0..<8] = Some n" "find_new_fd p = int n"
      using new by (cases "List.find (\<lambda>fd. \<not> in_use (open_files p ! fd)) [0..<8]") (simp_all add: find_new_fd_def)
    from find_upt_Some [OF n(1)] show ?thesis using wf n(2) by (auto simp: descriptors_def eight_files_def)
  qed
  show "valid_fd fd p \<longleftrightarrow> 0 \<le> fd \<and> descriptors p (nat fd) \<noteq> None"
    using wf by (auto simp: valid_fd_def descriptors_def eight_files_def)
  show "eight_files (put_file i f p)" using wf by (simp add: eight_files_def put_file_def)
  show "descriptors (put_file i f p) = (descriptors p)(i := if in_use f then Some f else None)" if "i < 8"
    using wf that by (auto simp: descriptors_def put_file_def eight_files_def nth_list_update)
qed

section \<open>What the calls keep\<close>

lemma set_file_simps [simp]:
  "current_process (set_file p fd f k) = current_process k" "procs (set_file p fd f k) = (procs k)(p := put_file fd f (procs k p))"
  "mem (set_file p fd f k) = mem k" "kfs (set_file p fd f k) = kfs k" "clock (set_file p fd f k) = clock k" "ktty (set_file p fd f k) = ktty k"
  "km (set_file p fd f k) = km k" "runqueue (set_file p fd f k) = runqueue k" "pages (set_file p fd f k) = pages k"
  "process_in_terminal (set_file p fd f k) = process_in_terminal k" "cflags (set_file p fd f k) = cflags k"
  "kstatus (set_file p fd f k) = kstatus k" "esp0 (set_file p fd f k) = esp0 k" "sound (set_file p fd f k) = sound k" "irqs (set_file p fd f k) = irqs k" "terminal_lock (set_file p fd f k) = terminal_lock k"
  by (simp_all add: set_file_def upd_proc_def put_file_def mem_def)

lemma set_mem_simps [simp]:
  "current_process (set_mem m k) = current_process k" "procs (set_mem m k) = procs k" "mem (set_mem m k) = m" "kfs (set_mem m k) = kfs k"
  "runqueue (set_mem m k) = runqueue k" "pages (set_mem m k) = pages k" "sound (set_mem m k) = sound k" "cflags (set_mem m k) = cflags k"
  "irqs (set_mem m k) = irqs k"
  by (simp_all add: set_mem_def mem_def)

lemma on_clock_keeps:
  assumes "on_clock f k = Some (k', r)"
  shows "procs k' = procs k" "current_process k' = current_process k" "mem k' = mem k" "kfs k' = kfs k"
    "runqueue k' = runqueue k" "pages k' = pages k" "km k' = km k" "ktty k' = ktty k" "process_in_terminal k' = process_in_terminal k"
  using assms by (auto simp: on_clock_def mem_def Option.bind_eq_Some_conv split: prod.splits)

lemma open_func_keeps:
  assumes "open_func ops k = Some k'"
  shows "procs k' = procs k" "current_process k' = current_process k" "mem k' = mem k" "kfs k' = kfs k"
  using assms by (cases ops; auto simp: open_func_def dest: on_clock_keeps)+

lemma close_func_keeps:
  assumes "close_func ops f k = Some k'"
  shows "procs k' = procs k" "current_process k' = current_process k" "mem k' = mem k" "kfs k' = kfs k"
  using assms by (cases ops; auto simp: close_func_def dest: on_clock_keeps)+

text \<open>A turn of the waiting loop may run other tasks, but gives this process back as it was.\<close>

definition keeps :: "nat \<Rightarrow> (kernel \<Rightarrow> kernel) \<Rightarrow> bool" where
  "keeps p f \<longleftrightarrow> (\<forall>k. procs (f k) p = procs k p \<and> (current_process k = p \<longrightarrow> current_process (f k) = p))"

lemma read_wait_keeps:
  assumes "read_wait turns k = Some k'" "\<forall>f \<in> set turns. keeps p f" "current_process k = p"
  shows "procs k' p = procs k p" "current_process k' = p"
proof -
  have "procs k' p = procs k p \<and> current_process k' = p"
    using assms
  proof (induction turns arbitrary: k)
    case (Cons f fs)
    have f: "procs (f k) p = procs k p" "current_process (f k) = p" using Cons.prems(2,3) by (auto simp: keeps_def)
    show ?case
    proof (cases "line_ready k")
      case True
      then show ?thesis using Cons.prems(1,3) by simp
    next
      case False
      then show ?thesis using Cons.IH [OF _ _ f(2)] Cons.prems(1,2) f(1) by simp
    qed
  qed (auto split: if_splits)
  then show "procs k' p = procs k p" "current_process k' = p" by simp_all
qed

lemma keyboard_read_keeps:
  assumes "keyboard_read turns buf nbytes k = Some (k', r)" "\<forall>f \<in> set turns. keeps p f" "current_process k = p"
  shows "procs k' p = procs k p" "current_process k' = p"
proof -
  obtain k1 where k1: "read_wait turns k = Some k1" "procs k' = procs k1" "current_process k' = current_process k1"
    using assms(1) by (auto simp: keyboard_read_def Option.bind_eq_Some_conv split: prod.splits)
  then show "procs k' p = procs k p" "current_process k' = p" using read_wait_keeps [OF k1(1) assms(2,3)] by simp_all
qed

lemma keyboard_write_keeps:
  assumes "keyboard_write buf nbytes k = Some (k', r)"
  shows "procs k' = procs k" "current_process k' = current_process k" "kfs k' = kfs k"
proof -
  obtain t where "k' = put_tty t k" using assms unfolding keyboard_write_def Let_def Option.bind_eq_Some_conv by fastforce
  then show "procs k' = procs k" "current_process k' = current_process k" "kfs k' = kfs k" by simp_all
qed

lemma open_at_effect:
  assumes "open_at fd f k = Some (k', r)"
  shows "r = fd" "procs k' = (procs k)(current_process k := put_file (nat fd) f (proc k))" "current_process k' = current_process k"
    "f_ops f \<noteq> None" "mem k' = mem k" "kfs k' = kfs k"
  using assms by (auto simp: open_at_def Let_def Option.bind_eq_Some_conv dest: open_func_keeps)

lemma open_new_effect:
  assumes "open_new f k = Some (k', r)"
  shows "find_new_fd (proc k) < 0 \<Longrightarrow> k' = k \<and> r = - 1"
    and "0 \<le> find_new_fd (proc k) \<Longrightarrow> open_at (find_new_fd (proc k)) f k = Some (k', r)"
  using assms by (auto simp: open_new_def Let_def split: if_splits)

lemma open_new_fresh:
  assumes "eight_files (proc k)" "open_new f k = Some (k', r)" "in_use f"
  shows "r = - 1 \<and> k' = k \<and> (\<forall>i < 8. descriptors (proc k) i \<noteq> None) \<or>
    0 \<le> r \<and> r < 8 \<and> descriptors (proc k) (nat r) = None \<and> (\<forall>i < nat r. descriptors (proc k) i \<noteq> None) \<and>
    descriptors (proc k') = (descriptors (proc k))(nat r \<mapsto> f) \<and> current_process k' = current_process k \<and>
    (\<forall>q. q \<noteq> current_process k \<longrightarrow> procs k' q = procs k q)"
proof (cases "find_new_fd (proc k) < 0")
  case True
  then show ?thesis using open_new_effect(1) [OF assms(2)] fd_table.new_fd_none [OF assms(1)] by simp
next
  case False
  then have fd: "0 \<le> find_new_fd (proc k)" by simp
  note o = open_at_effect [OF open_new_effect(2) [OF assms(2) fd]]
  have "descriptors (proc k') = (descriptors (proc k))(nat r \<mapsto> f)"
    using fd_table.put_new(1) [OF assms(1) fd assms(3)] o(1-3) by simp
  then show ?thesis using fd_table.new_fd_first [OF assms(1) fd] o(1-3) fd by simp
qed

section \<open>The standard descriptors\<close>

definition std_files :: "process \<Rightarrow> bool" where
  "std_files p \<longleftrightarrow> eight_files p \<and> descriptors p 0 = Some (terminal_file True False) \<and> descriptors p 1 = Some (terminal_file False True) \<and>
     (\<forall>fd f. descriptors p fd = Some f \<longrightarrow> f_ops f \<noteq> None)"

lemma terminal_file_simps [simp]:
  "in_use (terminal_file r w)" "f_ops (terminal_file r w) = Some Terminal_funcs" "can_read (terminal_file r w) = r" "can_write (terminal_file r w) = w"
  by (simp_all add: terminal_file_def)

lemma std_files_nth:
  assumes "std_files p" "valid_fd fd p"
  shows "descriptors p (nat fd) = Some (open_files p ! nat fd)" "nat fd < 8" "in_use (open_files p ! nat fd)"
    "f_ops (open_files p ! nat fd) \<noteq> Some Terminal_funcs \<Longrightarrow> 2 \<le> fd"
proof -
  have wf: "eight_files p" using assms(1) by (simp add: std_files_def)
  then show d: "descriptors p (nat fd) = Some (open_files p ! nat fd)" "nat fd < 8" "in_use (open_files p ! nat fd)"
    using assms(2) by (auto simp: valid_fd_def descriptors_def eight_files_def)
  have "0 \<le> fd" using assms(2) by (simp add: valid_fd_def)
  then show "2 \<le> fd" if "f_ops (open_files p ! nat fd) \<noteq> Some Terminal_funcs"
    using that d(1) assms(1) by (cases "fd = 0"; cases "fd = 1") (auto simp: std_files_def)
qed

lemma std_files_put:
  assumes "std_files p" "i < 8" "2 \<le> i \<or> f = terminal_file (i = 0) (i = 1)" "in_use f \<Longrightarrow> f_ops f \<noteq> None"
  shows "std_files (put_file i f p)"
proof -
  have wf: "eight_files p" using assms(1) by (simp add: std_files_def)
  have d: "descriptors (put_file i f p) = (descriptors p)(i := if in_use f then Some f else None)" using fd_table.put_get [OF wf assms(2)] .
  have "i = 0 \<or> i = 1 \<or> 2 \<le> i" by linarith
  then show ?thesis
    using assms fd_table.put_wf [OF wf] unfolding std_files_def d by (auto split: if_splits)
qed

lemma dentry_file_in_use [simp]: "in_use (dentry_file u f d)"
  by (simp add: dentry_file_def fs_file_def rtc_file_def Let_def)

lemma open_new_std:
  assumes "std_files (proc k)" "open_new f k = Some (k', r)" "in_use f"
  shows "std_files (proc k')" "current_process k' = current_process k"
proof -
  have wf: "eight_files (proc k)" using assms(1) by (simp add: std_files_def)
  have "std_files (proc k') \<and> current_process k' = current_process k"
  proof (cases "find_new_fd (proc k) < 0")
    case False
    then have fd: "0 \<le> find_new_fd (proc k)" by simp
    note o = open_at_effect [OF open_new_effect(2) [OF assms(2) fd]]
    have "2 \<le> find_new_fd (proc k)" using fd_table.new_fd_high [OF wf] assms(1) fd by (simp add: std_files_def)
    then have "std_files (put_file (nat (find_new_fd (proc k))) f (proc k))"
      using fd_table.new_fd_first [OF wf fd] assms(1) o(4) by (intro std_files_put) auto
    then show ?thesis using o(2,3) by simp
  qed (use open_new_effect(1) [OF assms(2)] assms(1) in simp)
  then show "std_files (proc k')" "current_process k' = current_process k" by blast+
qed

lemma syscall_open_std:
  assumes "std_files (proc k)" "syscall_open u name k = Some (k', r)"
  shows "std_files (proc k') \<and> current_process k' = current_process k"
proof -
  have at: ?thesis if "open_at (int i) (terminal_file (i = 0) (i = 1)) k = Some (k', r)" "i < 2" for i
  proof -
    note o = open_at_effect [OF that(1)]
    have "std_files (put_file i (terminal_file (i = 0) (i = 1)) (proc k))" using assms(1) that(2) by (intro std_files_put) auto
    then show ?thesis using o(2,3) by simp
  qed
  have new: ?thesis if "open_new f k = Some (k', r)" "in_use f" for f using open_new_std [OF assms(1) that] by simp
  show ?thesis
    using assms at [of 0] at [of 1] new [of "rtc_file 0"] new [OF _ dentry_file_in_use]
    by (auto simp: syscall_open_unfold STDIN_FD_def STDOUT_FD_def rtc_file_def Option.bind_eq_Some_conv split: if_splits prod.splits)
qed

lemma syscall_read_std:
  assumes "std_files (proc k)" "syscall_read turns ticks fd buf n k = Some (k', r)" "\<forall>f \<in> set turns. keeps (current_process k) f"
  shows "std_files (proc k') \<and> current_process k' = current_process k"
proof (cases "valid_fd fd (proc k) \<and> can_read (open_files (proc k) ! nat fd)")
  case True
  let ?f = "open_files (proc k) ! nat fd"
  note f = std_files_nth [OF assms(1)]
  obtain ops where ops: "f_ops ?f = Some ops" "read_func turns ticks ops (current_process k) (nat fd) buf n k = Some (k', r)"
    using True assms(2) by (auto simp: syscall_read_def Option.bind_eq_Some_conv)
  have put: "std_files (put_file (nat fd) (?f\<lparr>pos := x\<rparr>) (proc k))" if "ops \<noteq> Terminal_funcs" for x
    using f [of fd] True that ops(1) assms(1) by (intro std_files_put) auto
  show ?thesis
  proof (cases ops)
    case Terminal_funcs
    then show ?thesis using ops(2) keyboard_read_keeps [OF _ assms(3)] assms(1) by (simp add: read_func_def)
  next
    case Fs_funcs
    then show ?thesis using ops(2) put by (auto simp: read_func_def Let_def file_read_def split: prod.splits)
  next
    case Dir_funcs
    then show ?thesis using ops(2) put
      by (auto simp: read_func_def Let_def directory_read_def Option.bind_eq_Some_conv split: option.splits prod.splits)
  next
    case Rtc_funcs
    then obtain c where "on_clock (rtc_read ?f ticks) k = Some (k', c)" using ops(2) by (auto simp: read_func_def Let_def)
    from on_clock_keeps(1,2) [OF this] show ?thesis using assms(1) by simp
  qed
next
  case False
  then have "k' = k" using assms(2) by (auto simp: syscall_read_def)
  then show ?thesis using assms(1) by simp
qed

lemma rtc_write_file:
  assumes "on_clock (rtc_write f m buf n) k = Some (k', f1, r)"
  shows "\<exists>x. f1 = f\<lparr>pos := x\<rparr>"
proof -
  have "\<exists>x. f1 = f\<lparr>pos := x\<rparr>" if "rtc_write f m buf n c = Some (c', f1, r)" for c c'
  proof (cases "write_freq m buf n")
    case None
    then have "f1 = f\<lparr>pos := pos f\<rparr>" using that by (simp add: rtc_write_def)
    then show ?thesis by blast
  qed (use that in \<open>auto simp: rtc_write_def Option.bind_eq_Some_conv Let_def split: prod.splits\<close>)
  then show ?thesis using assms by (auto simp: on_clock_def Option.bind_eq_Some_conv split: prod.splits)
qed

lemma syscall_write_std:
  assumes "std_files (proc k)" "syscall_write fd buf n k = Some (k', r)"
  shows "std_files (proc k') \<and> current_process k' = current_process k"
proof (cases "valid_fd fd (proc k) \<and> can_write (open_files (proc k) ! nat fd)")
  case True
  let ?f = "open_files (proc k) ! nat fd"
  note f = std_files_nth [OF assms(1)]
  obtain ops r0 where ops: "f_ops ?f = Some ops" "write_func ops (current_process k) (nat fd) buf n k = Some (k', r0)"
    using True assms(2) by (auto simp: syscall_write_def Option.bind_eq_Some_conv)
  show ?thesis
  proof (cases "ops = Rtc_funcs")
    case True
    obtain k1 f1 r1 where c: "on_clock (rtc_write ?f (mem k) buf n) k = Some (k1, f1, r1)" "k' = set_file (current_process k) (nat fd) f1 k1"
      using ops(2) True by (auto simp: write_func_def Let_def Option.bind_eq_Some_conv)
    obtain x where x: "f1 = ?f\<lparr>pos := x\<rparr>" using rtc_write_file [OF c(1)] by blast
    have "std_files (put_file (nat fd) (?f\<lparr>pos := x\<rparr>) (proc k))"
      using f [of fd] \<open>valid_fd fd (proc k) \<and> _\<close> True ops(1) assms(1) by (intro std_files_put) auto
    then show ?thesis using c(2) x on_clock_keeps(1,2) [OF c(1)] by simp
  next
    case False
    then have "k' = k \<or> keyboard_write buf n k = Some (k', r0)" using ops(2) by (cases ops) (simp_all add: write_func_def Let_def)
    then have "procs k' = procs k \<and> current_process k' = current_process k" using keyboard_write_keeps by blast
    then show ?thesis using assms(1) by simp
  qed
next
  case False
  then have "k' = k" using assms(2) by (auto simp: syscall_write_def)
  then show ?thesis using assms(1) by simp
qed

lemma syscall_close_std:
  assumes "std_files (proc k)" "syscall_close fd k = Some (k', r)"
  shows "std_files (proc k') \<and> current_process k' = current_process k"
proof (cases "valid_fd fd (proc k) \<and> fd \<noteq> int STDIN_FD \<and> fd \<noteq> int STDOUT_FD")
  case True
  let ?f = "open_files (proc k) ! nat fd"
  note f = std_files_nth [OF assms(1), of fd]
  obtain ops k1 where k1: "close_func ops ?f k = Some k1"
    "k' = set_file (current_process k) (nat fd) ((open_files (procs k1 (current_process k)) ! nat fd)\<lparr>in_use := False\<rparr>) k1"
    using True assms(2) by (auto simp: syscall_close_def Let_def Option.bind_eq_Some_conv)
  have "2 \<le> nat fd" using True by (auto simp: valid_fd_def STDIN_FD_def STDOUT_FD_def)
  then have "std_files (put_file (nat fd) (?f\<lparr>in_use := False\<rparr>) (proc k))" using f(2) True assms(1) by (intro std_files_put) auto
  then show ?thesis using k1(2) close_func_keeps(1,2) [OF k1(1)] by simp
next
  case False
  then have "k' = k" using assms(2) by (auto simp: syscall_close_def)
  then show ?thesis using assms(1) by simp
qed

text \<open>The file calls of the running process, in any order.\<close>

inductive file_step :: "kernel \<Rightarrow> kernel \<Rightarrow> bool" where
  Open: "syscall_open u name k = Some (k', r) \<Longrightarrow> file_step k k'"
| Read: "syscall_read turns ticks fd buf n k = Some (k', r) \<Longrightarrow> \<forall>f \<in> set turns. keeps (current_process k) f \<Longrightarrow> file_step k k'"
| Write: "syscall_write fd buf n k = Some (k', r) \<Longrightarrow> file_step k k'"
| Close: "syscall_close fd k = Some (k', r) \<Longrightarrow> file_step k k'"

lemma file_step_std: "file_step k k' \<Longrightarrow> std_files (proc k) \<Longrightarrow> std_files (proc k') \<and> current_process k' = current_process k"
  by (induction rule: file_step.induct) (blast dest: syscall_open_std syscall_read_std syscall_write_std syscall_close_std)+

section \<open>Looking up a name\<close>

text \<open>The first entry with a name.\<close>

definition entry_of :: "fs \<Rightarrow> memory \<Rightarrow> u8 list \<Rightarrow> dentry option" where
  "entry_of f m a = map_option (\<lambda>i. load_dentry m (dentry_addr f (of_nat i)))
     (List.find (\<lambda>i. entry_name f m i = a) [0..<unat (get_num_dentries f m)])"

lemma length_entry_name: "length (entry_name f m i) \<le> 32"
  using length_takeWhile_le [of "\<lambda>b. b \<noteq> 0" "map (\<lambda>k. at m (dentry_addr f (of_nat i)) (of_nat k)) [0..<32]"] by (simp add: entry_name_def chunk_def)

lemma entry_of_length: "entry_of f m a = Some d \<Longrightarrow> length a \<le> 32"
  using length_entry_name by (auto simp: entry_of_def find_Some_iff)

lemma strncmp_literal:
  assumes "str r a" "0 \<notin> set (map of_char s :: u8 list)" "length s \<le> 32"
  shows "strncmp r (literal s) 100 = 0 \<longleftrightarrow> a = map of_char s"
proof -
  have "str (literal s) (map of_char s)" using assms(2,3) by (auto simp: str_def literal_def unat_of_nat_u32)
  then have l: "upto_nul 100 (literal s) = map of_char s" using assms(3) by (intro upto_nul_str) simp_all
  have "take 100 a = map of_char s \<longleftrightarrow> a = map of_char s"
    using assms(3) by (cases "length a \<le> 100") (auto dest: arg_cong [where f = length])
  then show ?thesis using l upto_nul_take [OF assms(1), of 100] by (simp add: strncmp_zero)
qed

text \<open>A name that is not one of the devices that \<open>open\<close> knows by name.\<close>

definition not_device :: "u8 list \<Rightarrow> bool" where
  "not_device a \<longleftrightarrow> a \<notin> {map of_char ''/dev/stdin'', map of_char ''/dev/stdout'', map of_char ''/dev/rtc''}"

text \<open>What a name other than the standard streams stands for.\<close>

definition named_file :: "file_info \<Rightarrow> kernel \<Rightarrow> u8 list \<Rightarrow> file_info option" where
  "named_file u k a =
     (if a = map of_char ''/dev/rtc'' then Some (rtc_file 0)
      else if a = [] then None
      else map_option (dentry_file u (kfs k)) (entry_of (kfs k) (mem k) a))"

lemma open_target_named:
  assumes "str name a" "a \<noteq> map of_char ''/dev/stdin''" "a \<noteq> map of_char ''/dev/stdout''"
  shows "open_target u name k = Some (Option.bind (named_file u k a) (\<lambda>f. new_place f k))"
proof (cases "a = map of_char ''/dev/rtc''")
  case True
  then show ?thesis using assms by (simp add: open_target_def strncmp_literal [OF assms(1)] named_file_def)
next
  case False
  have "entry_of (kfs k) (mem k) a = None" if "32 < length a" using that entry_of_length [of "kfs k" "mem k" a] by (metis leD not_None_eq)
  then have "read_dentry_by_name (kfs k) (mem k) name =
      Some (if a = [] then (- 1, None) else case entry_of (kfs k) (mem k) a of None \<Rightarrow> (- 1, None) | Some d \<Rightarrow> (0, Some d))"
    using read_dentry_by_name_cases [OF assms(1), of "kfs k" "mem k"] by (auto simp: entry_of_def split: option.splits)
  moreover have "a = [] \<or> entry_of (kfs k) (mem k) a = None \<or> (\<exists>d. a \<noteq> [] \<and> entry_of (kfs k) (mem k) a = Some d)" by auto
  ultimately show ?thesis using assms False by (auto simp: open_target_def strncmp_literal [OF assms(1)] named_file_def)
qed

lemma open_by_name:
  assumes "str name a" "a \<noteq> map of_char ''/dev/stdin''" "a \<noteq> map of_char ''/dev/stdout''"
  shows "syscall_open u name k = (case named_file u k a of None \<Rightarrow> Some (k, - 1) | Some f \<Rightarrow> open_new f k)"
  by (cases "named_file u k a") (simp_all add: syscall_open_def open_target_named [OF assms] new_place_def open_new_def Let_def)

lemma named_file_pos: "named_file u k a = Some f \<Longrightarrow> pos f = 0 \<and> in_use f"
  by (auto simp: named_file_def dentry_file_def rtc_file_def fs_file_def Let_def split: if_splits)

lemma dentry_file_unset: "f_ops (dentry_file u f d) = None \<longleftrightarrow> f_ops u = None \<and> d_type d \<notin> {0, 1, 2}"
  by (simp add: dentry_file_def rtc_file_def fs_file_def Let_def DENTRY_FILE_def DENTRY_DIRECTORY_def DENTRY_RTC_def)

text \<open>An open that puts a structure in the table and then calls through a table of operations it never set.\<close>

definition calls_unset :: "file_info \<Rightarrow> reader \<Rightarrow> kernel \<Rightarrow> bool" where
  "calls_unset u name k \<longleftrightarrow> (\<exists>fd f. open_target u name k = Some (Some (fd, f)) \<and> f_ops f = None)"

lemma calls_unset_fails: "calls_unset u name k \<Longrightarrow> syscall_open u name k = None"
  by (auto simp: calls_unset_def syscall_open_def open_at_def)

lemma calls_unset_iff:
  assumes "str name a"
  shows "calls_unset u name k \<longleftrightarrow> f_ops u = None \<and> not_device a \<and> a \<noteq> [] \<and> 0 \<le> find_new_fd (proc k) \<and>
    (\<exists>d. entry_of (kfs k) (mem k) a = Some d \<and> d_type d \<notin> {0, 1, 2})"
proof (cases "a = map of_char ''/dev/stdin'' \<or> a = map of_char ''/dev/stdout''")
  case True
  then show ?thesis by (auto simp: calls_unset_def open_target_def strncmp_literal [OF assms] not_device_def)
next
  case False
  then have d: "a \<noteq> map of_char ''/dev/stdin''" "a \<noteq> map of_char ''/dev/stdout''" by blast+
  have p: "new_place f k = Some (fd, g) \<longleftrightarrow> 0 \<le> find_new_fd (proc k) \<and> fd = find_new_fd (proc k) \<and> g = f" for f fd g
    by (auto simp: new_place_def Let_def)
  have "calls_unset u name k \<longleftrightarrow> (\<exists>f. named_file u k a = Some f \<and> f_ops f = None) \<and> 0 \<le> find_new_fd (proc k)"
    unfolding calls_unset_def open_target_named [OF assms d] by (auto simp: Option.bind_eq_Some_conv p)
  moreover have "(\<exists>f. named_file u k a = Some f \<and> f_ops f = None) \<longleftrightarrow>
      f_ops u = None \<and> not_device a \<and> a \<noteq> [] \<and> (\<exists>d. entry_of (kfs k) (mem k) a = Some d \<and> d_type d \<notin> {0, 1, 2})"
    using d by (cases "a = map of_char ''/dev/rtc''") (auto simp: named_file_def not_device_def dentry_file_unset simp del: insert_iff, simp_all add: rtc_file_def)
  ultimately show ?thesis by blast
qed

text \<open>The clock is ready for one more file: nobody holds its lock and its counts are those of the open files.\<close>

definition clock_ready :: "kernel \<Rightarrow> bool" where
  "clock_ready k \<longleftrightarrow> (\<exists>ps. tracks (clock k) ps \<and> length ps + 1 < 2 ^ 32 - 1)"

lemma open_new_succeeds:
  assumes "f_ops f \<noteq> None" "f_ops f = Some Rtc_funcs \<longrightarrow> clock_ready k" "0 \<le> find_new_fd (proc k)"
  shows "\<exists>k'. open_new f k = Some (k', find_new_fd (proc k))"
proof -
  obtain ops where ops: "f_ops f = Some ops" using assms(1) by blast
  have "\<exists>k'. open_func ops k1 = Some k'" if k1: "clock k1 = clock k" for k1
  proof (cases "ops = Rtc_funcs")
    case True
    then obtain ps where "tracks (clock k) ps" "length ps + 1 < 2 ^ 32 - 1" using assms(2) ops by (auto simp: clock_ready_def)
    then have "tracks ((clock k)\<lparr>int_flag := b\<rparr>) ps" for b by (simp add: tracks_def)
    then obtain c where "rtc_open ((clock k)\<lparr>int_flag := bit (eflags (cflags k1)) 9\<rparr>) = Some (c, 0)"
      using rtc_open_tracks \<open>length ps + 1 < _\<close> by blast
    then show ?thesis using True k1 by (simp add: open_func_def on_clock_def)
  qed (cases ops; simp add: open_func_def)
  then obtain k' where "open_func ops (set_file (current_process k) (nat (find_new_fd (proc k))) f k) = Some k'" by fastforce
  then show ?thesis using assms(3) ops by (simp add: open_new_def open_at_def Let_def)
qed

lemma free_fd_iff:
  assumes "eight_files p" shows "0 \<le> find_new_fd p \<longleftrightarrow> (\<exists>i < 8. descriptors p i = None)"
proof (cases "0 \<le> find_new_fd p")
  case True
  then show ?thesis using fd_table.new_fd_first [OF assms True] by (auto intro!: exI [of _ "nat (find_new_fd p)"])
next
  case False
  then show ?thesis using fd_table.new_fd_none [OF assms] by auto
qed

lemma find_new_fd_least:
  assumes "eight_files p" "0 \<le> find_new_fd p"
  shows "find_new_fd p = int (LEAST i. descriptors p i = None)"
proof -
  have "(LEAST i. descriptors p i = None) = nat (find_new_fd p)"
    using fd_table.new_fd_first [OF assms] by (intro Least_equality) (auto simp: not_less [symmetric])
  then show ?thesis using assms(2) by simp
qed

section \<open>Reading a file through its descriptor\<close>

definition fd_file :: "int \<Rightarrow> kernel \<Rightarrow> memory \<times> file_info" where
  "fd_file fd k = (mem k, open_files (proc k) ! nat fd)"

definition fd_ok :: "int \<Rightarrow> u32 \<Rightarrow> int \<Rightarrow> kernel \<Rightarrow> bool" where
  "fd_ok fd buf n k \<longleftrightarrow> eight_files (proc k) \<and> valid_fd fd (proc k) \<and> 0 < n \<and> n < 2 ^ 31 \<and>
     f_ops (open_files (proc k) ! nat fd) = Some Fs_funcs \<and> can_read (open_files (proc k) ! nat fd) \<and>
     open_ok (kfs k) buf (of_int n) (fd_file fd k)"

definition fd_read :: "int \<Rightarrow> u32 \<Rightarrow> int \<Rightarrow> kernel \<Rightarrow> kernel \<times> u8 list" where
  "fd_read fd buf n k =
     (case syscall_read [] [] fd buf n k of None \<Rightarrow> (k, []) | Some (k', r) \<Rightarrow> (k', bytes (mem k') buf (nat r)))"

lemma sint_of_nat_u32: "n < 2 ^ 31 \<Longrightarrow> sint (of_nat n :: u32) = int n"
  by (simp add: signed_of_nat signed_take_bit_int_eq_self)

lemma syscall_read_regular:
  assumes "fd_ok fd buf n k"
  defines "f \<equiv> open_files (proc k) ! nat fd" and "bs \<equiv> take (nat n) (unread (kfs k) (fd_file fd k))"
  defines f1_def: "f1 \<equiv> f\<lparr>pos := pos f + of_nat (length bs)\<rparr>" and m_def: "m \<equiv> store_bytes (mem k) buf bs"
  shows "syscall_read turns ticks fd buf n k = Some (set_file (current_process k) (nat fd) f1 (set_mem m k), int (length bs))"
    and "bytes m buf (length bs) = bs" "read_step (kfs k) buf (of_int n) (fd_file fd k) = ((m, f1), bs)"
    and "length bs \<le> 1023 * 4096" "open_ok (kfs k) buf (of_int n) (m, f1)"
proof -
  let ?n = "of_int n :: u32"
  have o: "valid_fd fd (proc k)" "0 < n" "n < 2 ^ 31" "f_ops f = Some Fs_funcs" "can_read f" "open_ok (kfs k) buf ?n (mem k, f)"
    using assms(1) by (simp_all add: fd_ok_def fd_file_def f_def)
  have n: "unat ?n = nat n" using unat_of_nat_u32 [of "nat n"] o(2,3) by simp
  have bs: "bs = take (unat ?n) (unread (kfs k) (mem k, f))" by (simp add: bs_def n fd_file_def f_def)
  note e = read_step_effect [OF o(6), folded bs m_def]
  show step: "read_step (kfs k) buf ?n (fd_file fd k) = ((m, f1), bs)" using e(1) by (simp add: fd_file_def f1_def flip: f_def)
  show len: "length bs \<le> 1023 * 4096" using o(6) by (auto simp: bs unread_def open_ok_def well_formed_def)
  show "open_ok (kfs k) buf ?n (m, f1)" using e(1,2) by (simp add: f1_def)
  obtain r where fr: "file_read (kfs k) f buf ?n (mem k) = (m, f1, r)" "bytes m buf (unat r) = bs"
    using e(1) by (auto simp: read_step_def f1_def split: prod.splits)
  then have u: "unat r = length bs" by (metis length_bytes)
  show "bytes m buf (length bs) = bs" using fr(2) u by simp
  have "r = of_nat (length bs)" unfolding u [symmetric] by simp
  then have "sint r = int (length bs)" using sint_of_nat_u32 [of "length bs"] len by simp
  then show "syscall_read turns ticks fd buf n k = Some (set_file (current_process k) (nat fd) f1 (set_mem m k), int (length bs))"
    using o(1,4,5) fr(1) by (simp add: syscall_read_def read_func_def f_def)
qed

lemma fd_read_effect:
  assumes "fd_ok fd buf n k"
  shows "fd_file fd (fst (fd_read fd buf n k)) = fst (read_step (kfs k) buf (of_int n) (fd_file fd k))"
    and "snd (fd_read fd buf n k) = snd (read_step (kfs k) buf (of_int n) (fd_file fd k))"
    and "fd_ok fd buf n (fst (fd_read fd buf n k))" "kfs (fst (fd_read fd buf n k)) = kfs k"
proof -
  let ?f = "open_files (proc k) ! nat fd" and ?bs = "take (nat n) (unread (kfs k) (fd_file fd k))"
  let ?f1 = "?f\<lparr>pos := pos ?f + of_nat (length ?bs)\<rparr>" and ?m = "store_bytes (mem k) buf ?bs"
  let ?k1 = "set_file (current_process k) (nat fd) ?f1 (set_mem ?m k)"
  note s = syscall_read_regular [OF assms]
  have o: "eight_files (proc k)" "valid_fd fd (proc k)" "0 < n" "n < 2 ^ 31" "f_ops ?f = Some Fs_funcs" "can_read ?f"
    using assms by (simp_all add: fd_ok_def)
  have rd: "fd_read fd buf n k = (?k1, ?bs)" unfolding fd_read_def s(1) using s(2) by simp
  have b: "nat fd < 8" "0 \<le> fd" "fd < 8" "in_use ?f" using o(2) by (auto simp: valid_fd_def)
  have f1: "open_files (proc ?k1) ! nat fd = ?f1" using o(1) b by (simp add: put_file_def eight_files_def)
  then show "fd_file fd (fst (fd_read fd buf n k)) = fst (read_step (kfs k) buf (of_int n) (fd_file fd k))"
    "snd (fd_read fd buf n k) = snd (read_step (kfs k) buf (of_int n) (fd_file fd k))"
    unfolding rd s(3) by (simp_all add: fd_file_def)
  show "kfs (fst (fd_read fd buf n k)) = kfs k" by (simp add: rd)
  have "valid_fd fd (proc ?k1)" using f1 b by (simp add: valid_fd_def)
  then show "fd_ok fd buf n (fst (fd_read fd buf n k))"
    using s(5) o f1 fd_table.put_wf [OF o(1)] unfolding rd fd_ok_def by (simp add: fd_file_def)
qed

interpretation descriptor: sequential_reader "fd_ok fd buf n" "\<lambda>k. unread (kfs k) (fd_file fd k)" "fd_read fd buf n" for fd buf n
proof
  fix k
  assume ok: "fd_ok fd buf n k"
  then have o: "open_ok (kfs k) buf (of_int n) (fd_file fd k)" by (simp add: fd_ok_def)
  note e = fd_read_effect [OF ok]
  show "fd_ok fd buf n (fst (fd_read fd buf n k))" by (rule e(3))
  show "snd (fd_read fd buf n k) @ unread (kfs (fst (fd_read fd buf n k))) (fd_file fd (fst (fd_read fd buf n k))) = unread (kfs k) (fd_file fd k)"
    unfolding e(1,2,4) by (rule regular_file.rd_next [OF o])
  show "unread (kfs k) (fd_file fd k) = []" if "snd (fd_read fd buf n k) = []"
    using regular_file.rd_end [OF o] that unfolding e(2) .
qed

section \<open>Properties\<close>

text \<open>
  C15. Opening a name other than the standard streams. The clock has a name of its own, any other
  name stands for the first entry of the directory that has it. When there is no such entry, or
  all eight descriptors are in use, the call returns \<open>- 1\<close> and changes nothing. Otherwise, for an
  entry of one of the three known types (and a clock that is ready when it is opened), it succeeds:
  it returns the lowest free descriptor, puts the file there at position 0, and leaves every other
  descriptor, every other process, the memory and the file system alone.
\<close>

theorem open_lowest_free:
  assumes "eight_files (proc k)" "str name a" "a \<noteq> map of_char ''/dev/stdin''" "a \<noteq> map of_char ''/dev/stdout''"
  defines "least \<equiv> LEAST i. descriptors (proc k) i = None"
  shows "(named_file u k a = None \<longrightarrow> syscall_open u name k = Some (k, - 1)) \<and>
    ((\<forall>i < 8. descriptors (proc k) i \<noteq> None) \<longrightarrow> syscall_open u name k = Some (k, - 1)) \<and>
    (named_file u k a = Some f \<and> (\<exists>i < 8. descriptors (proc k) i = None) \<and> f_ops f \<noteq> None \<and> (f_ops f = Some Rtc_funcs \<longrightarrow> clock_ready k) \<longrightarrow>
      (\<exists>k'. syscall_open u name k = Some (k', int least) \<and> least < 8 \<and> descriptors (proc k') = (descriptors (proc k))(least \<mapsto> f) \<and> pos f = 0 \<and>
        current_process k' = current_process k \<and> (\<forall>q. q \<noteq> current_process k \<longrightarrow> procs k' q = procs k q) \<and> mem k' = mem k \<and> kfs k' = kfs k))"
proof (intro conjI impI)
  note o = open_by_name [OF assms(2-4)]
  show "syscall_open u name k = Some (k, - 1)" if "named_file u k a = None" using o that by simp
  show "syscall_open u name k = Some (k, - 1)" if "\<forall>i < 8. descriptors (proc k) i \<noteq> None"
    using o free_fd_iff [OF assms(1)] that by (auto simp: open_new_def Let_def not_le split: option.splits)
next
  assume f: "named_file u k a = Some f \<and> (\<exists>i < 8. descriptors (proc k) i = None) \<and> f_ops f \<noteq> None \<and> (f_ops f = Some Rtc_funcs \<longrightarrow> clock_ready k)"
  then have fd: "0 \<le> find_new_fd (proc k)" using free_fd_iff [OF assms(1)] by blast
  then obtain k' where o: "open_new f k = Some (k', find_new_fd (proc k))" using open_new_succeeds f by blast
  note e = open_at_effect [OF open_new_effect(2) [OF o fd]] and p = named_file_pos [of u k a f]
  have r: "find_new_fd (proc k) = int least" unfolding least_def using assms(1) fd by (rule find_new_fd_least)
  show "\<exists>k'. syscall_open u name k = Some (k', int least) \<and> least < 8 \<and> descriptors (proc k') = (descriptors (proc k))(least \<mapsto> f) \<and> pos f = 0 \<and>
        current_process k' = current_process k \<and> (\<forall>q. q \<noteq> current_process k \<longrightarrow> procs k' q = procs k q) \<and> mem k' = mem k \<and> kfs k' = kfs k"
    using open_new_fresh [OF assms(1) o] open_by_name [OF assms(2-4)] o f p e(2,3,5,6) r by (intro exI [of _ k']) auto
qed

definition std_process :: "nat \<Rightarrow> process" where
  "std_process p = (plain_process p)\<lparr>open_files := [terminal_file True False, terminal_file False True] @ replicate 6 closed_file\<rparr>"

definition file_kernel :: kernel where
  "file_kernel = set_mem tiny_image (plain_kernel\<lparr>kfs := tiny_fs, procs := std_process\<rparr>)"

definition name_a :: reader where
  "name_a = (\<lambda>i. if i = 0 then 97 else 0)"

lemma name_a_plain:
  "strncmp name_a (literal ''/dev/stdin'') 100 \<noteq> 0" "strncmp name_a (literal ''/dev/stdout'') 100 \<noteq> 0" "strncmp name_a (literal ''/dev/rtc'') 100 \<noteq> 0"
  by (simp_all add: strncmp_def strncmp_from.simps name_a_def literal_def)

lemma file_kernel_simps [simp]:
  "mem file_kernel = tiny_image" "kfs file_kernel = tiny_fs" "procs file_kernel = std_process" "current_process file_kernel = 1"
  by (simp_all add: file_kernel_def plain_kernel_def)

lemma std_process_files [simp]:
  "open_files (std_process p) = [terminal_file True False, terminal_file False True] @ replicate 6 closed_file" "eight_files (std_process p)"
  by (simp_all add: std_process_def eight_files_def)

lemma closed_file_free [simp]: "\<not> in_use closed_file"
  by (simp add: closed_file_def)

lemma std_process_table:
  "descriptors (std_process p) = [0 \<mapsto> terminal_file True False, 1 \<mapsto> terminal_file False True]"
  "find_new_fd (std_process p) = 2" "std_files (std_process p)"
proof -
  show d: "descriptors (std_process p) = [0 \<mapsto> terminal_file True False, 1 \<mapsto> terminal_file False True]"
    by (auto simp: descriptors_def nth_Cons' fun_eq_iff)
  show "find_new_fd (std_process p) = 2" by (simp add: find_new_fd_def upt_rec)
  show "std_files (std_process p)" unfolding std_files_def d by simp
qed

lemma dentry_a: "dentry_file closed_file tiny_fs (load_dentry tiny_image 64) = fs_file Fs_funcs 4096"
  by (simp add: dentry_file_def load_dentry_def load32_def tiny_image_def DENTRY_FILE_def DENTRY_DIRECTORY_def get_inode_ptr_def Let_def)

lemma open_name_a:
  "syscall_open closed_file name_a file_kernel = Some (set_file 1 2 (fs_file Fs_funcs 4096) file_kernel, 2)"
proof -
  have "read_dentry_by_name tiny_fs tiny_image name_a = Some (0, Some (load_dentry tiny_image 64))" unfolding name_a_def by (rule tiny_lookup)
  then show ?thesis using name_a_plain dentry_a
    by (simp add: syscall_open_unfold open_new_def open_at_def std_process_table(2) open_func_def fs_file_def Let_def)
qed

lemma name_a_str: "str name_a [97]"
  by (simp add: str_def name_a_def)

lemma tiny_entry_a: "entry_of tiny_fs tiny_image [97] = Some (load_dentry tiny_image 64)"
proof -
  have "entry_name tiny_fs tiny_image 0 = [97]" by (simp add: entry_name_def chunk_def at_def dentry_addr_def tiny_image_def upt_rec)
  then show ?thesis by (simp add: entry_of_def upt_rec dentry_addr_def)
qed

lemma name_b_missing: "str (literal ''b'') [98]" "entry_of tiny_fs tiny_image [98] = None"
proof -
  have "entry_name tiny_fs tiny_image 0 = [97]" by (simp add: entry_name_def chunk_def at_def dentry_addr_def tiny_image_def upt_rec)
  then show "entry_of tiny_fs tiny_image [98] = None" by (simp add: entry_of_def upt_rec)
qed (simp add: str_def literal_def)

theorem open_lowest_free_witness:
  "syscall_open closed_file (literal ''b'') file_kernel = Some (file_kernel, - 1) \<and>
   (\<exists>k'. syscall_open closed_file name_a file_kernel = Some (k', int (LEAST i. descriptors (std_process 1) i = None)) \<and>
      descriptors (procs k' 1) = (descriptors (std_process 1))((LEAST i. descriptors (std_process 1) i = None) \<mapsto> fs_file Fs_funcs 4096))"
proof
  have "named_file closed_file file_kernel [98] = None" using name_b_missing(2) by (simp add: named_file_def)
  then show "syscall_open closed_file (literal ''b'') file_kernel = Some (file_kernel, - 1)"
    using open_lowest_free [OF _ name_b_missing(1), of file_kernel closed_file] by simp
  have "named_file closed_file file_kernel [97] = Some (fs_file Fs_funcs 4096)" using tiny_entry_a dentry_a by (simp add: named_file_def)
  moreover have "descriptors (std_process 1) 2 = None" by (simp add: std_process_table(1))
  then have "\<exists>i < 8. descriptors (std_process 1) i = None" by (intro exI [of _ 2]) simp
  moreover have "f_ops (fs_file Fs_funcs 4096) = Some Fs_funcs" by (simp add: fs_file_def)
  ultimately show "\<exists>k'. syscall_open closed_file name_a file_kernel = Some (k', int (LEAST i. descriptors (std_process 1) i = None)) \<and>
      descriptors (procs k' 1) = (descriptors (std_process 1))((LEAST i. descriptors (std_process 1) i = None) \<mapsto> fs_file Fs_funcs 4096)"
    using open_lowest_free [OF _ name_a_str, of file_kernel closed_file "fs_file Fs_funcs 4096"] by auto
qed


definition odd_image :: memory where
  "odd_image = tiny_image(96 := 3)"

lemma odd_entry_a: "entry_of tiny_fs odd_image [97] = Some (load_dentry odd_image 64)" "d_type (load_dentry odd_image 64) = 3"
proof -
  have "entry_name tiny_fs odd_image 0 = [97]" by (simp add: entry_name_def chunk_def at_def dentry_addr_def odd_image_def tiny_image_def upt_rec)
  moreover have "get_num_dentries tiny_fs odd_image = 1"
    by (simp add: get_num_dentries_def get_master_entry_addr_def load32_def odd_image_def tiny_image_def)
  ultimately show "entry_of tiny_fs odd_image [97] = Some (load_dentry odd_image 64)" by (simp add: entry_of_def upt_rec dentry_addr_def)
  show "d_type (load_dentry odd_image 64) = 3" by (simp add: load_dentry_def load32_def odd_image_def tiny_image_def)
qed


text \<open>
  A read, write or close with a descriptor that is out of range or not in use returns
  \<open>- 1\<close> and changes nothing; so do a close of the standard streams, a read without and a
  write without the permission.
\<close>

theorem bad_descriptor_rejected:
  "(\<not> valid_fd fd (proc k) \<or> \<not> can_read (open_files (proc k) ! nat fd) \<longrightarrow> syscall_read turns ticks fd buf n k = Some (k, - 1)) \<and>
   (\<not> valid_fd fd (proc k) \<or> \<not> can_write (open_files (proc k) ! nat fd) \<longrightarrow> syscall_write fd buf n k = Some (k, - 1)) \<and>
   (\<not> valid_fd fd (proc k) \<or> fd = 0 \<or> fd = 1 \<longrightarrow> syscall_close fd k = Some (k, - 1))"
  by (simp add: syscall_read_def syscall_write_def syscall_close_def STDIN_FD_def STDOUT_FD_def)

theorem bad_descriptor_rejected_witness:
  "syscall_read [] [] 5 0x5000 3 file_kernel = Some (file_kernel, - 1) \<and> syscall_write 0 0x5000 3 file_kernel = Some (file_kernel, - 1) \<and>
   syscall_close 1 file_kernel = Some (file_kernel, - 1)"
  using bad_descriptor_rejected [of 5 file_kernel "[]" "[]" "0x5000" 3] bad_descriptor_rejected [of 0 file_kernel "[]" "[]" "0x5000" 3]
    bad_descriptor_rejected [of 1 file_kernel "[]" "[]" "0x5000" 3]
  by (simp add: valid_fd_def)

text \<open>
  What \<open>cat\<close> relies on: opening a regular file by its name and reading the descriptor
  until a read returns 0 gives the contents of the file, for every buffer clear of the file
  system image and every positive length.
\<close>

theorem open_read_contents:
  assumes "eight_files (proc k)" "0 \<le> find_new_fd (proc k)"
    and "strncmp name (literal ''/dev/stdin'') 100 \<noteq> 0" "strncmp name (literal ''/dev/stdout'') 100 \<noteq> 0" "strncmp name (literal ''/dev/rtc'') 100 \<noteq> 0"
    and "read_dentry_by_name (kfs k) (mem k) name = Some (0, Some d)" "d_type d = DENTRY_FILE" "inode = get_inode_ptr (kfs k) (d_inode d)"
    and "well_formed (kfs k) (mem k) inode" "span buf (nat n) \<inter> image (kfs k) (mem k) inode = {}" "0 < n" "n < 2 ^ 31"
  shows "\<exists>k1 fd. syscall_open u name k = Some (k1, fd) \<and>
    read_all (fd_read fd buf n) (Suc (unat (load32 (mem k) inode))) k1 = Some (contents (kfs k) (mem k) inode)"
proof -
  let ?fd = "find_new_fd (proc k)" and ?f = "fs_file Fs_funcs inode"
  let ?k1 = "set_file (current_process k) (nat ?fd) ?f k"
  have f: "dentry_file u (kfs k) d = ?f" using assms(7,8) by (simp add: dentry_file_def DENTRY_FILE_def DENTRY_DIRECTORY_def)
  then have o: "syscall_open u name k = Some (?k1, ?fd)"
    using assms(2-6) by (simp add: syscall_open_unfold open_new_def open_at_def open_func_def fs_file_def Let_def)
  have b: "?fd < 8" using fd_table.new_fd_first [OF assms(1,2)] by simp
  then have f1: "open_files (proc ?k1) ! nat ?fd = ?f" using assms(1,2) by (simp add: put_file_def eight_files_def)
  have n: "unat (of_int n :: u32) = nat n" using unat_of_nat_u32 [of "nat n"] assms(11,12) by simp
  have "open_ok (kfs k) buf (of_int n) (mem k, ?f)"
    using assms(9-12) n by (auto simp: open_ok_def fs_file_def)
  moreover have "valid_fd ?fd (proc ?k1)" using f1 b assms(2) by (simp add: valid_fd_def fs_file_def)
  ultimately have "fd_ok ?fd buf n ?k1"
    using fd_table.put_wf [OF assms(1)] f1 assms(11,12) by (simp add: fd_ok_def fd_file_def) (simp add: fs_file_def)
  moreover have "unread (kfs ?k1) (fd_file ?fd ?k1) = contents (kfs k) (mem k) inode"
    using f1 by (simp add: unread_def fd_file_def) (simp add: fs_file_def)
  ultimately show ?thesis using o descriptor.read_all_left [of ?fd buf n ?k1 "Suc (unat (load32 (mem k) inode))"] by auto
qed

theorem open_read_contents_witness:
  "\<exists>k1 fd. syscall_open closed_file name_a file_kernel = Some (k1, fd) \<and> read_all (fd_read fd 0x5000 3) 4 k1 = Some [104, 105, 10]"
proof -
  let ?d = "load_dentry tiny_image 64"
  have "read_dentry_by_name tiny_fs tiny_image name_a = Some (0, Some ?d)" unfolding name_a_def by (rule tiny_lookup)
  moreover have "d_type ?d = DENTRY_FILE" "4096 = get_inode_ptr tiny_fs (d_inode ?d)"
    by (simp_all add: load_dentry_def load32_def tiny_image_def DENTRY_FILE_def get_inode_ptr_def)
  ultimately show ?thesis
    using open_read_contents [of file_kernel name_a ?d 4096 "0x5000" 3 closed_file] name_a_plain tiny_well_formed tiny_disjoint tiny_contents
    by (simp add: std_process_table(2))
qed

end
