(* ===== verification/Process.thy ===== *)
theory Process
  imports Files
begin

text \<open>
  Processes and the switch between them: the rest of \<^verbatim>\<open>task.c\<close>, the click on the status
  bar that starts a shell (\<^verbatim>\<open>status.c\<close>) and the mouse interrupt over the whole kernel. The
  saved registers of a process are not part of the model; where it continues is.
\<close>

section \<open>Addresses\<close>

definition calc_pcb_address :: "nat \<Rightarrow> u32" where
  "calc_pcb_address pid = of_nat (MB 8) - 0x2000 * (of_nat pid + 1)"

definition calc_kstack_address :: "nat \<Rightarrow> u32" where
  "calc_kstack_address pid = of_nat (MB 8) - 0x2000 * of_nat pid"

definition calc_ustack_address :: "nat \<Rightarrow> u32" where
  "calc_ustack_address pid = of_nat (MB 128) + of_nat (MB 4)"

definition calc_program_start :: "nat \<Rightarrow> u32" where
  "calc_program_start pid = 0x848000 + of_nat (MB 4) * (of_nat pid - 1)"

section \<open>Loading a program\<close>

definition FILE_HEADER_SIZE :: u32 where
  "FILE_HEADER_SIZE = 40"

definition load_program :: "fs \<Rightarrow> reader \<Rightarrow> u32 \<Rightarrow> memory \<Rightarrow> (memory \<times> u32) option" where
  "load_program f fname addr m = do {
     (r, found) \<leftarrow> read_dentry_by_name f m fname;
     if r = - 1 then Some (m, 0)
     else do {
       d \<leftarrow> found;
       if d_type d \<noteq> DENTRY_FILE then Some (m, 0)
       else
         let inode = get_inode_ptr f (d_inode d);
             file_length = load32 m inode;
             (m1, n) = read_data f inode 0 addr FILE_HEADER_SIZE m
         in if n <s FILE_HEADER_SIZE then Some (m1, 0)
            else if load32 m1 addr \<noteq> 0x464C457F then Some (m1, 0)
            else
              let start_address = load32 m1 (addr + 24);
                  (m2, n2) = read_data f inode FILE_HEADER_SIZE (addr + FILE_HEADER_SIZE) (file_length - FILE_HEADER_SIZE) m1
              in if n2 < file_length - FILE_HEADER_SIZE then Some (m2, 0) else Some (m2, start_address)
     }
   }"

section \<open>Tasks of processes\<close>

definition set_current_process :: "nat \<Rightarrow> kernel \<Rightarrow> kernel" where
  "set_current_process p k = k\<lparr>current_process := p, pages := load_pages (p_pid (procs k p)) (pages k), esp0 := kernel_stack (procs k p)\<rparr>"

definition activate_task :: "u32 \<Rightarrow> kernel \<Rightarrow> kernel option" where
  "activate_task t k = do {
     let k1 = k\<lparr>runqueue := upd_task t (\<lambda>r. r\<lparr>t_status := TaskActive\<rparr>) (runqueue k)\<rparr>;
     let p = t_process (tasks (runqueue k1) t);
     (case p_terminal (procs k1 p) of
        None \<Rightarrow> Some k1
      | Some i \<Rightarrow> do {
          r \<leftarrow> term_at i (ktty k1);
          in_terminal \<leftarrow> put_at (process_in_terminal k1) (index r) (Some p);
          Some (k1\<lparr>process_in_terminal := in_terminal\<rparr>)
        })
   }"

text \<open>\<open>sizeof (task_t)\<close> is 16; the result of \<open>kmalloc\<close> is used without a test for NULL.\<close>

definition add_process :: "nat \<Rightarrow> kernel \<Rightarrow> kernel option" where
  "add_process p k = do {
     (s1, t) \<leftarrow> kmalloc 16 (km k);
     if t = 0 then None
     else do {
       let k1 = k\<lparr>km := s1, runqueue := upd_task t (\<lambda>r. r\<lparr>t_process := p\<rparr>) (runqueue k)\<rparr>;
       k2 \<leftarrow> activate_task t (upd_proc p (\<lambda>r. r\<lparr>p_task := Some t\<rparr>) k1);
       Some (k2\<lparr>runqueue := push_head_task t (runqueue k2)\<rparr>)
     }
   }"

definition free_task :: "u32 option \<Rightarrow> kernel \<Rightarrow> kernel option" where
  "free_task t k = do {
     s1 \<leftarrow> kfree (case t of None \<Rightarrow> 0 | Some t \<Rightarrow> t) (km k);
     Some (k\<lparr>km := s1\<rparr>)
   }"

definition close_process :: "nat \<Rightarrow> kernel \<Rightarrow> kernel option" where
  "close_process p k = do {
     (q, t) \<leftarrow> remove_task (p_task (procs k p)) (runqueue k);
     free_task t (k\<lparr>runqueue := q\<rparr>)
   }"

section \<open>New processes\<close>

partial_function (option) max_pid :: "kernel \<Rightarrow> u32 option \<Rightarrow> nat \<Rightarrow> nat option" where
  "max_pid k tp pid =
     (case tp of
        None \<Rightarrow> Some pid
      | Some t \<Rightarrow> max_pid k (t_next (tasks (runqueue k) t)) (max pid (p_pid (procs k (t_process (tasks (runqueue k) t))))))"

declare max_pid.simps [simp del]

text \<open>The process table is indexed by the process number; \<open>None\<close> as a result is NULL.\<close>

definition new_process :: "kernel \<Rightarrow> (kernel \<times> nat option) option" where
  "new_process k = do {
     highest \<leftarrow> max_pid k (q_head (runqueue k)) 0;
     let pid = highest + 1;
     if MAX_PROCESSES \<le> pid then Some (k, None)
     else do {
       let parent = current_process k;
       let k1 = upd_proc pid (\<lambda>r. r\<lparr>p_pid := pid, user_stack := calc_ustack_address pid, kernel_stack := calc_kstack_address pid,
         page_start := calc_program_start pid, open_files := map (\<lambda>f. f\<lparr>in_use := False\<rparr>) (open_files r),
         p_level := p_level (procs k parent) + 1, p_parent := Some parent\<rparr>) k;
       (case p_terminal (procs k1 parent) of
          Some i \<Rightarrow> Some (upd_proc pid (\<lambda>r. r\<lparr>p_terminal := Some i, vidmap_flag := False\<rparr>) k1, Some pid)
        | None \<Rightarrow>
            (case new_terminal k1 of
               None \<Rightarrow> Some (upd_proc pid (\<lambda>r. r\<lparr>p_terminal := None\<rparr>) k1, None)
             | Some i \<Rightarrow> do {
                 k2 \<leftarrow> switch_terminals (Some i) (upd_proc pid (\<lambda>r. r\<lparr>p_terminal := Some i\<rparr>) k1);
                 Some (upd_proc pid (\<lambda>r. r\<lparr>vidmap_flag := False\<rparr>) k2, Some pid)
               }))
     }
   }"

text \<open>
  The command line: up to 32 characters before a space or the end are the program, what follows
  the spaces is the arguments. Writing past the 100 bytes of \<open>args\<close> is \<open>None\<close>.
\<close>

fun copy_program :: "reader \<Rightarrow> nat \<Rightarrow> nat \<Rightarrow> u8 list \<Rightarrow> nat \<times> u8 list" where
  "copy_program command 0 i prog = (i, prog)"
| "copy_program command (Suc left) i prog =
     (let c = command (of_nat i)
      in if c = 0x20 \<or> c = 0 then (i, prog) else copy_program command left (i + 1) (prog[i := c]))"

partial_function (option) skip_spaces :: "reader \<Rightarrow> u32 \<Rightarrow> u32 option" where
  "skip_spaces command i = (if command i = 0x20 then skip_spaces command (i + 1) else Some i)"

partial_function (option) copy_args :: "reader \<Rightarrow> u32 \<Rightarrow> nat \<Rightarrow> u8 list \<Rightarrow> u8 list option" where
  "copy_args command i argi as =
     (if command i \<noteq> 0 then
        if argi < length as then copy_args command (i + 1) (argi + 1) (as[argi := command i]) else None
      else if argi < length as then Some (as[argi := 0]) else None)"

declare skip_spaces.simps [simp del] copy_args.simps [simp del]

definition parse_command :: "reader \<Rightarrow> process \<Rightarrow> process option" where
  "parse_command command r = do {
     let (i, prog) = copy_program command 32 0 (program r);
     i1 \<leftarrow> skip_spaces command (of_nat i);
     as \<leftarrow> copy_args command i1 0 (args r);
     Some (r\<lparr>program := prog[i := 0], args := as\<rparr>)
   }"

definition list_reader :: "u8 list \<Rightarrow> reader" where
  "list_reader cs = (\<lambda>i. if unat i < length cs then cs ! unat i else 0)"

definition open_std :: "kernel \<Rightarrow> kernel option" where
  "open_std k = do {
     (k1, _) \<leftarrow> syscall_open closed_file (literal ''/dev/stdin'') k;
     (k2, _) \<leftarrow> syscall_open closed_file (literal ''/dev/stdout'') k1;
     Some k2
   }"

definition setup_process :: "reader \<Rightarrow> kernel \<Rightarrow> (kernel \<times> u32) option" where
  "setup_process command k = do {
     (k1, made) \<leftarrow> new_process k;
     (case made of
        None \<Rightarrow> Some (k1, 0)
      | Some p \<Rightarrow> do {
          r \<leftarrow> parse_command command (procs k1 p);
          let k2 = upd_proc p (\<lambda>_. r) k1;
          let k3 = k2\<lparr>pages := load_pages (p_pid (procs k2 p)) (pages k2)\<rparr>;
          (m, start_address) \<leftarrow> load_program (kfs k3) (list_reader (program (procs k3 p))) (page_start (procs k3 p)) (mem k3);
          let k4 = set_mem m k3;
          let k5 = k4\<lparr>pages := load_pages (p_pid (proc k4)) (pages k4)\<rparr>;
          if start_address = 0 then Some (k5, 0)
          else do {
            k6 \<leftarrow> add_process p k5;
            k7 \<leftarrow> open_std (set_current_process p k6);
            Some (k7, start_address)
          }
        })
   }"

definition init_processes :: "kernel \<Rightarrow> kernel option" where
  "init_processes k = do {
     let k1 = k\<lparr>runqueue := init_taskqueue (runqueue k)\<rparr>;
     let k2 = upd_proc 0 (\<lambda>r. r\<lparr>p_pid := 0, user_stack := 0, kernel_stack := calc_kstack_address 0, page_start := 0,
       open_files := map (\<lambda>f. f\<lparr>in_use := False\<rparr>) (open_files r), ret_val := 0, p_level := 0, p_parent := None,
       p_terminal := None, vidmap_flag := False\<rparr>) k1;
     k3 \<leftarrow> add_process 0 k2;
     open_std (set_current_process 0 k3)
   }"

text \<open>\<open>kernel_spawn\<close> does not use its argument. A NULL result leaves the kernel's process current.\<close>

definition kernel_spawn :: "reader \<Rightarrow> kernel \<Rightarrow> (kernel \<times> nat option) option" where
  "kernel_spawn command k = do {
     let old_process = current_process k;
     (k1, start_addr) \<leftarrow> setup_process (literal ''shell'') (k\<lparr>current_process := 0\<rparr>);
     if start_addr = 0 then Some (k1, None)
     else
       let new = current_process k1;
           k2 = upd_proc new (\<lambda>r. r\<lparr>ret_addr := Start start_addr\<rparr>) k1
       in Some (k2\<lparr>current_process := old_process\<rparr>, Some new)
   }"

section \<open>Switching tasks\<close>

text \<open>
  Where the processor continues after a switch: a code address, in user mode or not; \<open>None\<close>
  when the call simply returns.
\<close>

type_synonym jump = "(code_addr \<times> bool) option"

definition task_switch :: "u32 option \<Rightarrow> u32 option \<Rightarrow> kernel \<Rightarrow> kernel \<times> jump" where
  "task_switch from_task to_task k =
     (case (from_task, to_task) of
        (Some f, Some t) \<Rightarrow>
          let from = t_process (tasks (runqueue k) f);
              to = t_process (tasks (runqueue k) t);
              back = ret_addr (procs k to);
              k1 = set_current_process to (upd_proc from (\<lambda>r. r\<lparr>ret_addr := Task_switch_back\<rparr>) k)
          in (k1, Some (back, back \<noteq> ret_addr (procs k1 from)))
      | _ \<Rightarrow> (k, None))"

definition reschedule :: "kernel \<Rightarrow> (kernel \<times> jump) option" where
  "reschedule k = do {
     let from_task = p_task (proc k);
     (q, to_task) \<leftarrow> schedule_loop (num_tasks (runqueue k)) (runqueue k);
     let k1 = k\<lparr>runqueue := q\<rparr>;
     Some (if to_task \<noteq> None \<and> from_task \<noteq> to_task then task_switch from_task to_task k1 else (k1, None))
   }"

section \<open>The status bar\<close>

definition put_segment :: "nat \<Rightarrow> u8 list \<Rightarrow> kernel \<Rightarrow> kernel" where
  "put_segment i text k = on_status (set_segment_data i text) k"

partial_function (option) bar_tasks :: "u32 option \<Rightarrow> kernel \<Rightarrow> kernel option" where
  "bar_tasks tp k =
     (case tp of
        None \<Rightarrow> Some k
      | Some t \<Rightarrow> do {
          let p = procs k (t_process (tasks (runqueue k) t));
          k1 \<leftarrow> (if t_status (tasks (runqueue k) t) = TaskActive \<and> p_terminal p \<noteq> None then do {
                   i \<leftarrow> p_terminal p;
                   r \<leftarrow> term_at i (ktty k);
                   text \<leftarrow> cstring (program p);
                   Some (put_segment (index r + 2) text k)
                 } else Some k);
          bar_tasks (t_next (tasks (runqueue k1) t)) k1
        })"

declare bar_tasks.simps [simp del]

definition set_status_bar :: "kernel \<Rightarrow> kernel option" where
  "set_status_bar k = do {
     let k1 = fold (\<lambda>i. put_segment (2 + i) (map of_char ''(none)'')) [0..<NUM_TERMINALS] k;
     k2 \<leftarrow> bar_tasks (q_head (runqueue k1)) k1;
     Some (on_status (\<lambda>st s. (st, write_status_bar st s)) k2)
   }"

text \<open>
  A click on the bar. Segment 0 is the start button; a failure to start a shell returns with
  interrupts blocked. \<open>terminals[10]\<close>, which the test lets through, is outside the model.
\<close>

definition start_clicked :: "kernel \<Rightarrow> (kernel \<times> bool) option" where
  "start_clicked k = do {
     let (c, flags) = block_interrupts (cflags k);
     (k1, made) \<leftarrow> kernel_spawn (literal ''shell'') (k\<lparr>cflags := c\<rparr>);
     (case made of
        None \<Rightarrow> Some (k1, False)
      | Some p \<Rightarrow> do {
          k2 \<leftarrow> switch_terminals (p_terminal (procs k1 p)) k1;
          let k3 = on_status (\<lambda>st s. (st, write_status_bar st s)) k2;
          Some (k3\<lparr>cflags := restore_interrupts flags (cflags k3)\<rparr>, True)
        })
   }"

definition status_click :: "int \<Rightarrow> int \<Rightarrow> kernel \<Rightarrow> kernel option" where
  "status_click x y k =
     (if y \<noteq> NUM_ROWS \<or> x \<le> 0 then Some k
      else case click_segment (kstatus k) x 0 0 of
        None \<Rightarrow> Some k
      | Some sg \<Rightarrow> do {
          (k1, go_on) \<leftarrow> (if sg = 0 then start_clicked k else Some (k, True));
          if \<not> go_on then Some k1
          else do {
            let terminal_num = sg - 2;
            k2 \<leftarrow> (if 0 \<le> terminal_num \<and> terminal_num \<le> int NUM_TERMINALS \<and> 0 < seg_length (segment (kstatus k1) (nat terminal_num))
                  then if terminal_num = int NUM_TERMINALS then None else switch_terminals (Some (nat terminal_num)) k1
                  else Some k1);
            set_status_bar k2
          }
        })"

section \<open>The mouse interrupt\<close>

fun run_clicks :: "(click_handler \<times> int \<times> int) list \<Rightarrow> kernel \<Rightarrow> kernel option" where
  "run_clicks [] k = Some k"
| "run_clicks ((Line_click, x, y) # calls) k = do { k1 \<leftarrow> line_click x y k; run_clicks calls k1 }"
| "run_clicks ((Status_click, x, y) # calls) k = do { k1 \<leftarrow> status_click x y k; run_clicks calls k1 }"

definition mouse_handler :: "kernel \<Rightarrow> kernel option" where
  "mouse_handler k = do {
     (m, calls) \<leftarrow> mouse_event ((kmouse k)\<lparr>mscr := scr (the_tty k)\<rparr>);
     k1 \<leftarrow> run_clicks calls (on_screen (\<lambda>_. mscr m) (k\<lparr>kmouse := m\<rparr>));
     Some (k1\<lparr>irqs := send_eoi 12 (irqs k1)\<rparr>)
   }"

text \<open>The handlers a packet's buttons call, with the cell the pointer is in.\<close>

definition clicks_due :: "u8 \<Rightarrow> kernel \<Rightarrow> (click_handler \<times> int \<times> int) list" where
  "clicks_due flags k = (if moves flags then
     (if bit flags 0 then clicks (left_click_handler (kmouse k)) (scr (the_tty k)) else []) @
     (if bit flags 1 then clicks (right_click_handler (kmouse k)) (scr (the_tty k)) else []) else [])"

section \<open>The command line\<close>

definition words_of :: "u8 list \<Rightarrow> u8 list \<times> u8 list" where
  "words_of bs = (let w = takeWhile (\<lambda>c. c \<noteq> 0x20) (take 32 bs) in (w, dropWhile (\<lambda>c. c = 0x20) (drop (length w) bs)))"

lemma copy_program_word:
  assumes "i + left \<le> length prog"
  shows "copy_program command left i prog =
    (let w = takeWhile (\<lambda>c. c \<noteq> 0x20 \<and> c \<noteq> 0) (map (\<lambda>j. command (of_nat j)) [i..<i + left])
     in (i + length w, take i prog @ w @ drop (i + length w) prog))"
  using assms
proof (induction left arbitrary: i prog)
  case (Suc left)
  let ?c = "command (of_nat i)"
  have i: "i < length prog" "i + 1 + left \<le> length (prog[i := ?c])" using Suc.prems by simp_all
  have u: "[i..<Suc (i + left)] = i # [Suc i..<Suc (i + left)]" by (simp add: upt_conv_Cons del: upt_Suc)
  have t: "take (i + 1) (prog[i := ?c]) = take i prog @ [?c]" using i by (simp add: take_Suc_conv_app_nth)
  show ?case
    using Suc.IH [OF i(2)] t by (simp add: Let_def u del: upt_Suc)
qed simp

lemma skip_spaces_run:
  assumes "str command bs" "j \<le> length bs"
  shows "skip_spaces command (of_nat j) = Some (of_nat (length bs - length (dropWhile (\<lambda>c. c = 0x20) (drop j bs))))"
  using assms(2)
proof (induction "length bs - j" arbitrary: j)
  case 0
  then show ?case using assms(1) by (subst skip_spaces.simps) (simp add: str_def)
next
  case (Suc n)
  then have j: "j < length bs" "n = length bs - Suc j" by simp_all
  have d: "drop j bs = bs ! j # drop (Suc j) bs" "command (of_nat j) = bs ! j" using j assms(1) by (simp_all add: Cons_nth_drop_Suc str_def)
  show ?case
  proof (cases "bs ! j = 0x20")
    case True
    then show ?thesis using Suc.hyps(1) [OF j(2)] j(1) d by (subst skip_spaces.simps) (simp add: add.commute)
  next
    case False
    then show ?thesis using d j(1) by (subst skip_spaces.simps) simp
  qed
qed

lemma copy_args_run:
  assumes "str command bs" "j \<le> length bs"
  shows "copy_args command (of_nat j) argi as =
    (if argi + length (drop j bs) < length as then Some (take argi as @ drop j bs @ 0 # drop (argi + length (drop j bs) + 1) as) else None)"
  using assms(2)
proof (induction "length bs - j" arbitrary: j argi as)
  case 0
  then show ?case using assms(1) by (subst copy_args.simps) (simp add: str_def upd_conv_take_nth_drop)
next
  case (Suc n)
  then have j: "j < length bs" "n = length bs - Suc j" by simp_all
  have d: "drop j bs = bs ! j # drop (Suc j) bs" "command (of_nat j) = bs ! j" using j assms(1) by (simp_all add: Cons_nth_drop_Suc str_def)
  have nz: "bs ! j \<noteq> 0" using assms(1) nth_mem [OF j(1)] unfolding str_def by metis
  have t: "take (Suc argi) (as[argi := bs ! j]) = take argi as @ [bs ! j]" if "argi < length as"
    using that by (simp add: take_Suc_conv_app_nth)
  show ?case
  proof (cases "argi < length as")
    case True
    have "Suc j \<le> length bs" using j by simp
    from Suc.hyps(1) [OF j(2) this, of "argi + 1" "as[argi := bs ! j]"] show ?thesis
      using True t d nz j(1) by (subst copy_args.simps) (simp add: add.commute)
  next
    case False
    then show ?thesis using d nz by (subst copy_args.simps) simp
  qed
qed

lemma parse_command_words:
  assumes "str command bs" "length (program r) = 33" "words_of bs = (w, a)"
  shows "parse_command command r =
    (if length a < length (args r) then Some (r\<lparr>program := w @ 0 # drop (length w + 1) (program r), args := a @ 0 # drop (length a + 1) (args r)\<rparr>) else None)"
proof -
  let ?n = "length bs"
  have w: "w = takeWhile (\<lambda>c. c \<noteq> 0x20) (take 32 bs)" "a = dropWhile (\<lambda>c. c = 0x20) (drop (length w) bs)"
    using assms(3) by (auto simp: words_of_def Let_def)
  have m: "command (of_nat j) = bs ! j" if "j < ?n" for j using that assms(1) by (simp add: str_def)
  have tw: "takeWhile (\<lambda>c. c \<noteq> 0x20 \<and> c \<noteq> 0) (map (\<lambda>j. command (of_nat j)) [0..<0 + 32]) = w"
  proof -
    have nz: "0 \<notin> set bs" using assms(1) by (simp add: str_def)
    have split: "map (\<lambda>j. command (of_nat j)) [0..<32] = take 32 bs @ map (\<lambda>j. command (of_nat j)) [min ?n 32..<32]"
      using m by (intro nth_equalityI) (auto simp: nth_append min_def)
    have z: "takeWhile (\<lambda>c. c \<noteq> 0x20 \<and> c \<noteq> 0) (map (\<lambda>j. command (of_nat j)) [min ?n 32..<32]) = []"
    proof (cases "?n < 32")
      case True
      then have "command (of_nat ?n) = 0" "[min ?n 32..<32] = ?n # [Suc ?n..<32]" using assms(1) by (simp_all add: str_def upt_conv_Cons)
      then show ?thesis by simp
    qed simp
    have "takeWhile (\<lambda>c. c \<noteq> 0x20 \<and> c \<noteq> 0) (take 32 bs) = w"
      unfolding w(1) using nz by (intro takeWhile_cong) (auto dest: in_set_takeD)
    then show ?thesis unfolding split add_0 takeWhile_append using z
      by (auto simp: takeWhile_eq_all_conv [symmetric])
  qed
  have wl: "length w \<le> ?n" "length w \<le> 32"
    using length_takeWhile_le [of "\<lambda>c. c \<noteq> 0x20" "take 32 bs"] unfolding w(1) by simp_all
  have cp: "copy_program command 32 0 (program r) = (length w, w @ drop (length w) (program r))"
    using copy_program_word [of 0 32 "program r" command] assms(2) unfolding tw Let_def by simp
  let ?j = "?n - length a"
  have al: "length a \<le> ?n" "drop ?j bs = a"
  proof -
    have "drop (length w) bs = takeWhile (\<lambda>c. c = 0x20) (drop (length w) bs) @ a" by (simp add: w(2))
    then obtain k where "bs = (take (length w) bs @ k) @ a" using append_take_drop_id [of "length w" bs] by (metis append_assoc)
    then obtain k' where "bs = k' @ a" by blast
    then show "length a \<le> ?n" "drop ?j bs = a" by simp_all
  qed
  have "(w @ drop (length w) (program r))[length w := 0] = w @ 0 # drop (length w + 1) (program r)"
    using assms(2) wl(2) by (simp add: upd_conv_take_nth_drop)
  moreover have "skip_spaces command (of_nat (length w)) = Some (of_nat ?j)" using skip_spaces_run [OF assms(1) wl(1)] w(2) by simp
  moreover have "copy_args command (of_nat ?j) 0 (args r) = (if length a < length (args r) then Some (a @ 0 # drop (length a + 1) (args r)) else None)"
    using copy_args_run [OF assms(1), of ?j 0 "args r"] al by simp
  ultimately show ?thesis by (simp add: parse_command_def cp)
qed

section \<open>Loading\<close>

lemma load_program_image:
  assumes "read_dentry_by_name f m fname = Some (0, Some d)" "d_type d = DENTRY_FILE" "inode = get_inode_ptr f (d_inode d)"
    and W: "well_formed f m inode" and bs: "bs = contents f m inode" and D: "span addr (length bs) \<inter> image f m inode = {}"
  defines "m' \<equiv> store_bytes m addr bs"
  shows "length bs < 40 \<Longrightarrow> load_program f fname addr m = Some (m', 0)"
    and "40 \<le> length bs \<Longrightarrow> load_program f fname addr m =
      Some (if load32 m' addr = 0x464C457F then (m', load32 m' (addr + 24)) else (store_bytes m addr (take 40 bs), 0))"
proof -
  let ?len = "load32 m inode" and ?h = "store_bytes m addr (take 40 bs)"
  have len: "unat ?len = length bs" by (simp add: bs)
  have small: "length bs \<le> 1023 * 4096" using W len by (simp add: well_formed_def)
  have r1: "read_data f inode 0 addr FILE_HEADER_SIZE m = (store_bytes m addr (take (min 40 (length bs)) bs), of_nat (min 40 (length bs)))"
  proof -
    have "span addr (min 40 (length bs)) \<inter> image f m inode = {}" using D unfolding span_def by auto
    moreover have "min 40 (length bs) = min (unat FILE_HEADER_SIZE) (unat ?len - unat (0 :: u32))" using len by (simp add: FILE_HEADER_SIZE_def)
    ultimately show ?thesis using read_data_copies [OF W, of "min 40 (length bs)" FILE_HEADER_SIZE 0 addr] bs by simp
  qed
  have sl: "(of_nat (min 40 (length bs)) :: u32) <s FILE_HEADER_SIZE \<longleftrightarrow> length bs < 40"
    using sint_of_nat_u32 [of "min 40 (length bs)"] sint_of_nat_u32 [of 40] by (auto simp: word_sless_alt FILE_HEADER_SIZE_def)
  show "load_program f fname addr m = Some (m', 0)" if "length bs < 40"
    using assms(1-3) r1 sl that by (simp add: load_program_def Let_def m'_def)
  assume big: "40 \<le> length bs"
  then have r1: "read_data f inode 0 addr FILE_HEADER_SIZE m = (?h, 40)" using r1 by (simp add: min_def)
  have eq: "?h a = m a" if "a \<in> image f m inode" for a
  proof -
    have "a \<notin> span addr (length bs)" using that D by auto
    then show ?thesis using big by (intro store_bytes_outside) (simp add: span_def min_def)
  qed
  note c = image_well_formed_cong(1,2) [OF W eq] contents_cong [OF W eq]
  have l40: "unat (?len - FILE_HEADER_SIZE) = length bs - 40" using big len by (simp add: unat_sub word_le_nat_alt FILE_HEADER_SIZE_def)
  have sub: "a \<in> span addr (length bs)" if "a \<in> span (addr + 40) (length bs - 40)" for a
  proof -
    have "unat (a - (addr + 40)) + 40 < 2 ^ 32" using that small by (simp add: span_def)
    then have "unat (a - (addr + 40) + 40) = unat (a - (addr + 40)) + 40" using unat_add_nowrap [of "a - (addr + 40)" 40] by simp
    then show ?thesis using that by (simp add: span_def)
  qed
  have "read_data f inode FILE_HEADER_SIZE (addr + FILE_HEADER_SIZE) (?len - FILE_HEADER_SIZE) ?h =
    (store_bytes ?h (addr + 40) (drop 40 bs), of_nat (length bs - 40))"
  proof -
    have "span (addr + FILE_HEADER_SIZE) (length bs - 40) \<inter> image f ?h inode = {}"
    proof -
      have "span (addr + 40) (length bs - 40) \<subseteq> span addr (length bs)" by (rule subsetI) (rule sub)
      then have "span (addr + 40) (length bs - 40) \<inter> image f m inode \<subseteq> span addr (length bs) \<inter> image f m inode" by (rule Int_mono) simp
      then show ?thesis using D by (simp add: c(1) FILE_HEADER_SIZE_def)
    qed
    moreover have "length bs - 40 = min (unat (?len - FILE_HEADER_SIZE)) (unat (load32 ?h inode) - unat FILE_HEADER_SIZE)"
      using c(4) l40 len by (simp add: FILE_HEADER_SIZE_def)
    moreover have "contents f ?h inode = bs" using c(3) bs by simp
    ultimately have "read_data f inode FILE_HEADER_SIZE (addr + FILE_HEADER_SIZE) (?len - FILE_HEADER_SIZE) ?h =
      (store_bytes ?h (addr + FILE_HEADER_SIZE) (take (length bs - 40) (drop (unat FILE_HEADER_SIZE) bs)), of_nat (length bs - 40))"
      using read_data_copies [OF c(2), of "length bs - 40" "?len - FILE_HEADER_SIZE" FILE_HEADER_SIZE "addr + FILE_HEADER_SIZE"] by simp
    moreover have "take (length bs - 40) (drop 40 bs) = drop 40 bs" "unat FILE_HEADER_SIZE = 40" by (simp_all add: FILE_HEADER_SIZE_def)
    ultimately show ?thesis by (simp only: FILE_HEADER_SIZE_def)
  qed
  moreover have "store_bytes ?h (addr + 40) (drop 40 bs) = m'"
  proof -
    have "length (take 40 bs) = 40" "length (drop 40 bs) = length bs - 40" using big by simp_all
    then show ?thesis using store_bytes_append [of "take 40 bs" "drop 40 bs" m addr] small unfolding m'_def by simp
  qed
  ultimately have r2: "read_data f inode FILE_HEADER_SIZE (addr + FILE_HEADER_SIZE) (?len - FILE_HEADER_SIZE) ?h = (m', of_nat (length bs - 40))" by simp
  have at: "?h (addr + of_nat i) = m' (addr + of_nat i)" if "i < 40" for i
    using that big small store_bytes_at [of i "take 40 bs" m addr] store_bytes_at [of i bs m addr] by (simp add: m'_def)
  have ld: "load32 ?h addr = load32 m' addr" "load32 ?h (addr + 24) = load32 m' (addr + 24)"
    using at [of 0] at [of 1] at [of 2] at [of 3] at [of 24] at [of 25] at [of 26] at [of 27] by (simp_all add: load32_def add.assoc)
  have "\<not> (of_nat (length bs - 40) :: u32) < ?len - FILE_HEADER_SIZE" using l40 small by (simp add: word_less_nat_alt unat_of_nat_u32)
  moreover have "\<not> (40 :: u32) <s FILE_HEADER_SIZE" by (simp add: FILE_HEADER_SIZE_def)
  ultimately show "load_program f fname addr m =
      Some (if load32 m' addr = 0x464C457F then (m', load32 m' (addr + 24)) else (?h, 0))"
    using assms(1-3) r1 r2 ld by (simp add: load_program_def Let_def)
qed

section \<open>Process numbers\<close>

definition task_pid :: "kernel \<Rightarrow> u32 \<Rightarrow> nat" where
  "task_pid k t = p_pid (procs k (tproc (runqueue k) t))"

lemma max_pid_run:
  "dseg (tnx (runqueue k)) pv a ts None \<Longrightarrow> max_pid k (first_of ts None) n = Some (Max (insert n (task_pid k ` set ts)))"
proof (induction ts arbitrary: n a)
  case (Cons t ts)
  then have "max_pid k (first_of (t # ts) None) n = max_pid k (first_of ts None) (max n (task_pid k t))"
    by (subst max_pid.simps) (simp add: task_fields task_pid_def)
  also have "\<dots> = Some (Max (insert (max n (task_pid k t)) (task_pid k ` set ts)))" using Cons.IH [of "Some t" "max n (task_pid k t)"] Cons.prems by simp
  also have "Max (insert (max n (task_pid k t)) (task_pid k ` set ts)) = Max (insert n (task_pid k ` set (t # ts)))"
    by (cases "ts = []") (simp_all add: max.assoc)
  finally show ?case .
qed (subst max_pid.simps, simp)

lemma new_process_pid:
  assumes "queued (runqueue k) ts"
  defines "n \<equiv> Max (insert 0 (task_pid k ` set ts)) + 1"
  shows "MAX_PROCESSES \<le> n \<Longrightarrow> new_process k = Some (k, None)"
    and "new_process k = Some (k', Some p) \<Longrightarrow> p = n \<and> n < MAX_PROCESSES"
proof -
  have m: "max_pid k (q_head (runqueue k)) 0 = Some (Max (insert 0 (task_pid k ` set ts)))"
    using max_pid_run assms(1) unfolding queued_def by metis
  show "new_process k = Some (k, None)" if "MAX_PROCESSES \<le> n" using that m by (simp add: new_process_def n_def)
  show "p = n \<and> n < MAX_PROCESSES" if "new_process k = Some (k', Some p)"
    using that m unfolding new_process_def n_def [symmetric] Let_def
    by (auto simp: n_def Option.bind_eq_Some_conv split: if_splits option.splits)
qed

lemma new_process_on_terminal:
  assumes "queued (runqueue k) ts" "n = Max (insert 0 (task_pid k ` set ts)) + 1" "n < MAX_PROCESSES"
    and "p_terminal (proc k) = Some i" "n \<noteq> current_process k"
  shows "\<exists>k'. new_process k = Some (k', Some n) \<and> p_pid (procs k' n) = n \<and> p_parent (procs k' n) = Some (current_process k) \<and>
    p_terminal (procs k' n) = Some i \<and> descriptors (procs k' n) = Map.empty \<and> (\<forall>q. q \<noteq> n \<longrightarrow> procs k' q = procs k q)"
proof -
  have m: "max_pid k (q_head (runqueue k)) 0 = Some (Max (insert 0 (task_pid k ` set ts)))"
    using max_pid_run assms(1) unfolding queued_def by metis
  show ?thesis
    using assms(2-5) m by (simp add: new_process_def Let_def upd_proc_def descriptors_def fun_eq_iff)
qed

section \<open>Switching\<close>

lemma reschedule_to:
  assumes "queued (runqueue k) (xs @ t # ys)" "\<forall>x \<in> set xs. tst (runqueue k) x \<noteq> TaskActive" "tst (runqueue k) t = TaskActive"
    and "p_task (proc k) = Some c" "tproc (runqueue k) c = current_process k" "tproc (runqueue k) t = p"
  shows "\<exists>q. queued q (ys @ xs @ [t]) \<and> same_tasks (runqueue k) q \<and>
    reschedule k = Some (if c = t then (k\<lparr>runqueue := q\<rparr>, None)
      else (set_current_process p (upd_proc (current_process k) (\<lambda>r. r\<lparr>ret_addr := Task_switch_back\<rparr>) (k\<lparr>runqueue := q\<rparr>)),
        Some (ret_addr (procs k p), ret_addr (procs k p) \<noteq> Task_switch_back)))"
proof -
  obtain q where q: "schedule_loop (num_tasks (runqueue k)) (runqueue k) = Some (q, Some t)" "queued q (ys @ xs @ [t])" "same_tasks (runqueue k) q"
    using schedule_loop_finds [OF assms(1-3)] by blast
  then have "t_process (tasks q c) = current_process k" "t_process (tasks q t) = p"
    using assms(5,6) by (auto simp: same_tasks_def tproc_def fun_eq_iff)
  then have "reschedule k = Some (if c = t then (k\<lparr>runqueue := q\<rparr>, None)
      else (set_current_process p (upd_proc (current_process k) (\<lambda>r. r\<lparr>ret_addr := Task_switch_back\<rparr>) (k\<lparr>runqueue := q\<rparr>)),
        Some (ret_addr (procs k p), ret_addr (procs k p) \<noteq> Task_switch_back)))"
    using q(1) assms(4) by (simp add: reschedule_def task_switch_def Let_def upd_proc_def set_current_process_def)
  then show ?thesis using q(2,3) by blast
qed

lemma set_current_process_simps [simp]:
  "current_process (set_current_process p k) = p" "procs (set_current_process p k) = procs k"
  "page_pid (pages (set_current_process p k)) = p_pid (procs k p)" "esp0 (set_current_process p k) = kernel_stack (procs k p)"
  "runqueue (set_current_process p k) = runqueue k" "km (set_current_process p k) = km k" "mem (set_current_process p k) = mem k"
  "ktty (set_current_process p k) = ktty k" "process_in_terminal (set_current_process p k) = process_in_terminal k"
  "kfs (set_current_process p k) = kfs k" "kstatus (set_current_process p k) = kstatus k"
  by (simp_all add: set_current_process_def load_pages_def mem_def)

lemma open_std_keeps:
  assumes "open_std k = Some k'"
  shows "current_process k' = current_process k" "pages k' = pages k" "esp0 k' = esp0 k" "runqueue k' = runqueue k" "km k' = km k" "ktty k' = ktty k"
    "process_in_terminal k' = process_in_terminal k" "mem k' = mem k" "kfs k' = kfs k" "kstatus k' = kstatus k"
    "procs k' = (procs k)(current_process k := put_file 1 (terminal_file False True) (put_file 0 (terminal_file True False) (proc k)))"
proof -
  have o: "syscall_open closed_file (literal ''/dev/stdin'') k = open_at 0 (terminal_file True False) k"
    "syscall_open closed_file (literal ''/dev/stdout'') k = open_at 1 (terminal_file False True) k" for k
  proof -
    have "strncmp (literal ''/dev/stdout'') (literal ''/dev/stdin'') 100 \<noteq> 0"
      by (simp add: strncmp_def) (simp add: strncmp_from.simps literal_def)
    then show "syscall_open closed_file (literal ''/dev/stdout'') k = open_at 1 (terminal_file False True) k"
      by (simp add: syscall_open_unfold STDOUT_FD_def strncmp_zero)
  qed (simp add: syscall_open_unfold STDIN_FD_def strncmp_zero)
  have "k' = set_file (current_process k) 1 (terminal_file False True) (set_file (current_process k) 0 (terminal_file True False) k)"
    using assms by (simp add: open_std_def o open_at_def open_func_def)
  then show "current_process k' = current_process k" "pages k' = pages k" "esp0 k' = esp0 k" "runqueue k' = runqueue k" "km k' = km k" "ktty k' = ktty k"
    "process_in_terminal k' = process_in_terminal k" "mem k' = mem k" "kfs k' = kfs k" "kstatus k' = kstatus k"
    "procs k' = (procs k)(current_process k := put_file 1 (terminal_file False True) (put_file 0 (terminal_file True False) (proc k)))"
    by (simp_all)
qed

lemma setup_process_current:
  assumes "setup_process command k = Some (k', a)" "a \<noteq> 0"
  shows "page_pid (pages k') = p_pid (proc k')" "esp0 k' = kernel_stack (proc k')"
proof -
  obtain p k6 where "open_std (set_current_process p k6) = Some k'"
    using assms by (auto simp: setup_process_def Let_def Option.bind_eq_Some_conv split: option.splits prod.splits if_splits)
  note o = open_std_keeps [OF this]
  show "page_pid (pages k') = p_pid (proc k')" "esp0 k' = kernel_stack (proc k')" using o(1,2,3,11) by (simp_all add: put_file_def)
qed

section \<open>Properties\<close>

text \<open>
  C29. A command line of the form program, spaces, arguments is split there: the program is what
  comes before the first space, at most 32 characters, the arguments are the rest without the
  leading spaces. Arguments of 100 characters or more are written past the end of their array.
\<close>

theorem command_line_split:
  assumes "str command bs" "length (program r) = 33" "length (args r) = 100" "words_of bs = (w, a)"
  shows "if length a < 100 then \<exists>r'. parse_command command r = Some r' \<and> cstring (program r') = Some w \<and> cstring (args r') = Some a
    else parse_command command r = None"
proof -
  have nz: "0 \<notin> set bs" using assms(1) by (simp add: str_def)
  have w: "w = takeWhile (\<lambda>c. c \<noteq> 0x20) (take 32 bs)" "a = dropWhile (\<lambda>c. c = 0x20) (drop (length w) bs)"
    using assms(4) by (auto simp: words_of_def Let_def)
  have "0 \<notin> set w" "0 \<notin> set a" using nz unfolding w by (auto dest!: set_takeWhileD set_dropWhileD in_set_takeD in_set_dropD)
  then have "cstring (w @ 0 # x) = Some w" "cstring (a @ 0 # x) = Some a" for x
    by (auto simp: cstring_def takeWhile_append)
  then show ?thesis using parse_command_words [OF assms(1,2,4)] assms(3) by simp
qed

theorem command_line_split_witness:
  "\<exists>r'. parse_command (literal ''ls  -a'') (plain_process 1) = Some r' \<and>
     cstring (program r') = Some [108, 115] \<and> cstring (args r') = Some [45, 97]"
proof -
  let ?bs = "[108, 115, 32, 32, 45, 97] :: u8 list"
  have "str (literal ''ls  -a'') ?bs"
    by (simp add: str_def literal_def All_less_Suc)
  moreover have "words_of ?bs = ([108, 115], [45, 97])" by (simp add: words_of_def)
  ultimately show ?thesis
    using command_line_split [of "literal ''ls  -a''" ?bs "plain_process 1"] by (simp add: plain_process_def)
qed


text \<open>An image with one file, \<open>a\<close>: 44 bytes with the ELF magic and the start address 0x08048000.\<close>

definition exec_image :: memory where
  "exec_image a = (if a = 0 \<or> a = 4 \<or> a = 8 then 1 else if a = 64 then 97 else if a = 96 then 2
     else if a = 4096 then 44 else if a = 8192 then 0x7F else if a = 8193 then 0x45 else if a = 8194 then 0x4C else if a = 8195 then 0x46
     else if a = 8217 then 0x80 else if a = 8218 then 4 else if a = 8219 then 8 else 0)"

lemma exec_loads [simp]:
  "load32 exec_image 4096 = 44" "get_num_data_blocks tiny_fs exec_image = 1" "get_num_dentries tiny_fs exec_image = 1"
  "load32 exec_image 4100 = 0" "load_dentry exec_image 64 = load_dentry tiny_image 64"
  by (simp_all add: load32_def exec_image_def get_num_data_blocks_def get_num_dentries_def get_master_entry_addr_def load_dentry_def tiny_image_def
      bytes_def upt_rec)

lemma exec_byte_ptr: "k < 4096 \<Longrightarrow> byte_ptr tiny_fs exec_image 4096 (of_nat k) = 8192 + of_nat k"
proof -
  assume "k < 4096"
  then have "(of_nat k :: u32) div 4096 = 0" "(of_nat k :: u32) mod 4096 = of_nat k"
    by (simp_all add: word_unat_eq_iff unat_div unat_mod unat_of_nat_u32)
  then show ?thesis by (simp add: byte_ptr_def block_number_def)
qed

lemma exec_well_formed: "well_formed tiny_fs exec_image 4096"
proof -
  have "(of_nat k :: u32) div 4096 = 0" if "k < 44" for k using that by (simp add: word_unat_eq_iff unat_div unat_of_nat_u32)
  then show ?thesis by (simp add: well_formed_def block_number_def)
qed

lemma exec_contents: "length (contents tiny_fs exec_image 4096) = 44" "k < 44 \<Longrightarrow> contents tiny_fs exec_image 4096 ! k = exec_image (8192 + of_nat k)"
  by (simp_all add: contents_def file_byte_def exec_byte_ptr)

lemma exec_lookup: "read_dentry_by_name tiny_fs exec_image name_a = Some (0, Some (load_dentry exec_image 64))"
proof -
  have "str name_a [97]" by (simp add: str_def name_a_def)
  moreover have "entry_name tiny_fs exec_image 0 = [97]"
    by (simp add: entry_name_def chunk_def at_def dentry_addr_def exec_image_def upt_rec)
  ultimately show ?thesis using read_dentry_by_name_cases [of name_a "[97]" tiny_fs exec_image] by (simp add: upt_rec dentry_addr_def)
qed

lemma exec_disjoint: "span 0x848000 44 \<inter> image tiny_fs exec_image 4096 = {}"
proof -
  have "unat (8192 + of_nat k - 0x848000 :: u32) \<ge> 44" if "k < 44" for k
    using that by (simp add: unat_sub_if' word_le_nat_alt unat_of_nat_u32)
  moreover have "\<not> (unat (a - 0x848000) < 44 \<and> unat (a - 8) < 4)" "\<not> (unat (a - 0x848000) < 44 \<and> unat (a - 4096) < 4096)" for a :: u32
    by (auto simp: unat_sub_if' word_le_nat_alt)
  ultimately show ?thesis by (auto simp: image_def span_def exec_byte_ptr) (auto simp: not_less [symmetric])
qed

lemma exec_file: "d_type (load_dentry exec_image 64) = DENTRY_FILE" "4096 = get_inode_ptr tiny_fs (d_inode (load_dentry exec_image 64))"
  by (simp_all only: exec_loads(5)) (simp_all add: load_dentry_def load32_def tiny_image_def DENTRY_FILE_def get_inode_ptr_def)

lemma exec_loaded:
  defines "m \<equiv> store_bytes exec_image 0x848000 (contents tiny_fs exec_image 4096)"
  shows "load32 m 0x848000 = 0x464C457F" "load32 m 0x848018 = 0x08048000"
proof -
  have "m (0x848000 + of_nat k) = exec_image (8192 + of_nat k)" if "k < 44" for k
    using that exec_contents store_bytes_at [of k "contents tiny_fs exec_image 4096" exec_image "0x848000"] unfolding m_def by simp
  from this [of 0] this [of 1] this [of 2] this [of 3] this [of 24] this [of 25] this [of 26] this [of 27]
  show "load32 m 0x848000 = 0x464C457F" "load32 m 0x848018 = 0x08048000" by (simp_all add: load32_def exec_image_def)
qed


text \<open>
  C30. The memory image of a process is where its page tables put it: the physical address that
  \<open>setup_process\<close> loads a program to is what the virtual address 0x08048000 means in that
  process after \<open>init_paging\<close>.
\<close>

theorem program_start_mapped:
  assumes "0 < pid" "pid < MAX_PROCESSES"
  shows "walk (init_paging s) pid 0x08048000 = Some (calc_program_start pid, True)"
proof -
  have n: "unat (MBw (4 + 4 * pid)) = MB (4 + 4 * pid)" using unat_MBw [of "4 + 4 * pid"] assms(2) by (simp add: MAX_PROCESSES_def)
  have v: "(0x08048000 :: u32) AND mask 22 = 0x48000" by (simp flip: take_bit_eq_mask)
  have "MBw (4 + 4 * pid) AND 0x48000 = 0"
  proof -
    have "(MBw (4 + 4 * pid) AND NOT (mask 22)) AND (0x08048000 AND mask 22) = 0" by (rule bit_word_eqI) (auto simp: bit_simps)
    then show ?thesis unfolding v MBw_page .
  qed
  then have "MBw (4 + 4 * pid) OR 0x48000 = MBw (4 + 4 * pid) + 0x48000" by (simp add: disjunctive_add_eq_or)
  moreover have "MBw (4 + 4 * pid) + 0x48000 = calc_program_start pid" by (simp add: MBw_def calc_program_start_def algebra_simps)
  ultimately show ?thesis using walk_user_page [OF assms, of "0x08048000" s] v by simp
qed

theorem program_start_mapped_witness: "walk (init_paging blank_tables) 2 0x08048000 = Some (0xC48000, True)"
  using program_start_mapped [of 2 blank_tables] by (simp add: MAX_PROCESSES_def calc_program_start_def)

text \<open>
  C35. A new process gets the number that is one more than the highest of the tasks in the run
  queue, whatever numbers below are free, as long as that is below 100; it is then a child of the
  running process, on the same terminal, with no descriptor in use, and no other process is
  changed. While the highest number is 99 no process can be started, however many numbers are free.
  (The running process has a terminal and another number; when it has no terminal a new one is
  looked for, and the call may also fail for want of one.)
\<close>

theorem new_process_number:
  assumes "queued (runqueue k) ts" "n = Max (insert 0 (task_pid k ` set ts)) + 1"
  shows "(100 \<le> n \<longrightarrow> new_process k = Some (k, None)) \<and>
    (\<forall>k' p. new_process k = Some (k', Some p) \<longrightarrow> p = n \<and> n < 100) \<and>
    (n < 100 \<and> p_terminal (proc k) = Some i \<and> n \<noteq> current_process k \<longrightarrow>
      (\<exists>k'. new_process k = Some (k', Some n) \<and> p_pid (procs k' n) = n \<and> p_parent (procs k' n) = Some (current_process k) \<and>
        p_terminal (procs k' n) = Some i \<and> descriptors (procs k' n) = Map.empty \<and> (\<forall>q. q \<noteq> n \<longrightarrow> procs k' q = procs k q)))"
  using new_process_pid(1,2) [OF assms(1)] new_process_on_terminal [OF assms(1)] assms(2) by (auto simp: MAX_PROCESSES_def)

definition two_process_kernel :: kernel where
  "two_process_kernel = plain_kernel\<lparr>runqueue := two_tasks, current_process := 2,
     procs := plain_process(2 := (plain_process 2)\<lparr>p_pid := 99, p_task := Some 32\<rparr>)\<rparr>"

lemma two_process_pids: "task_pid two_process_kernel 16 = 1" "task_pid two_process_kernel 32 = 99"
  by (simp_all add: task_pid_def tproc_def two_process_kernel_def two_tasks_def plain_process_def)

definition low_process_kernel :: kernel where
  "low_process_kernel = plain_kernel\<lparr>runqueue := two_tasks, procs := plain_process(2 := (plain_process 2)\<lparr>p_pid := 7\<rparr>)\<rparr>"

lemma low_process_simps: "queued (runqueue low_process_kernel) [16, 32]" "current_process low_process_kernel = 1" "p_terminal (procs low_process_kernel 1) = Some 0"
  using two_tasks_queued by (simp_all add: low_process_kernel_def plain_kernel_def plain_process_def)

lemma low_process_pids: "task_pid low_process_kernel 16 = 1" "task_pid low_process_kernel 32 = 7"
  by (simp_all add: task_pid_def tproc_def low_process_kernel_def two_tasks_def plain_process_def)

theorem new_process_number_witness:
  "new_process two_process_kernel = Some (two_process_kernel, None) \<and>
   (\<exists>k'. new_process low_process_kernel = Some (k', Some 8) \<and> p_pid (procs k' 8) = 8 \<and> p_parent (procs k' 8) = Some 1)"
proof
  show "new_process two_process_kernel = Some (two_process_kernel, None)"
    using new_process_number [of two_process_kernel "[16, 32]" 100 0] two_tasks_queued two_process_pids by (simp add: two_process_kernel_def)
  show "\<exists>k'. new_process low_process_kernel = Some (k', Some 8) \<and> p_pid (procs k' 8) = 8 \<and> p_parent (procs k' 8) = Some 1"
    using new_process_number [of low_process_kernel "[16, 32]" 8 0] low_process_simps low_process_pids by auto
qed

text \<open>
  C7. The scheduler's switch: from a process in the run queue it goes to the process of the first
  active task in the queue's order, whose pages are loaded and whose kernel stack is set, at the
  place where that process stopped, in user mode only for a process that has not run yet; the
  queue is rotated behind that task. When that task is the running one nothing is switched.
\<close>

theorem reschedule_switches:
  assumes "queued (runqueue k) (xs @ t # ys)" "\<forall>x \<in> set xs. tst (runqueue k) x \<noteq> TaskActive" "tst (runqueue k) t = TaskActive"
    and "p_task (proc k) = Some c" "tproc (runqueue k) c = current_process k" "tproc (runqueue k) t = p"
  shows "\<exists>k' jump. reschedule k = Some (k', jump) \<and> queued (runqueue k') (ys @ xs @ [t]) \<and>
    (if c = t then jump = None \<and> current_process k' = current_process k
     else current_process k' = p \<and> page_pid (pages k') = p_pid (procs k p) \<and> esp0 k' = kernel_stack (procs k p) \<and>
       ret_addr (procs k' (current_process k)) = Task_switch_back \<and>
       jump = Some (ret_addr (procs k p), ret_addr (procs k p) \<noteq> Task_switch_back))"
proof -
  obtain q where q: "queued q (ys @ xs @ [t])" "reschedule k = Some (if c = t then (k\<lparr>runqueue := q\<rparr>, None)
      else (set_current_process p (upd_proc (current_process k) (\<lambda>r. r\<lparr>ret_addr := Task_switch_back\<rparr>) (k\<lparr>runqueue := q\<rparr>)),
        Some (ret_addr (procs k p), ret_addr (procs k p) \<noteq> Task_switch_back)))" using reschedule_to [OF assms] by blast
  show ?thesis
  proof (cases "c = t")
    case True
    then show ?thesis using q by simp
  next
    case False
    then show ?thesis using q by (simp add: upd_proc_def)
  qed
qed

theorem reschedule_switches_witness:
  "\<exists>k' jump. reschedule two_process_kernel = Some (k', jump) \<and> current_process k' = 1 \<and> jump = Some (No_addr, True)"
proof -
  have t: "tst two_tasks 16 = TaskActive" "tproc two_tasks 32 = 2" "tproc two_tasks 16 = 1" by (simp_all add: two_tasks_def task_fields)
  show ?thesis
    using reschedule_switches [of two_process_kernel "[]" 16 "[32]" 32 1] two_tasks_queued t
    by (auto simp: two_process_kernel_def plain_process_def)
qed


definition mouse_kernel :: "u8 \<Rightarrow> kernel" where
  "mouse_kernel flags = plain_kernel\<lparr>kmouse := still_mouse\<lparr>inq := [flags, 5, 0xF0]\<rparr>\<rparr>"

lemma mouse_kernel_simps:
  "kmouse (mouse_kernel f) = still_mouse\<lparr>inq := [f, 5, 0xF0]\<rparr>" "mouse_pos (scr (the_tty (mouse_kernel f))) = (0, 0)" "mouse_ok (scr (the_tty (mouse_kernel f)))"
  by (simp_all add: mouse_kernel_def plain_kernel_def the_tty_def on_scr_def fresh_tty_def blank_screen_def mouse_ok_def)


text \<open>
  \<open>kernel_spawn\<close> gives the processor back to the process that ran before, but with the
  pages and the kernel stack of the new one.
\<close>

theorem kernel_spawn_wrong_pages:
  assumes "kernel_spawn command k = Some (k', Some p)"
  shows "current_process k' = current_process k \<and> page_pid (pages k') = p_pid (procs k' p) \<and> esp0 k' = kernel_stack (procs k' p)"
proof -
  obtain k1 a where k1: "setup_process (literal ''shell'') (k\<lparr>current_process := 0\<rparr>) = Some (k1, a)" "a \<noteq> 0" "p = current_process k1"
    "k' = (upd_proc p (\<lambda>r. r\<lparr>ret_addr := Start a\<rparr>) k1)\<lparr>current_process := current_process k\<rparr>"
    using assms by (auto simp: kernel_spawn_def Let_def Option.bind_eq_Some_conv split: if_splits)
  show ?thesis using setup_process_current [OF k1(1,2)] k1(3,4) by (simp add: upd_proc_def)
qed

end
