(* ===== verification/Sound.thy ===== *)
theory Sound
  imports Files
begin

text \<open>
  The part of the sound driver \<^verbatim>\<open>sb16.c\<close> that reads files: the header of a WAV file,
  starting and stopping a playback, and the interrupt that refills one half of the DMA buffer
  while the card plays the other. The addresses of the DMA buffer and of the local array of
  \<open>wav_read_chunk_header\<close> are arguments, as the linker and the stack decide them.
\<close>

section \<open>Reading\<close>

text \<open>What happens while the \<open>i\<close>-th read of a call waits, for the terminal and the clock.\<close>

type_synonym waits = "nat \<Rightarrow> (kernel \<Rightarrow> kernel) list \<times> nat list"

definition read_in :: "waits \<Rightarrow> nat \<Rightarrow> int \<Rightarrow> u32 \<Rightarrow> int \<Rightarrow> kernel \<Rightarrow> (kernel \<times> int) option" where
  "read_in w i fd buf nbytes k = syscall_read (fst (w i)) (snd (w i)) fd buf nbytes k"

definition on_sound :: "(sb16 \<Rightarrow> sb16) \<Rightarrow> kernel \<Rightarrow> kernel" where
  "on_sound f k = k\<lparr>sound := f (sound k)\<rparr>"

definition CHUNK_SIZE :: nat where "CHUNK_SIZE = 32 * 1024"

definition RIFF :: u32 where "RIFF = 0x46464952"

definition WAVE :: u32 where "WAVE = 0x45564157"

definition FMT :: u32 where "FMT = 0x20746D66"

definition DATA :: u32 where "DATA = 0x61746164"

definition FACT :: u32 where "FACT = 0x74636166"

record chunk_info =
  chunk_id :: u32
  data_size :: u32

definition no_chunk :: chunk_info where
  "no_chunk = \<lparr>chunk_id = 0, data_size = 0\<rparr>"

definition wav_read_chunk_header :: "waits \<Rightarrow> nat \<Rightarrow> u32 \<Rightarrow> kernel \<Rightarrow> (kernel \<times> chunk_info) option" where
  "wav_read_chunk_header w i buf k = do {
     let k0 = set_mem (store_bytes (mem k) buf (replicate 13 0)) k;
     (k1, n) \<leftarrow> read_in w i (sb_fd (sound k0)) buf 8 k0;
     if n < 8 then Some (k1, no_chunk)
     else do {
       let info = \<lparr>chunk_id = load32 (mem k1) buf, data_size = load32 (mem k1) (buf + 4)\<rparr>;
       if chunk_id info = RIFF then do {
         (k2, _) \<leftarrow> read_in w (i + 1) (sb_fd (sound k1)) (buf + 8) 4 k1;
         Some (k2, if load32 (mem k2) (buf + 8) \<noteq> WAVE then no_chunk else info)
       } else Some (k1, info)
     }
   }"

definition get_int16 :: "memory \<Rightarrow> u32 \<Rightarrow> u32 \<Rightarrow> u16" where
  "get_int16 m buf offset = load16 m (buf + offset)"

definition get_int32 :: "memory \<Rightarrow> u32 \<Rightarrow> u32 \<Rightarrow> u32" where
  "get_int32 m buf offset = load32 m (buf + offset)"

section \<open>Starting\<close>

text \<open>The flags of \<open>status.mode\<close> are only ever set.\<close>

definition play_file :: "waits \<Rightarrow> nat \<Rightarrow> u32 \<Rightarrow> int \<Rightarrow> u8 \<Rightarrow> bool \<Rightarrow> u16 \<Rightarrow> kernel \<Rightarrow> (kernel \<times> int) option" where
  "play_file w i dma_buffer fd bits is_signed sample_rate k =
     (if sb_playing (sound k) then Some (k, - 1)
      else if bits \<noteq> 8 \<and> bits \<noteq> 16 then Some (k, - 1)
      else do {
        let s1 = (if bits = 8 then (sound k)\<lparr>sb_mode := sb_mode (sound k) OR STATUS_8BIT, sb_channel := 1\<rparr>
                  else (sound k)\<lparr>sb_channel := 5\<rparr>);
        let s2 = s1\<lparr>sb_process := Some 0, sb_fd := fd, sb_playing := True\<rparr>;
        let s3 = (if is_signed then s2\<lparr>sb_mode := sb_mode s2 OR STATUS_SIGNED\<rparr> else s2);
        let k1 = k\<lparr>sound := sb16_set_sample_rate sample_rate s3\<rparr>;
        let old_process = current_process k1;
        (k2, n) \<leftarrow> read_in w i fd dma_buffer (int CHUNK_SIZE * 2) (k1\<lparr>current_process := 0\<rparr>);
        let k3 = k2\<lparr>current_process := old_process\<rparr>;
        let k4 = on_sound (\<lambda>s. sb16_start_playback (of_nat CHUNK_SIZE) (dma_start (sb_channel s) dma_buffer (of_nat (2 * CHUNK_SIZE)) DMA_MODE_AI s)) k3;
        Some (if (of_int n :: u32) < of_nat CHUNK_SIZE then on_sound sb16_stop_playback_after k4 else k4, 0)
      })"

text \<open>Every failure after the file was opened closes it and gives the old process back.\<close>

definition play_wav_fail :: "int \<Rightarrow> nat \<Rightarrow> kernel \<Rightarrow> (kernel \<times> int) option" where
  "play_wav_fail fd old_process k = do {
     (k1, _) \<leftarrow> syscall_close fd k;
     Some (k1\<lparr>current_process := old_process\<rparr>, - 1)
   }"

text \<open>
  A chunk read into memory of its own. A NULL from \<open>kmalloc\<close> is not looked at; it faults when
  the read stores a byte there.
\<close>

definition read_chunk :: "waits \<Rightarrow> nat \<Rightarrow> chunk_info \<Rightarrow> kernel \<Rightarrow> (kernel \<times> u32 \<times> int) option" where
  "read_chunk w i info k = do {
     (s1, p) \<leftarrow> kmalloc (data_size info) (km k);
     (k1, n) \<leftarrow> read_in w i (sb_fd (sound k)) p (sint (data_size info)) (k\<lparr>km := s1\<rparr>);
     if p = 0 \<and> 0 < n then None else Some (k1, p, n)
   }"

definition free_chunk :: "u32 \<Rightarrow> kernel \<Rightarrow> kernel option" where
  "free_chunk p k = do { s1 \<leftarrow> kfree p (km k); Some (k\<lparr>km := s1\<rparr>) }"

text \<open>From the third header on: the optional fact chunk, and the data.\<close>

definition play_wav_data :: "waits \<Rightarrow> u32 \<Rightarrow> u32 \<Rightarrow> int \<Rightarrow> nat \<Rightarrow> u8 \<Rightarrow> bool \<Rightarrow> u16 \<Rightarrow> kernel \<Rightarrow> (kernel \<times> int) option" where
  "play_wav_data w buf dma_buffer fd old_process bits is_signed sample_rate k = do {
     (k1, info) \<leftarrow> wav_read_chunk_header w 5 buf k;
     (k2, info) \<leftarrow> (if chunk_id info = FACT then do {
         (k2, p, _) \<leftarrow> read_chunk w 7 info k1;
         k3 \<leftarrow> free_chunk p k2;
         wav_read_chunk_header w 8 buf k3
       } else Some (k1, info));
     if chunk_id info \<noteq> DATA then play_wav_fail fd old_process k2
     else play_file w 10 dma_buffer fd bits is_signed sample_rate (k2\<lparr>current_process := old_process\<rparr>)
   }"

text \<open>The format chunk: only uncompressed mono sound is played.\<close>

definition play_wav_format :: "waits \<Rightarrow> u32 \<Rightarrow> u32 \<Rightarrow> int \<Rightarrow> nat \<Rightarrow> chunk_info \<Rightarrow> kernel \<Rightarrow> (kernel \<times> int) option" where
  "play_wav_format w buf dma_buffer fd old_process info k = do {
     (k5, format, n) \<leftarrow> read_chunk w 4 info k;
     if (of_int n :: u32) < data_size info then do { k6 \<leftarrow> free_chunk format k5; play_wav_fail fd old_process k6 }
     else if format = 0 then None
     else if get_int16 (mem k5) format 0 \<noteq> 1 then do { k6 \<leftarrow> free_chunk format k5; play_wav_fail fd old_process k6 }
     else if get_int16 (mem k5) format 2 \<noteq> 1 then do { k6 \<leftarrow> free_chunk format k5; play_wav_fail fd old_process k6 }
     else do {
       let bits = ucast (get_int16 (mem k5) format 0xE);
       let is_signed = (bits = 16);
       let sample_rate = get_int16 (mem k5) format 4;
       k6 \<leftarrow> free_chunk format k5;
       play_wav_data w buf dma_buffer fd old_process bits is_signed sample_rate k6
     }
   }"

definition play_wav :: "waits \<Rightarrow> u32 \<Rightarrow> u32 \<Rightarrow> file_info \<Rightarrow> reader option \<Rightarrow> kernel \<Rightarrow> (kernel \<times> int) option" where
  "play_wav w buf dma_buffer uninit filename k =
     (case filename of
        None \<Rightarrow> Some (k, - 1)
      | Some fname \<Rightarrow>
          if sb_playing (sound k) then Some (k, - 1)
          else do {
            let old_process = current_process k;
            let k1 = (on_sound (\<lambda>s. s\<lparr>sb_process := Some 0\<rparr>) k)\<lparr>current_process := 0\<rparr>;
            (k2, fd) \<leftarrow> syscall_open uninit fname k1;
            (k3, info) \<leftarrow> wav_read_chunk_header w 0 buf (on_sound (\<lambda>s. s\<lparr>sb_fd := fd\<rparr>) k2);
            if chunk_id info \<noteq> RIFF then play_wav_fail fd old_process k3
            else do {
              (k4, info) \<leftarrow> wav_read_chunk_header w 2 buf k3;
              if chunk_id info \<noteq> FMT then play_wav_fail fd old_process k4
              else play_wav_format w buf dma_buffer fd old_process info k4
            }
          })"

section \<open>Stopping\<close>

text \<open>The descriptor is closed in the process that runs, which need not be \<open>status.process\<close>.\<close>

definition reset_playback :: "u32 \<Rightarrow> kernel \<Rightarrow> kernel option" where
  "reset_playback dma_buffer k = do {
     let k1 = on_sound (\<lambda>s. s\<lparr>sb_playing := False, sb_second := False\<rparr>) k;
     let k2 = set_mem (store_bytes (mem k1) dma_buffer (replicate (2 * CHUNK_SIZE) 0)) k1;
     (k3, _) \<leftarrow> syscall_close (sb_fd (sound k2)) k2;
     Some k3
   }"

definition sb16_stop_playback :: "u32 \<Rightarrow> kernel \<Rightarrow> kernel option" where
  "sb16_stop_playback dma_buffer k =
     reset_playback dma_buffer (on_sound (\<lambda>s. sb16_dsp_write (if sb_mode s AND STATUS_8BIT \<noteq> 0 then 0xD0 else 0xD5) s) k)"

section \<open>The interrupt\<close>

definition current_block :: "u32 \<Rightarrow> sb16 \<Rightarrow> u32" where
  "current_block dma_buffer s = (if sb_second s then dma_buffer + of_nat CHUNK_SIZE else dma_buffer)"

definition sb16_handler :: "waits \<Rightarrow> u32 \<Rightarrow> kernel \<Rightarrow> kernel option" where
  "sb16_handler w dma_buffer k = do {
     k' \<leftarrow> (if sb_playing (sound k) then do {
         let old_process = current_process k;
         p \<leftarrow> sb_process (sound k);
         let (c, flags) = block_interrupts (cflags k);
         (k1, r) \<leftarrow> read_in w 0 (sb_fd (sound k)) (current_block dma_buffer (sound k)) (int CHUNK_SIZE)
           (k\<lparr>current_process := p, cflags := c\<rparr>);
         let k2 = k1\<lparr>cflags := restore_interrupts flags (cflags k1), current_process := old_process\<rparr>;
         let n = (of_int r :: u32);
         if 0 < n then do {
           k3 \<leftarrow> (if n < of_nat CHUNK_SIZE then reset_playback dma_buffer (on_sound sb16_stop_playback_after k2) else Some k2);
           Some (on_sound (\<lambda>s. sb16_start_playback (ucast (ucast n :: u16)) (s\<lparr>sb_second := \<not> sb_second s\<rparr>)) k3)
         } else do {
           k3 \<leftarrow> reset_playback dma_buffer k2;
           sb16_stop_playback dma_buffer k3
         }
       } else Some k);
     Some (k'\<lparr>irqs := send_eoi 5 (irqs k')\<rparr>)
   }"

section \<open>The double buffer\<close>

definition to_play :: "nat \<Rightarrow> kernel \<Rightarrow> u8 list" where
  "to_play p k = unread (kfs k) (fd_file (sb_fd (sound k)) (k\<lparr>current_process := p\<rparr>))"

definition refill_ok :: "u32 \<Rightarrow> nat \<Rightarrow> kernel \<Rightarrow> bool" where
  "refill_ok dma_buffer p k \<longleftrightarrow> sb_playing (sound k) \<and> sb_process (sound k) = Some p \<and>
     fd_ok (sb_fd (sound k)) (current_block dma_buffer (sound k)) (int CHUNK_SIZE) (k\<lparr>current_process := p\<rparr>)"

lemma sound_writes [simp]:
  "sb_playing (sb16_dsp_write b s) = sb_playing s" "sb_second (sb16_dsp_write b s) = sb_second s" "sb_fd (sb16_dsp_write b s) = sb_fd s"
  "sb_mode (sb16_dsp_write b s) = sb_mode s" "sb_channel (sb16_dsp_write b s) = sb_channel s" "sb_process (sb16_dsp_write b s) = sb_process s"
  by (simp_all add: sb16_dsp_write_def sb16_outb_def)

lemma start_playback_keeps [simp]:
  "sb_playing (sb16_start_playback n s) = sb_playing s" "sb_second (sb16_start_playback n s) = sb_second s"
  "sb_fd (sb16_start_playback n s) = sb_fd s" "sb_process (sb16_start_playback n s) = sb_process s"
  by (simp_all add: sb16_start_playback_def Let_def)

lemma stop_after_keeps [simp]:
  "sb_fd (sb16_stop_playback_after s) = sb_fd s" "sb_process (sb16_stop_playback_after s) = sb_process s"
  by (simp_all add: sb16_stop_playback_after_def)

lemma on_sound_simps [simp]:
  "sound (on_sound f k) = f (sound k)" "procs (on_sound f k) = procs k" "current_process (on_sound f k) = current_process k"
  "mem (on_sound f k) = mem k" "kfs (on_sound f k) = kfs k" "cflags (on_sound f k) = cflags k" "irqs (on_sound f k) = irqs k"
  by (simp_all add: on_sound_def mem_def)

lemma mem_update [simp]:
  "mem (k\<lparr>current_process := p\<rparr>) = mem k" "mem (k\<lparr>cflags := c\<rparr>) = mem k" "mem (k\<lparr>irqs := i\<rparr>) = mem k" "mem (k\<lparr>sound := s\<rparr>) = mem k"
  by (simp_all add: mem_def)

lemma fd_ok_cong:
  assumes "procs k' p = procs k p" "mem k' = mem k" "kfs k' = kfs k" "current_process k = p" "current_process k' = p"
  shows "fd_ok fd buf n k' = fd_ok fd buf n k" "fd_file fd k' = fd_file fd k"
  using assms by (simp_all add: fd_ok_def fd_file_def)

text \<open>The read the interrupt makes, with the process that plays in place of the interrupted one.\<close>

lemma handler_read:
  assumes "refill_ok dma p k"
  defines "fd \<equiv> sb_fd (sound k)" and "b \<equiv> current_block dma (sound k)" and "bs \<equiv> take CHUNK_SIZE (to_play p k)"
  obtains f1 where "read_in w i fd b (int CHUNK_SIZE) (k\<lparr>current_process := p, cflags := c\<rparr>) =
      Some (set_file p (nat fd) f1 (set_mem (store_bytes (mem k) b bs) (k\<lparr>current_process := p, cflags := c\<rparr>)), int (length bs))"
    "bytes (store_bytes (mem k) b bs) b (length bs) = bs" "in_use f1 = in_use (open_files (procs k p) ! nat fd)"
    "unread (kfs k) (store_bytes (mem k) b bs, f1) = drop CHUNK_SIZE (to_play p k)"
proof -
  let ?k = "k\<lparr>current_process := p, cflags := c\<rparr>" and ?f = "open_files (procs k p) ! nat fd"
  have ok: "fd_ok fd b (int CHUNK_SIZE) ?k"
    using assms(1) fd_ok_cong(1) [of ?k p "k\<lparr>current_process := p\<rparr>"] by (simp add: refill_ok_def fd_def b_def)
  have ff: "fd_file fd ?k = (mem k, ?f)" by (simp add: fd_file_def)
  have bs: "bs = take (nat (int CHUNK_SIZE)) (unread (kfs ?k) (fd_file fd ?k))"
    using fd_ok_cong(2) [of ?k p "k\<lparr>current_process := p\<rparr>" fd] by (simp add: bs_def to_play_def fd_def)
  let ?f1 = "?f\<lparr>pos := pos ?f + of_nat (length bs)\<rparr>"
  note r = syscall_read_regular [OF ok, folded bs]
  have "unread (kfs k) (store_bytes (mem k) b bs, ?f1) = drop CHUNK_SIZE (to_play p k)"
  proof -
    have o: "open_ok (kfs k) b (of_int (int CHUNK_SIZE)) (mem k, ?f)" using ok by (simp add: fd_ok_def fd_file_def)
    have "unat (of_int (int CHUNK_SIZE) :: u32) = CHUNK_SIZE" by (simp add: CHUNK_SIZE_def)
    then show ?thesis using read_step_effect(3) [OF o] r(3) ff by (simp add: to_play_def fd_file_def fd_def)
  qed
  then show ?thesis using that [of ?f1] r(1,2) by (simp add: read_in_def)
qed

section \<open>Properties\<close>

text \<open>
  C20. While 32K or more of the file are left, the card's interrupt fills the half of the DMA
  buffer that has just been played with the next 32K of the file and turns to the other half;
  the playback goes on, and the interrupted process and its interrupt flag are as before.
\<close>

theorem sb16_handler_refills:
  assumes "refill_ok dma p k" "CHUNK_SIZE \<le> length (to_play p k)"
  shows "\<exists>k'. sb16_handler w dma k = Some k' \<and>
    bytes (mem k') (current_block dma (sound k)) CHUNK_SIZE = take CHUNK_SIZE (to_play p k) \<and>
    to_play p k' = drop CHUNK_SIZE (to_play p k) \<and> sb_second (sound k') = (\<not> sb_second (sound k)) \<and>
    sb_playing (sound k') \<and> current_process k' = current_process k \<and> cflags k' = cflags k"
proof -
  let ?fd = "sb_fd (sound k)" and ?b = "current_block dma (sound k)" and ?bs = "take CHUNK_SIZE (to_play p k)"
  have l: "length ?bs = CHUNK_SIZE" using assms(2) by simp
  have pl: "sb_playing (sound k)" "sb_process (sound k) = Some p" and v: "eight_files (procs k p)" "valid_fd ?fd (procs k p)"
    using assms(1) by (simp_all add: refill_ok_def fd_ok_def)
  obtain c flags where c: "block_interrupts (cflags k) = (c, flags)" "restore_interrupts flags c = cflags k"
    by (simp add: block_interrupts_def restore_interrupts_def)
  obtain f1 where r: "read_in w 0 ?fd ?b (int CHUNK_SIZE) (k\<lparr>current_process := p, cflags := c\<rparr>) =
      Some (set_file p (nat ?fd) f1 (set_mem (store_bytes (mem k) ?b ?bs) (k\<lparr>current_process := p, cflags := c\<rparr>)), int CHUNK_SIZE)"
    "bytes (store_bytes (mem k) ?b ?bs) ?b CHUNK_SIZE = ?bs" "unread (kfs k) (store_bytes (mem k) ?b ?bs, f1) = drop CHUNK_SIZE (to_play p k)"
    using handler_read [OF assms(1), of w 0 c] unfolding l by metis
  have n: "0 < (of_int (int CHUNK_SIZE) :: u32)" "\<not> (of_int (int CHUNK_SIZE) :: u32) < of_nat CHUNK_SIZE" by (simp_all add: CHUNK_SIZE_def)
  have "nat ?fd < length (open_files (procs k p))" using v by (auto simp: valid_fd_def eight_files_def)
  then show ?thesis
    using pl c r n by (simp add: sb16_handler_def to_play_def fd_file_def put_file_def)
qed

text \<open>An image whose only file is 32K of zeros, all in one block, and a kernel that plays it.\<close>

definition long_image :: memory where
  "long_image a = (if a = 0 \<or> a = 4 \<or> a = 8 then 1 else if a = 4097 then 0x80 else 0)"

definition player :: "memory \<Rightarrow> kernel" where
  "player m = set_mem m (plain_kernel\<lparr>kfs := tiny_fs,
     procs := (\<lambda>p. (std_process p)\<lparr>open_files := [terminal_file True False, terminal_file False True, fs_file Fs_funcs 4096] @ replicate 5 closed_file\<rparr>),
     sound := silent_card\<lparr>sb_process := Some 0, sb_fd := 2, sb_playing := True\<rparr>\<rparr>)"

lemma player_simps [simp]:
  "mem (player m) = m" "kfs (player m) = tiny_fs" "current_process (player m) = 1" "sb_playing (sound (player m))"
  "sb_process (sound (player m)) = Some 0" "sb_fd (sound (player m)) = 2" "current_block dma (sound (player m)) = dma"
  "open_files (procs (player m) p) = [terminal_file True False, terminal_file False True, fs_file Fs_funcs 4096] @ replicate 5 closed_file"
  by (simp_all add: player_def plain_kernel_def silent_card_def current_block_def)

lemma player_refill:
  assumes "well_formed tiny_fs m 4096" "span dma CHUNK_SIZE \<inter> image tiny_fs m 4096 = {}"
  shows "refill_ok dma 0 (player m)" "to_play 0 (player m) = contents tiny_fs m 4096"
proof -
  have "unat (0x8000 :: u32) = CHUNK_SIZE" by (simp add: CHUNK_SIZE_def)
  then have "open_ok tiny_fs dma (of_int (int CHUNK_SIZE)) (m, fs_file Fs_funcs 4096)"
    using assms by (simp add: open_ok_def fs_file_def CHUNK_SIZE_def)
  then show "refill_ok dma 0 (player m)"
    by (simp add: refill_ok_def fd_ok_def fd_file_def eight_files_def valid_fd_def) (simp add: fs_file_def CHUNK_SIZE_def)
  show "to_play 0 (player m) = contents tiny_fs m 4096" by (simp add: to_play_def unread_def fd_file_def) (simp add: fs_file_def)
qed

lemma long_loads [simp]: "load32 long_image 4096 = 0x8000" "get_num_data_blocks tiny_fs long_image = 1"
  by (simp_all add: load32_def long_image_def get_num_data_blocks_def get_master_entry_addr_def)

lemma long_zero: "4100 \<le> a \<Longrightarrow> long_image a = 0"
  by (auto simp: long_image_def word_le_nat_alt)

lemma long_block: "k < 32768 \<Longrightarrow> block_number long_image 4096 (of_nat k div 4096) = 0"
proof -
  assume k: "k < 32768"
  have "unat (4096 + 4 + (of_nat k :: u32) div 4096 * 4) = 4100 + k div 4096 * 4"
    using k by (simp add: unat_word_ariths unat_div unat_of_nat_u32)
  moreover have "unat (x + of_nat j) = unat x + j" if "unat x < 10000" "j < 4" for x :: u32 and j
    using that by (simp add: unat_add_nowrap unat_of_nat_u32)
  ultimately have "4100 \<le> unat (4096 + 4 + (of_nat k :: u32) div 4096 * 4 + of_nat j)" if "j < 4" for j using that k by simp
  then have "4100 \<le> 4096 + 4 + (of_nat k :: u32) div 4096 * 4 + of_nat j" if "j < 4" for j using that by (simp add: word_le_nat_alt)
  then have "long_image (4096 + 4 + (of_nat k :: u32) div 4096 * 4 + of_nat j) = 0" if "j < 4" for j
    using that by (intro long_zero)
  from this [of 0] this [of 1] this [of 2] this [of 3] show ?thesis by (simp add: block_number_def load32_def)
qed

lemma long_file: "well_formed tiny_fs long_image 4096" "span 0x420000 CHUNK_SIZE \<inter> image tiny_fs long_image 4096 = {}"
proof -
  show "well_formed tiny_fs long_image 4096" by (simp add: well_formed_def long_block)
  have "byte_ptr tiny_fs long_image 4096 (of_nat k) = 8192 + of_nat k mod 4096" if "k < 32768" for k
    using long_block [OF that] by (simp add: byte_ptr_def)
  moreover have "CHUNK_SIZE \<le> unat (8192 + (of_nat k :: u32) mod 4096 - 0x420000)" if "k < 32768" for k
    using that by (simp add: unat_sub_if' word_le_nat_alt unat_word_ariths unat_mod unat_of_nat_u32 CHUNK_SIZE_def)
  moreover have "\<not> (unat (a - 0x420000) < CHUNK_SIZE \<and> unat (a - 8) < 4)" "\<not> (unat (a - 0x420000) < CHUNK_SIZE \<and> unat (a - 4096) < 4096)" for a :: u32
    by (auto simp: unat_sub_if' word_le_nat_alt CHUNK_SIZE_def)
  ultimately show "span 0x420000 CHUNK_SIZE \<inter> image tiny_fs long_image 4096 = {}" by (auto simp: image_def span_def not_less [symmetric])
qed

theorem sb16_handler_refills_witness:
  "\<exists>k'. sb16_handler (\<lambda>_. ([], [])) 0x420000 (player long_image) = Some k' \<and> sb_playing (sound k') \<and> to_play 0 k' = []"
proof -
  have "length (contents tiny_fs long_image 4096) = CHUNK_SIZE" by (simp add: contents_def CHUNK_SIZE_def)
  then have "length (to_play 0 (player long_image)) = CHUNK_SIZE" unfolding player_refill(2) [OF long_file] .
  then show ?thesis using sb16_handler_refills [OF player_refill(1) [OF long_file], of "\<lambda>_. ([], [])"] by auto
qed

text \<open>
  C39. The end of a file that does not fill its last block: the bytes of that block are erased
  before the card plays them, and the descriptor that is closed is the one with the same number
  in the interrupted process, while the file stays open in the process that plays.
\<close>

theorem sb16_handler_last_block:
  assumes "refill_ok dma p k" "0 < length (to_play p k)" "length (to_play p k) < CHUNK_SIZE"
    and "current_process k = q" "q \<noteq> p" "eight_files (procs k q)" "fd = sb_fd (sound k)" "2 \<le> fd"
    and "valid_fd fd (procs k q)" "f_ops (open_files (procs k q) ! nat fd) = Some Fs_funcs"
  shows "\<exists>k'. sb16_handler w dma k = Some k' \<and> bytes (mem k') dma (2 * CHUNK_SIZE) = replicate (2 * CHUNK_SIZE) 0 \<and>
    valid_fd fd (procs k' p) \<and> \<not> valid_fd fd (procs k' q) \<and> current_process k' = q \<and> \<not> sb_playing (sound k')"
proof -
  let ?b = "current_block dma (sound k)" and ?bs = "take CHUNK_SIZE (to_play p k)" and ?f = "open_files (procs k q) ! nat fd"
  have l: "?bs = to_play p k" using assms(3) by simp
  have pl: "sb_playing (sound k)" "sb_process (sound k) = Some p" and v: "eight_files (procs k p)" "valid_fd fd (procs k p)"
    using assms(1,7) by (simp_all add: refill_ok_def fd_ok_def)
  obtain c flags where c: "block_interrupts (cflags k) = (c, flags)" by (simp add: block_interrupts_def)
  obtain f1 where r: "read_in w 0 fd ?b (int CHUNK_SIZE) (k\<lparr>current_process := p, cflags := c\<rparr>) =
      Some (set_file p (nat fd) f1 (set_mem (store_bytes (mem k) ?b ?bs) (k\<lparr>current_process := p, cflags := c\<rparr>)), int (length ?bs))"
    "in_use f1 = in_use (open_files (procs k p) ! nat fd)"
    using handler_read [OF assms(1), of w 0 c] assms(7) by metis
  let ?n = "of_int (int (length ?bs)) :: u32"
  have "unat ?n = length (to_play p k)" using unat_of_nat_u32 [of "length (to_play p k)"] assms(3) l by (simp add: CHUNK_SIZE_def)
  then have n: "0 < ?n" "?n < of_nat CHUNK_SIZE" using assms(2,3) by (simp_all add: word_less_nat_alt CHUNK_SIZE_def unat_gt_0)
  have fd: "nat fd < 8" "fd \<noteq> int STDIN_FD" "fd \<noteq> int STDOUT_FD" "0 \<le> fd" "fd < 8" "in_use (open_files (procs k p) ! nat fd)"
    using assms(8,9) v(2) by (auto simp: valid_fd_def STDIN_FD_def STDOUT_FD_def)
  have len: "length (open_files (procs k p)) = 8" "length (open_files (procs k q)) = 8" using v(1) assms(6) by (simp_all add: eight_files_def)
  have "bytes (store_bytes m dma (replicate (2 * CHUNK_SIZE) 0)) dma (2 * CHUNK_SIZE) = replicate (2 * CHUNK_SIZE) 0" for m
    using bytes_store_bytes [of "replicate (2 * CHUNK_SIZE) 0" m dma] by (simp add: CHUNK_SIZE_def)
  then show ?thesis
    using pl c r n fd len assms(4,5,9,10)
    by (simp add: sb16_handler_def reset_playback_def syscall_close_def close_func_def put_file_def valid_fd_def flip: assms(7))
qed

theorem sb16_handler_last_block_witness:
  "\<exists>k'. sb16_handler (\<lambda>_. ([], [])) 0x420000 (player tiny_image) = Some k' \<and> valid_fd 2 (procs k' 0) \<and> \<not> valid_fd 2 (procs k' 1)"
proof -
  have d: "span 0x420000 CHUNK_SIZE \<inter> image tiny_fs tiny_image 4096 = {}"
    by (auto simp: tiny_image_set span_def unat_sub_if' word_le_nat_alt CHUNK_SIZE_def)
  note r = player_refill [OF tiny_well_formed d]
  have "eight_files (procs (player tiny_image) 1)" "valid_fd 2 (procs (player tiny_image) 1)"
    by (simp_all add: eight_files_def valid_fd_def) (simp add: fs_file_def)
  moreover have "f_ops (open_files (procs (player tiny_image) 1) ! nat 2) = Some Fs_funcs" by (simp add: fs_file_def)
  moreover have "0 < length (to_play 0 (player tiny_image))" "length (to_play 0 (player tiny_image)) < CHUNK_SIZE"
    unfolding r(2) tiny_contents by (simp_all add: CHUNK_SIZE_def)
  ultimately show ?thesis using sb16_handler_last_block [OF r(1), of 1 2 "\<lambda>_. ([], [])"] by auto
qed

text \<open>
  Playing a WAV file, whatever its header, gives the processor back to the process that asked:
  on every way out, errors included, the current process is the one before the call.
\<close>

theorem play_wav_keeps_process:
  assumes "play_wav w buf dma u fname k = Some (k', r)"
  shows "current_process k' = current_process k"
proof -
  have fail: "current_process k' = q" if "play_wav_fail fd q k1 = Some (k', r)" for fd q k1
    using that by (auto simp: play_wav_fail_def Option.bind_eq_Some_conv)
  have pf: "current_process k' = current_process k1" if "play_file w i dma fd b s h k1 = Some (k', r)" for i fd b s h k1
    using that by (auto simp: play_file_def Let_def Option.bind_eq_Some_conv split: if_splits)
  have data: "current_process k' = q" if "play_wav_data w buf dma fd q b s h k1 = Some (k', r)" for fd q b s h k1
    using that by (auto simp: play_wav_data_def Option.bind_eq_Some_conv split: if_splits dest: fail pf)
  have fmt: "current_process k' = q" if "play_wav_format w buf dma fd q info k1 = Some (k', r)" for fd q info k1
    using that unfolding play_wav_format_def Let_def Option.bind_eq_Some_conv
    by (clarsimp simp: Option.bind_eq_Some_conv split: if_splits) (blast dest: fail data)+
  show ?thesis
    using assms unfolding play_wav_def Let_def
    by (clarsimp simp: Option.bind_eq_Some_conv split: option.splits if_splits) (blast dest: fail fmt)+
qed

theorem play_wav_keeps_process_witness:
  "\<exists>k'. play_wav (\<lambda>_. ([], [])) 0x7FF000 0x420000 closed_file None (player tiny_image) = Some (k', - 1) \<and> current_process k' = 1"
proof -
  have "play_wav (\<lambda>_. ([], [])) 0x7FF000 0x420000 closed_file None (player tiny_image) = Some (player tiny_image, - 1)" by (simp add: play_wav_def)
  from this play_wav_keeps_process [OF this] show ?thesis by simp
qed

text \<open>
  After an 8-bit file a 16-bit file is played with the card's 8-bit command, on the 16-bit DMA
  channel: the flag in \<open>status.mode\<close> is never cleared.
\<close>

theorem play_16_bit_after_8_bit:
  assumes "\<not> sb_playing (sound k)" "sb_mode (sound k) = STATUS_8BIT" "sb_ports (sound k) = []"
    and "fd_ok fd dma (int CHUNK_SIZE * 2) (k\<lparr>current_process := 0\<rparr>)"
  shows "\<exists>k'. play_file w i dma fd 16 True rate k = Some (k', 0) \<and> sb_channel (sound k') = 5 \<and>
    written (sb_ports (sound k')) 0x22C ! 3 = 0xC6"
proof -
  let ?s = "sb16_set_sample_rate rate ((sound k)\<lparr>sb_channel := 5, sb_process := Some 0, sb_fd := fd, sb_playing := True, sb_mode := STATUS_8BIT OR STATUS_SIGNED\<rparr>)"
  let ?k = "k\<lparr>sound := ?s, current_process := 0\<rparr>"
  have "fd_ok fd dma (int CHUNK_SIZE * 2) ?k" using assms(4) fd_ok_cong(1) [of ?k 0 "k\<lparr>current_process := 0\<rparr>"] by simp
  from syscall_read_regular(1) [OF this] obtain k2 n where k2: "read_in w i fd dma (int CHUNK_SIZE * 2) ?k = Some (k2, n)" "sound k2 = ?s"
    unfolding read_in_def by fastforce
  have m: "(STATUS_8BIT OR STATUS_SIGNED) AND STATUS_8BIT \<noteq> 0" by (simp add: STATUS_8BIT_def STATUS_SIGNED_def)
  have lt: "\<not> (8 :: u8) \<le> 5" by simp
  show ?thesis
    using assms(1-3) k2 m lt
    by (simp add: play_file_def Let_def sb16_start_playback_def sb16_dsp_write_def sb16_outb_def sb16_set_sample_rate_def dma_start_def
        enable_dma_def disable_dma_def clear_dma_ff_def set_dma_mode_def set_dma_addr_def set_dma_page_def set_dma_count_def dma_outb_def
        page_port_def sb16_stop_playback_after_def)
qed

end
