(* ===== verification/Printf.thy ===== *)
theory Printf
  imports Terminal Lib_String
begin

text \<open>
  \<open>printf\<close> and the screens drawn with it (\<^verbatim>\<open>lib.c\<close>). The format is the bytes before
  its NUL. The arguments are the words on the stack; a string is passed by its bytes, since the
  kernel prints constants and local arrays. The local array \<open>conv_buf\<close> is a memory of its own,
  at address 0, with whatever \<open>stk\<close> the stack held.
\<close>

section \<open>Arguments\<close>

datatype printf_arg = Word_arg u32 | String_arg "u8 list"

fun next_word :: "printf_arg list \<Rightarrow> (u32 \<times> printf_arg list) option" where
  "next_word (Word_arg w # args) = Some (w, args)"
| "next_word _ = None"

fun next_string :: "printf_arg list \<Rightarrow> (u8 list \<times> printf_arg list) option" where
  "next_string (String_arg s # args) = Some (s, args)"
| "next_string _ = None"

section \<open>Conversions\<close>

definition puts_conv :: "memory \<Rightarrow> u32 \<Rightarrow> nat \<Rightarrow> tty \<Rightarrow> tty option" where
  "puts_conv conv_buf start n t = do { (t1, _) \<leftarrow> puts (bytes conv_buf start (n - unat start)) t; Some t1 }"

definition print_hex :: "memory \<Rightarrow> bool \<Rightarrow> u32 \<Rightarrow> tty \<Rightarrow> tty option" where
  "print_hex stk alternate v t =
     (if \<not> alternate then do { m \<leftarrow> itoa v 0 16 stk; puts_conv m 0 64 t }
      else do {
        m \<leftarrow> itoa v 8 16 stk;
        starting_index \<leftarrow> strlen (at m 8);
        let m1 = fold (\<lambda>i m. m(of_nat i := 0x30)) [unat starting_index..<8] m;
        puts_conv m1 starting_index 64 t
      })"

definition print_unsigned :: "memory \<Rightarrow> u32 \<Rightarrow> tty \<Rightarrow> tty option" where
  "print_unsigned stk v t = do { m \<leftarrow> itoa v 0 10 stk; puts_conv m 0 36 t }"

definition print_signed :: "memory \<Rightarrow> u32 \<Rightarrow> tty \<Rightarrow> tty option" where
  "print_signed stk v t = do {
     m \<leftarrow> (if v <s 0 then itoa (- v) 1 10 (stk(0 := 0x2D)) else itoa v 0 10 stk);
     puts_conv m 0 36 t
   }"

text \<open>One conversion: the characters are percent, x, u, d, c and s; any other prints nothing.\<close>

definition conversion :: "memory \<Rightarrow> bool \<Rightarrow> u8 \<Rightarrow> printf_arg list \<Rightarrow> tty \<Rightarrow> (printf_arg list \<times> tty) option" where
  "conversion stk alternate c args t =
     (if c = 0x25 then do { t1 \<leftarrow> putc 0x25 t; Some (args, t1) }
      else if c = 0x78 then do { (w, args1) \<leftarrow> next_word args; t1 \<leftarrow> print_hex stk alternate w t; Some (args1, t1) }
      else if c = 0x75 then do { (w, args1) \<leftarrow> next_word args; t1 \<leftarrow> print_unsigned stk w t; Some (args1, t1) }
      else if c = 0x64 then do { (w, args1) \<leftarrow> next_word args; t1 \<leftarrow> print_signed stk w t; Some (args1, t1) }
      else if c = 0x63 then do { (w, args1) \<leftarrow> next_word args; t1 \<leftarrow> putc (ucast w) t; Some (args1, t1) }
      else if c = 0x73 then do { (s, args1) \<leftarrow> next_string args; (t1, _) \<leftarrow> puts (s @ [0]) t; Some (args1, t1) }
      else Some (args, t))"

text \<open>
  The loop over the format: outside of a conversion, or inside one with its \<open>alternate\<close> flag,
  which the character 0x23 sets. A format that ends inside a conversion is read past its NUL.
\<close>

fun printf_loop :: "memory \<Rightarrow> bool option \<Rightarrow> u8 list \<Rightarrow> printf_arg list \<Rightarrow> tty \<Rightarrow> tty option" where
  "printf_loop stk None [] args t = Some t"
| "printf_loop stk (Some alternate) [] args t = None"
| "printf_loop stk None (c # cs) args t =
     (if c = 0x25 then printf_loop stk (Some False) cs args t
      else do { t1 \<leftarrow> putc c t; printf_loop stk None cs args t1 })"
| "printf_loop stk (Some alternate) (c # cs) args t =
     (if c = 0x23 then printf_loop stk (Some True) cs args t
      else do { (args1, t1) \<leftarrow> conversion stk alternate c args t; printf_loop stk None cs args1 t1 })"

definition printf :: "memory \<Rightarrow> u8 list \<Rightarrow> printf_arg list \<Rightarrow> tty \<Rightarrow> (tty \<times> int) option" where
  "printf stk format args t = do { t1 \<leftarrow> printf_loop stk None format args t; Some (t1, int (length format)) }"

section \<open>Screens\<close>

definition ascii :: "string \<Rightarrow> u8 list" where
  "ascii s = map of_char s"

abbreviation bslash :: char where "bslash \<equiv> CHR 0x5C"

abbreviation squote :: char where "squote \<equiv> CHR 0x27"

abbreviation dquote :: char where "dquote \<equiv> CHR 0x22"

definition sb_rows :: "string list" where
  "sb_rows = [
     ''              _______              '',
     ''            .'' @ [squote] @ ''.     .'' @ [squote] @ ''.            '',
     ''           / .|'' @ [bslash] @ '' _ /|. '' @ [bslash] @ ''           '',
     ''          : :  '' @ [bslash] @ [bslash] @ '' //  : :          '',
     ''          : : (_'' @ [bslash] @ ''V/_) : :          '',
     ''          : :    v    : :          '',
     ''          :  '' @ [bslash] @ '' .---. /  :          '',
     ''           '' @ [bslash] @ ''  '' @ [bslash] @ ''|   |/  /           '',
     ''            '' @ [bslash] @ ''  |===|  /            '',
     ''  .-.__      '' @ [squote] @ ''..___..'' @ [squote] @ ''      __.-.  '',
     '' /  /  |       _| |_       |  '' @ [bslash] @ ''  '' @ [bslash] @ '' '',
     ''|   |/ |'' @ [squote] @ ''|----/     '' @ [bslash] @ ''----|'' @ [squote] @ ''| '' @ [bslash] @ ''|   |'',
     ''|      |.|---:       :---|.|      |'',
     '' '' @ [bslash] @ ''    _|     :_______:     |_    / '',
     ''  '' @ [squote] @ ''--'' @ [squote] @ ''        #######        '' @ [squote] @ ''--'' @ [squote] @ ''  '',
     ''              '' @ [squote] @ ''#####'' @ [squote] @ ''              '',
     ''              /#'' @ [dquote] @ [dquote] @ [dquote] @ ''#'' @ [bslash] @ ''              '',
     ''             /#/   '' @ [bslash] @ ''#'' @ [bslash] @ ''             '',
     ''         .-./'' @ [bslash] @ ''/     '' @ [bslash] @ ''/'' @ [bslash] @ ''.-.         '',
     ''        '' @ [bslash] @ ''    /       '' @ [bslash] @ ''    /        '',
     ''         '' @ [squote] @ ''._/         '' @ [bslash] @ ''_.'' @ [squote] @ ''         '']"

definition xios_rows :: "string list" where
  "xios_rows = [
     ''XXXXXXX       XXXXXXX   iiii        OOOOOOOOO        SSSSSSSSSSSSSSS '',
     ''X:::::X       X:::::X  i::::i     OO:::::::::OO    SS:::::::::::::::S'',
     ''X:::::X       X:::::X   iiii    OO:::::::::::::OO S:::::SSSSSS::::::S'',
     ''X::::::X     X::::::X          O:::::::OOO:::::::OS:::::S     SSSSSSS'',
     ''XXX:::::X   X:::::XXX iiiiiii  O::::::O   O::::::OS:::::S            '',
     ''   X:::::X X:::::X    i:::::i  O:::::O     O:::::OS:::::S            '',
     ''    X:::::X:::::X      i::::i  O:::::O     O:::::O S::::SSSS         '',
     ''     X:::::::::X       i::::i  O:::::O     O:::::O  SS::::::SSSSS    '',
     ''     X:::::::::X       i::::i  O:::::O     O:::::O    SSS::::::::SS  '',
     ''    X:::::X:::::X      i::::i  O:::::O     O:::::O       SSSSSS::::S '',
     ''   X:::::X X:::::X     i::::i  O:::::O     O:::::O            S:::::S'',
     ''XXX:::::X   X:::::XXX  i::::i  O::::::O   O::::::O            S:::::S'',
     ''X::::::X     X::::::X i::::::i O:::::::OOO:::::::OSSSSSSS     S:::::S'',
     ''X:::::X       X:::::X i::::::i  OO:::::::::::::OO S::::::SSSSSS:::::S'',
     ''X:::::X       X:::::X i::::::i    OO:::::::::OO   S:::::::::::::::SS '',
     ''XXXXXXX       XXXXXXX iiiiiiii      OOOOOOOOO      SSSSSSSSSSSSSSS   '']"

definition print_text :: "memory \<Rightarrow> string \<Rightarrow> tty \<Rightarrow> tty option" where
  "print_text stk s t = map_option fst (printf stk (ascii s) [] t)"

fun print_rows :: "memory \<Rightarrow> (nat \<Rightarrow> string) \<Rightarrow> nat \<Rightarrow> string list \<Rightarrow> string \<Rightarrow> tty \<Rightarrow> tty option" where
  "print_rows stk before i [] fmt t = Some t"
| "print_rows stk before i (row # rows) fmt t = do {
     t1 \<leftarrow> print_text stk (before i) t;
     (t2, _) \<leftarrow> printf stk (ascii fmt) [String_arg (ascii row)] t1;
     print_rows stk before (i + 1) rows fmt t2
   }"

definition printSB :: "memory \<Rightarrow> tty \<Rightarrow> tty option" where
  "printSB stk t =
     print_rows stk (\<lambda>i. if i = 0 then CHR 0x0A # ''FRAGRANT SYSTEM ERROR!'' else if i = 1 then ''Computer Over.        ''
       else if i = 2 then ''VIRUS = Very Yes.     '' else ''                      '') 0 sb_rows (''%s'' @ [CHR 0x0A]) t"

definition printXiOS :: "memory \<Rightarrow> tty \<Rightarrow> tty option" where
  "printXiOS stk t = do {
     t1 \<leftarrow> print_rows stk (\<lambda>_. []) 0 xios_rows (''     %s'' @ [CHR 0x0A]) t;
     print_text stk (CHR 0x0A # ''        Matthew Tischer | Tej Chajed | Hanz Anderson | Matthew Johnson'' @ [CHR 0x0A]) t1
   }"

definition bsod :: "memory \<Rightarrow> tty \<Rightarrow> tty option" where
  "bsod stk t = printSB stk (on_scr (\<lambda>s. clear (set_attrib 0x1F s)) t)"

definition shutdown_screen :: "memory \<Rightarrow> tty \<Rightarrow> tty option" where
  "shutdown_screen stk t = do {
     t1 \<leftarrow> print_text stk (''Shutting Down...'' @ [CHR 0x0A, CHR 0x0A]) (on_scr (\<lambda>s. clear (set_attrib 0x04 s)) t);
     printXiOS stk t1
   }"

definition startup_screen :: "memory \<Rightarrow> tty \<Rightarrow> tty option" where
  "startup_screen stk t = do {
     t1 \<leftarrow> print_text stk [CHR 0x0A, CHR 0x0A] (on_scr (\<lambda>s. clear (set_attrib 0x04 s)) t);
     printXiOS stk t1
   }"

section \<open>What \<open>printf\<close> prints\<close>

text \<open>
  The text a format stands for, from the arithmetic of digits alone: \<open>numeral\<close> is a number in a
  radix, \<open>hex8\<close> its eight hexadecimal digits with leading zeros.
\<close>

definition digit_chars :: "nat \<Rightarrow> nat \<Rightarrow> u8 list" where
  "digit_chars r v = map (\<lambda>d. lookup_digits ! d) (numeral_digits r v)"

definition hex8 :: "u32 \<Rightarrow> u8 list" where
  "hex8 v = (let h = digit_chars 16 (unat v) in replicate (8 - length h) 0x30 @ h)"

definition signed_chars :: "u32 \<Rightarrow> u8 list" where
  "signed_chars v = (if sint v < 0 then 0x2D # digit_chars 10 (nat (- sint v)) else digit_chars 10 (nat (sint v)))"

definition render_conversion :: "bool \<Rightarrow> u8 \<Rightarrow> printf_arg list \<Rightarrow> (printf_arg list \<times> u8 list) option" where
  "render_conversion alternate c args =
     (if c = 0x25 then Some (args, [0x25])
      else if c = 0x78 then map_option (\<lambda>(w, a). (a, if alternate then hex8 w else digit_chars 16 (unat w))) (next_word args)
      else if c = 0x75 then map_option (\<lambda>(w, a). (a, digit_chars 10 (unat w))) (next_word args)
      else if c = 0x64 then map_option (\<lambda>(w, a). (a, signed_chars w)) (next_word args)
      else if c = 0x63 then map_option (\<lambda>(w, a). (a, [ucast w])) (next_word args)
      else if c = 0x73 then map_option (\<lambda>(s, a). (a, takeWhile (\<lambda>c. c \<noteq> 0) s)) (next_string args)
      else Some (args, []))"

fun render :: "bool option \<Rightarrow> u8 list \<Rightarrow> printf_arg list \<Rightarrow> u8 list option" where
  "render None [] args = Some []"
| "render (Some alternate) [] args = None"
| "render None (c # cs) args = (if c = 0x25 then render (Some False) cs args else map_option ((#) c) (render None cs args))"
| "render (Some alternate) (c # cs) args =
     (if c = 0x23 then render (Some True) cs args
      else do { (args1, out) \<leftarrow> render_conversion alternate c args; map_option ((@) out) (render None cs args1) })"

lemma putcs_append: "putcs (xs @ ys) t = do { t1 \<leftarrow> putcs xs t; putcs ys t1 }"
proof (induction xs arbitrary: t)
  case (Cons x xs)
  then have "putcs (xs @ ys) = (\<lambda>t. do { t1 \<leftarrow> putcs xs t; putcs ys t1 })" by (rule ext)
  then show ?case by (simp add: bind_assoc)
qed simp

lemma cstring_bytes:
  assumes "str (at m p) cs" "length cs < n"
  shows "cstring (bytes m p n) = Some cs"
proof -
  have "bytes m p n = cs @ 0 # bytes m (p + of_nat (Suc (length cs))) (n - Suc (length cs))"
  proof (rule nth_equalityI)
    show "length (bytes m p n) = length (cs @ 0 # bytes m (p + of_nat (Suc (length cs))) (n - Suc (length cs)))" using assms(2) by simp
    fix i assume "i < length (bytes m p n)"
    then have i: "i < n" by simp
    consider "i < length cs" | "i = length cs" | j where "i = Suc (length cs) + j" using less_iff_Suc_add [of "length cs" i] by force
    then show "bytes m p n ! i = (cs @ 0 # bytes m (p + of_nat (Suc (length cs))) (n - Suc (length cs))) ! i"
      using assms i by cases (auto simp: bytes_def str_def at_def nth_append algebra_simps)
  qed
  moreover have "0 \<notin> set cs" using assms(1) by (simp add: str_def)
  ultimately show ?thesis by (auto simp: cstring_def takeWhile_append)
qed

lemma puts_conv_str:
  assumes "str (at m p) cs" "unat p + length cs < n"
  shows "puts_conv m p n t = putcs cs t"
  using cstring_bytes [OF assms(1), of "n - unat p"] assms(2) by (simp add: puts_conv_def puts_def bind_assoc)

lemma digits_short: "v < r ^ k \<Longrightarrow> 2 \<le> r \<Longrightarrow> length (digits r v) \<le> k"
proof (induction k arbitrary: v)
  case 0
  then show ?case by (simp add: digits.simps)
next
  case (Suc k)
  then have "v div r < r ^ k" by (simp add: less_mult_imp_div_less mult.commute)
  then show ?case using Suc by (subst digits.simps) auto
qed

lemma digit_chars_short: "v < r ^ k \<Longrightarrow> 2 \<le> r \<Longrightarrow> 0 < k \<Longrightarrow> length (digit_chars r v) \<le> k"
  using digits_short [of v r k] by (simp add: digit_chars_def numeral_digits_def)

lemma digit_chars_u32: "length (digit_chars 16 (unat v)) \<le> 8" "length (digit_chars 10 (unat v)) \<le> 10" for v :: u32
  using digit_chars_short [of "unat v" 16 8] digit_chars_short [of "unat v" 10 10] unat_u32_less [of v] by simp_all

lemma itoa_chars:
  fixes v :: u32
  assumes "radix = 10 \<or> radix = 16"
  obtains m' where "itoa v buf radix m = Some m'" "str (at m' buf) (digit_chars (unat radix) (unat v))"
    "\<And>a. a \<notin> span buf (Suc (length (digit_chars (unat radix) (unat v)))) \<Longrightarrow> m' a = m a"
proof -
  have "2 \<le> radix" "radix \<le> 36" using assms by auto
  from itoa_numeral [OF this, of v buf m] show ?thesis using that by (auto simp: digit_chars_def)
qed

lemma fill_zeros:
  assumes "a \<le> 8"
  shows "fold (\<lambda>i m. m((of_nat i :: u32) := (0x30 :: u8))) [a..<8] m x = (if a \<le> unat x \<and> unat x < 8 then 0x30 else m x)"
proof -
  have "fold (\<lambda>i m. m((of_nat i :: u32) := (0x30 :: u8))) xs m x = (if \<exists>i \<in> set xs. x = of_nat i then 0x30 else m x)" for xs
    by (induction xs arbitrary: m) auto
  moreover have "(\<exists>i \<in> set [a..<8]. x = of_nat i) \<longleftrightarrow> a \<le> unat x \<and> unat x < 8"
  proof
    assume "a \<le> unat x \<and> unat x < 8"
    then show "\<exists>i \<in> set [a..<8]. x = of_nat i" by (intro bexI [of _ "unat x"]) simp_all
  qed (auto simp: unat_of_nat_u32)
  ultimately show ?thesis by simp
qed

lemma print_hex_chars: "print_hex stk alternate v t = putcs (if alternate then hex8 v else digit_chars 16 (unat v)) t"
proof (cases alternate)
  case False
  obtain m where m: "itoa v 0 16 stk = Some m" "str (at m 0) (digit_chars 16 (unat v))" using itoa_chars [of 16 v 0 stk] by auto
  then show ?thesis using puts_conv_str [OF m(2), of 64] digit_chars_u32(1) [of v] False by (simp add: print_hex_def)
next
  case True
  let ?h = "digit_chars 16 (unat v)" and ?n = "length (digit_chars 16 (unat v))"
  have n: "?n \<le> 8" by (rule digit_chars_u32)
  obtain m where m: "itoa v 8 16 stk = Some m" "str (at m 8) ?h" using itoa_chars [of 16 v 8 stk] by auto
  have l: "strlen (at m 8) = Some (of_nat ?n)" using strlen_str [OF m(2)] n by simp
  define m1 where "m1 = fold (\<lambda>i m. m((of_nat i :: u32) := (0x30 :: u8))) [?n..<8] m"
  have "str (at m1 (of_nat ?n)) (hex8 v)"
  proof -
    have u: "unat (of_nat ?n + of_nat i :: u32) = ?n + i" if "i \<le> 8" for i
      using that n unat_of_nat_u32 [of "?n + i"] by simp
    have len: "length (hex8 v) = 8" using n by (simp add: hex8_def Let_def)
    have "at m1 (of_nat ?n) (of_nat i) = hex8 v ! i" if i: "i < 8" for i
    proof (cases "?n + i < 8")
      case True
      then have "i < 8 - ?n" by simp
      then show ?thesis using True u [of i] i fill_zeros [OF n] by (simp add: at_def m1_def hex8_def Let_def nth_append)
    next
      case False
      then have "(of_nat ?n + of_nat i :: u32) = 8 + of_nat (?n + i - 8)" using n i by (simp add: of_nat_diff)
      moreover have "?n + i - 8 < ?n" using False i by linarith
      then have "at m 8 (of_nat (?n + i - 8)) = ?h ! (?n + i - 8)" using m(2) unfolding str_def by blast
      moreover have "\<not> i < 8 - ?n" "i + ?n - 8 = ?n + i - 8" using False by simp_all
      ultimately show ?thesis using False u [of i] i n fill_zeros [OF n] by (simp add: at_def m1_def hex8_def Let_def nth_append)
    qed
    moreover have "at m1 (of_nat ?n) (of_nat 8) = 0"
    proof -
      have "at m 8 (of_nat ?n) = 0" using m(2) by (simp add: str_def)
      then show ?thesis using u [of 8] fill_zeros [OF n] by (simp add: at_def m1_def add.commute)
    qed
    moreover have "0 \<notin> set (hex8 v)" using m(2) by (auto simp: hex8_def Let_def str_def)
    ultimately show ?thesis using len by (simp add: str_def)
  qed
  from puts_conv_str [OF this, of 64] show ?thesis
    using True m(1) l n by (simp add: print_hex_def m1_def [symmetric] hex8_def Let_def unat_of_nat_u32)
qed

lemma print_unsigned_chars: "print_unsigned stk v t = putcs (digit_chars 10 (unat v)) t"
proof -
  obtain m where m: "itoa v 0 10 stk = Some m" "str (at m 0) (digit_chars 10 (unat v))" using itoa_chars [of 10 v 0 stk] by auto
  then show ?thesis using puts_conv_str [OF m(2), of 36] digit_chars_u32(2) [of v] by (simp add: print_unsigned_def)
qed

lemma print_signed_chars: "print_signed stk v t = putcs (signed_chars v) t"
proof (cases "v <s 0")
  case True
  let ?m0 = "stk(0 := 0x2D)" and ?h = "digit_chars 10 (unat (- v))"
  obtain m where m: "itoa (- v) 1 10 ?m0 = Some m" "str (at m 1) ?h" "\<And>a. a \<notin> span 1 (Suc (length ?h)) \<Longrightarrow> m a = ?m0 a"
    using itoa_chars [of 10 "- v" 1 ?m0] by auto
  have n: "length ?h \<le> 10" by (rule digit_chars_u32)
  have "unat (- 1 :: u32) = 4294967295" by (simp add: unat_eq_nat_uint uint_word_ariths)
  then have "0 \<notin> span (1 :: u32) (Suc (length ?h))" using n by (simp add: span_def)
  then have z: "m 0 = 0x2D" using m(3) by simp
  have s: "sint v < 0" "nat (- sint v) = unat (- v)"
  proof -
    show neg: "sint v < 0" using True by (simp add: word_sless_alt)
    have "uint (- v) = (- uint v) mod 2 ^ 32" by (simp add: uint_word_ariths)
    also have "\<dots> = (- sint v) mod 2 ^ 32" by (subst (1) uint_sint) (simp add: take_bit_eq_mod mod_minus_eq)
    also have "\<dots> = - sint v" using neg sint_greater_eq [of v] by simp
    finally show "nat (- sint v) = unat (- v)" by (simp add: unat_eq_nat_uint)
  qed
  have "str (at m 0) (signed_chars v)"
  proof -
    have "at m 0 (of_nat i) = (0x2D # ?h) ! i" if "i \<le> length ?h" for i
      using that m(2) z by (cases i) (auto simp: str_def at_def)
    moreover have "at m 0 (of_nat (Suc (length ?h))) = 0" using m(2) by (simp add: str_def at_def)
    ultimately show ?thesis using m(2) s n by (simp add: str_def signed_chars_def less_Suc_eq_le)
  qed
  from puts_conv_str [OF this, of 36] show ?thesis using True m(1) n s by (simp add: print_signed_def signed_chars_def)
next
  case False
  then have s: "0 \<le> sint v" by (simp add: word_sless_alt)
  have "uint v = sint v mod 2 ^ 32" by (subst uint_sint) (simp add: take_bit_eq_mod)
  also have "\<dots> = sint v" using s sint_less [of v] by simp
  finally have "nat (sint v) = unat v" by (simp add: unat_eq_nat_uint)
  then show ?thesis using False s print_unsigned_chars [of stk v t] by (simp add: print_signed_def signed_chars_def print_unsigned_def)
qed

lemma puts_string: "puts (s @ [0]) t = map_option (\<lambda>t1. (t1, int (length (takeWhile (\<lambda>c. c \<noteq> 0) s)))) (putcs (takeWhile (\<lambda>c. c \<noteq> 0) s) t)"
proof -
  have "takeWhile (\<lambda>c. c \<noteq> 0) (s @ [0]) = takeWhile (\<lambda>c. c \<noteq> 0) s" by (induction s) simp_all
  then show ?thesis by (cases "putcs (takeWhile (\<lambda>c. c \<noteq> 0) s) t") (simp_all add: puts_def cstring_def)
qed

lemma conversion_chars:
  "conversion stk alternate c args t = do { (args1, out) \<leftarrow> render_conversion alternate c args; t1 \<leftarrow> putcs out t; Some (args1, t1) }"
  by (cases "next_word args"; cases "next_string args")
    (auto simp: conversion_def render_conversion_def print_hex_chars print_unsigned_chars print_signed_chars puts_string
      map_conv_bind_option bind_assoc)

lemma printf_loop_renders: "printf_loop stk mode format args t = do { out \<leftarrow> render mode format args; putcs out t }"
proof (induction stk mode format args t rule: printf_loop.induct)
  case (3 stk c cs args t)
  show ?case
  proof (cases "c = 0x25")
    case False
    then show ?thesis using 3(2) [OF False] by (cases "render None cs args"; cases "putc c t") auto
  qed (use 3 in simp)
next
  case (4 stk alternate c cs args t)
  show ?case
  proof (cases "c = 0x23")
    case False
    show ?thesis
    proof (cases "render_conversion alternate c args")
      case (Some p)
      obtain args1 out where p: "p = (args1, out)" by (cases p)
      show ?thesis
      proof (cases "putcs out t")
        case None
        then show ?thesis using False Some p by (cases "render None cs args1") (auto simp: conversion_chars putcs_append)
      next
        case (Some t1)
        then show ?thesis using False \<open>render_conversion alternate c args = Some p\<close> p 4(2) [OF False]
          by (cases "render None cs args1") (auto simp: conversion_chars putcs_append)
      qed
    qed (use False in \<open>simp add: conversion_chars\<close>)
  qed (use 4 in simp)
qed simp_all

section \<open>Properties\<close>

text \<open>
  C10. \<open>printf\<close> prints the text its format stands for: for every format and arguments of the
  kinds it asks for it puts, character by character, the literal characters, numbers as their
  digits in base 10 (with a sign) or 16, \<open>%#x\<close> as exactly eight hexadecimal digits, characters and
  strings, and returns the length of the format; it fails exactly where the format ends inside a
  conversion, an argument is missing or the terminal cannot put a character, whatever the stack held.
\<close>

theorem printf_renders:
  "printf stk format args t = do { out \<leftarrow> render None format args; t1 \<leftarrow> putcs out t; Some (t1, int (length format)) }"
  by (simp add: printf_def printf_loop_renders bind_assoc)

end
