(* ===== verification/Syscalls.thy ===== *)
theory Syscalls
  imports Process Sound Printf
begin

text \<open>
  The other system calls of \<^verbatim>\<open>syscall.c\<close> and the dispatch of the system call interrupt, with
  \<^verbatim>\<open>shutdown.c\<close>. A call returns a value, or continues elsewhere: \<open>execute\<close> at the first
  instruction of the new program, \<open>halt\<close> where the parent waits.
\<close>

section \<open>Outcomes and arguments\<close>

datatype outcome = Returns u32 | Jumps code_addr bool | Power_off u32

text \<open>
  What the calls use besides the kernel's state: the waits of the reads, the addresses of local
  arrays and of constant strings, and what the stack held where it is not initialised.
\<close>

record call_env =
  e_waits :: waits
  e_wav_buf :: u32
  e_dma_buffer :: u32
  e_uninit :: file_info
  e_stack :: memory
  e_message :: u32
  e_bucket :: u32

section \<open>execute and halt\<close>

definition syscall_execute :: "reader \<Rightarrow> kernel \<Rightarrow> (kernel \<times> outcome) option" where
  "syscall_execute command k = do {
     (k1, start_address) \<leftarrow> setup_process command k;
     if start_address = 0 then Some (k1, Returns (- 1))
     else do {
       parent \<leftarrow> p_parent (proc k1);
       t \<leftarrow> p_task (procs k1 parent);
       k2 \<leftarrow> set_status_bar (k1\<lparr>runqueue := idle_task t (runqueue k1)\<rparr>);
       parent \<leftarrow> p_parent (proc k2);
       Some (upd_proc parent (\<lambda>r. r\<lparr>ret_addr := Syscall_restore_regs\<rparr>) k2, Jumps (Start start_address) True)
     }
   }"

text \<open>What follows the label \<^verbatim>\<open>syscall_restore_regs\<close> in \<open>syscall_execute\<close>.\<close>

definition syscall_restore_regs :: "kernel \<Rightarrow> (kernel \<times> outcome) option" where
  "syscall_restore_regs k = do {
     t \<leftarrow> p_task (proc k);
     k1 \<leftarrow> activate_task t k;
     k2 \<leftarrow> set_status_bar k1;
     Some (k2, Returns (ret_val (proc k2)))
   }"

text \<open>The last process of a terminal gives it back to the kernel's process.\<close>

definition leave_terminal :: "nat \<Rightarrow> kernel \<Rightarrow> kernel option" where
  "leave_terminal old_process k =
     (if p_pid (proc k) = 0 then do {
        i \<leftarrow> p_terminal (procs k old_process);
        r \<leftarrow> term_at i (ktty k);
        in_terminal \<leftarrow> put_at (process_in_terminal k) (index r) (Some (current_process k));
        let k1 = k\<lparr>process_in_terminal := in_terminal\<rparr>;
        Some (if current_terminal (ktty k1) = Some i then on_screen clear k1 else k1)
      } else Some k)"

text \<open>A process without a parent runs into the assertion, which does not return.\<close>

definition syscall_halt :: "u8 \<Rightarrow> kernel \<Rightarrow> (kernel \<times> outcome) option" where
  "syscall_halt status k = do {
     let old_process = current_process k;
     parent \<leftarrow> p_parent (procs k old_process);
     let back = ret_addr (procs k parent);
     k1 \<leftarrow> leave_terminal old_process (set_current_process parent k);
     k2 \<leftarrow> close_process old_process k1;
     k3 \<leftarrow> set_status_bar k2;
     Some (upd_proc (current_process k3) (\<lambda>r. r\<lparr>ret_val := ucast status\<rparr>) k3, Jumps back False)
   }"

section \<open>The other calls\<close>

definition syscall_getargs :: "u32 \<Rightarrow> u32 \<Rightarrow> kernel \<Rightarrow> (kernel \<times> u32) option" where
  "syscall_getargs buf nbytes k = do {
     cs \<leftarrow> cstring (args (proc k));
     if length cs = 0 then Some (k, - 1)
     else Some (set_mem (strncpy_from (list_reader (args (proc k))) buf nbytes (mem k)) k, 0)
   }"

definition syscall_set_handler :: "u32 \<Rightarrow> u32 \<Rightarrow> u32" where
  "syscall_set_handler signum handler_address = - 1"

definition syscall_sigreturn :: u32 where
  "syscall_sigreturn = - 1"

definition syscall_vidmap :: "u32 \<Rightarrow> kernel \<Rightarrow> kernel \<times> u32" where
  "syscall_vidmap screen_start k =
     (if screen_start < of_nat (MB 128) \<or> of_nat (MB 132) - 4 \<le> screen_start then (k, - 1)
      else
        let k1 = k\<lparr>pages := map_4kb_page 0xB8000 (of_nat (MB 256)) (p_pid (proc k)) UserPrivilege 1 (pages k)\<rparr>;
            k2 = set_mem (store32 (mem k1) screen_start (of_nat (MB 256))) k1
        in (upd_proc (current_process k2) (\<lambda>r. r\<lparr>vidmap_flag := True\<rparr>) k2, 0))"

definition shutdown :: "call_env \<Rightarrow> kernel \<Rightarrow> kernel option" where
  "shutdown e k = do {
     n \<leftarrow> strlen (at (mem k) (e_message e));
     (k1, _) \<leftarrow> syscall_write (int STDOUT_FD) (e_message e) (sint n) k;
     (k2, _) \<leftarrow> read_in (e_waits e) 11 (int STDIN_FD) (e_bucket e) 10 k1;
     Some k2
   }"

text \<open>The last thing \<open>shutdown\<close> does is the port write that turns the emulator off.\<close>

definition syscall_shutdown :: "call_env \<Rightarrow> kernel \<Rightarrow> (kernel \<times> outcome) option" where
  "syscall_shutdown e k = do {
     k1 \<leftarrow> sb16_stop_playback (e_dma_buffer e) k;
     k2 \<leftarrow> on_tty (printSB (e_stack e)) (on_screen clear k1);
     (k3, _) \<leftarrow> play_wav (e_waits e) (e_wav_buf e) (e_dma_buffer e) (e_uninit e) (Some (literal ''shutdown_sb.wav'')) k2;
     k4 \<leftarrow> shutdown e k3;
     Some (k4, Power_off (- 1))
   }"

definition syscall_soundctrl :: "call_env \<Rightarrow> u32 \<Rightarrow> u32 \<Rightarrow> kernel \<Rightarrow> (kernel \<times> u32) option" where
  "syscall_soundctrl e func filename k =
     (if func = 0 then do {
        (k1, r) \<leftarrow> play_wav (e_waits e) (e_wav_buf e) (e_dma_buffer e) (e_uninit e)
          (if filename = 0 then None else Some (at (mem k) filename)) k;
        Some (k1, of_int r)
      }
      else if func = 1 then Some (on_sound (\<lambda>s. fst (sb16_pause_playback s)) k, 0)
      else if func = 2 then Some (on_sound (\<lambda>s. fst (sb16_resume_playback s)) k, 0)
      else if func = 3 then do { k1 \<leftarrow> sb16_stop_playback (e_dma_buffer e) k; Some (k1, 0) }
      else Some (k, - 1))"

section \<open>The interrupt\<close>

definition ret_int :: "(kernel \<times> int) option \<Rightarrow> (kernel \<times> outcome) option" where
  "ret_int r = map_option (\<lambda>(k, n). (k, Returns (of_int n))) r"

definition ret_word :: "(kernel \<times> u32) option \<Rightarrow> (kernel \<times> outcome) option" where
  "ret_word r = map_option (\<lambda>(k, n). (k, Returns n)) r"

definition syscall_handler :: "call_env \<Rightarrow> u32 \<Rightarrow> u32 \<Rightarrow> u32 \<Rightarrow> u32 \<Rightarrow> kernel \<Rightarrow> (kernel \<times> outcome) option" where
  "syscall_handler e num arg1 arg2 arg3 k =
     (if num = 1 then syscall_halt (ucast (arg1 AND 0xFF)) k
      else if num = 2 then syscall_execute (at (mem k) arg1) k
      else if num = 5 then ret_int (syscall_open (e_uninit e) (at (mem k) arg1) k)
      else if num = 3 then ret_int (read_in (e_waits e) 0 (sint arg1) arg2 (sint arg3) k)
      else if num = 4 then ret_int (syscall_write (sint arg1) arg2 (sint arg3) k)
      else if num = 6 then ret_int (syscall_close (sint arg1) k)
      else if num = 8 then ret_word (Some (syscall_vidmap arg1 k))
      else if num = 7 then ret_word (syscall_getargs arg1 arg2 k)
      else if num = 9 then Some (k, Returns (syscall_set_handler arg1 arg2))
      else if num = 10 then Some (k, Returns syscall_sigreturn)
      else if num = 11 then syscall_shutdown e k
      else if num = 12 then ret_word (syscall_soundctrl e arg1 arg2 k)
      else Some (k, Returns (- 1)))"

section \<open>The status bar as part of a call\<close>

text \<open>Redrawing the bar changes the bar and the screen, nothing a process or the scheduler uses.\<close>

definition same_but_bar :: "kernel \<Rightarrow> kernel \<Rightarrow> bool" where
  "same_but_bar k k' \<longleftrightarrow> procs k' = procs k \<and> runqueue k' = runqueue k \<and> current_process k' = current_process k \<and>
     pages k' = pages k \<and> esp0 k' = esp0 k \<and> process_in_terminal k' = process_in_terminal k \<and>
     terminals (ktty k') = terminals (ktty k) \<and> current_terminal (ktty k') = current_terminal (ktty k) \<and>
     sound k' = sound k \<and> kfs k' = kfs k"

lemma same_but_bar_refl [simp]: "same_but_bar k k"
  by (simp add: same_but_bar_def)

lemma same_but_bar_trans: "same_but_bar k k1 \<Longrightarrow> same_but_bar k1 k2 \<Longrightarrow> same_but_bar k k2"
  by (simp add: same_but_bar_def)

lemma on_status_bar [simp]: "same_but_bar k (on_status f k)"
  by (simp add: same_but_bar_def on_status_def on_screen_def put_tty_def set_mem_def on_scr_def split: prod.splits)

definition bar_ok :: "kernel \<Rightarrow> u32 \<Rightarrow> bool" where
  "bar_ok k t \<longleftrightarrow> (\<forall>i. p_terminal (procs k (tproc (runqueue k) t)) = Some i \<longrightarrow>
     i < length (terminals (ktty k)) \<and> 0 \<in> set (program (procs k (tproc (runqueue k) t))))"

lemma bar_ok_cong: "same_but_bar k k' \<Longrightarrow> bar_ok k' t = bar_ok k t"
  by (simp add: same_but_bar_def bar_ok_def)

lemma bar_tasks_total:
  assumes "dseg (tnx (runqueue k)) pv a ts None" "\<forall>t \<in> set ts. bar_ok k t"
  shows "\<exists>k'. bar_tasks (first_of ts None) k = Some k' \<and> same_but_bar k k'"
  using assms
proof (induction ts arbitrary: a k)
  case (Cons t ts)
  let ?p = "procs k (t_process (tasks (runqueue k) t))"
  have nx: "t_next (tasks (runqueue k) t) = first_of ts None" "dseg (tnx (runqueue k)) pv (Some t) ts None"
    using Cons.prems(1) tnx_def [of "runqueue k" t] by simp_all
  obtain k1 where k1: "same_but_bar k k1" "bar_tasks (Some t) k = bar_tasks (first_of ts None) k1"
  proof (cases "t_status (tasks (runqueue k) t) = TaskActive \<and> p_terminal ?p \<noteq> None")
    case True
    then obtain i where i: "p_terminal ?p = Some i" by blast
    then have "i < length (terminals (ktty k))" "0 \<in> set (program ?p)"
      using Cons.prems(2) by (simp_all add: bar_ok_def tproc_def)
    then obtain r label where o: "term_at i (ktty k) = Some r" "cstring (program ?p) = Some label"
      by (simp add: term_at_def cstring_def)
    have s: "same_but_bar k (put_segment (index r + 2) label k)" by (simp add: put_segment_def)
    then have "runqueue (put_segment (index r + 2) label k) = runqueue k" by (simp add: same_but_bar_def)
    then show ?thesis using that [OF s] True i o nx(1) by (simp add: bar_tasks.simps [of "Some t"])
  next
    case False
    then show ?thesis using that [of k] nx(1) by (auto simp: bar_tasks.simps [of "Some t"])
  qed
  have "dseg (tnx (runqueue k1)) pv (Some t) ts None" "\<forall>t \<in> set ts. bar_ok k1 t"
    using k1(1) nx(2) Cons.prems(2) bar_ok_cong [OF k1(1)] by (simp_all add: same_but_bar_def)
  from Cons.IH [OF this] show ?case using k1 same_but_bar_trans by fastforce
qed (subst bar_tasks.simps, simp)

lemma put_segments_same: "same_but_bar k (fold (\<lambda>i. put_segment (2 + i) xs) ns k)"
proof (induction ns arbitrary: k)
  case (Cons n ns)
  have "same_but_bar k (put_segment (2 + n) xs k)" by (simp add: put_segment_def)
  then show ?case using Cons.IH [of "put_segment (2 + n) xs k"] same_but_bar_trans by simp
qed simp

lemma set_status_bar_total:
  assumes "queued (runqueue k) ts" "\<forall>t \<in> set ts. bar_ok k t"
  obtains k' where "set_status_bar k = Some k'" "same_but_bar k k'"
proof -
  let ?k1 = "fold (\<lambda>i. put_segment (2 + i) (map of_char ''(none)'')) [0..<NUM_TERMINALS] k"
  have k1: "same_but_bar k ?k1" by (rule put_segments_same)
  then have q: "runqueue ?k1 = runqueue k" by (simp add: same_but_bar_def)
  have "dseg (tnx (runqueue ?k1)) (tpv (runqueue k)) None ts None" "q_head (runqueue ?k1) = first_of ts None" "\<forall>t \<in> set ts. bar_ok ?k1 t"
    using assms bar_ok_cong [OF k1] unfolding q queued_def by simp_all
  with bar_tasks_total obtain k2 where k2: "bar_tasks (q_head (runqueue ?k1)) ?k1 = Some k2" "same_but_bar ?k1 k2" by metis
  show ?thesis
    using that [of "on_status (\<lambda>st s. (st, write_status_bar st s)) k2"] k2 same_but_bar_trans [OF same_but_bar_trans [OF k1 k2(2)] on_status_bar]
    by (simp add: set_status_bar_def Let_def)
qed

section \<open>Ending a process\<close>

lemma bar_tasks_same: "bar_tasks tp k = Some k' \<Longrightarrow> same_but_bar k k'"
proof (rule bar_tasks.raw_induct [of "\<lambda>tp k k'. same_but_bar k k'"])
  fix loop :: "u32 option \<Rightarrow> kernel \<Rightarrow> kernel option" and tp k k'
  assume IH: "\<And>tp k k'. loop tp k = Some k' \<Longrightarrow> same_but_bar k k'"
    and b: "(case tp of
        None \<Rightarrow> Some k
      | Some t \<Rightarrow> do {
          let p = procs k (t_process (tasks (runqueue k) t));
          k1 \<leftarrow> (if t_status (tasks (runqueue k) t) = TaskActive \<and> p_terminal p \<noteq> None then do {
                   i \<leftarrow> p_terminal p;
                   r \<leftarrow> term_at i (ktty k);
                   name \<leftarrow> cstring (program p);
                   Some (put_segment (index r + 2) name k)
                 } else Some k);
          loop (t_next (tasks (runqueue k1) t)) k1
        }) = Some k'"
  show "same_but_bar k k'"
  proof (cases tp)
    case (Some t)
    then obtain k1 where "loop (t_next (tasks (runqueue k1) t)) k1 = Some k'" "k1 = k \<or> (\<exists>i x. k1 = put_segment i x k)"
      using b by (auto simp: Let_def Option.bind_eq_Some_conv split: if_splits)
    moreover have "same_but_bar k (put_segment i x k)" for i x by (simp add: put_segment_def)
    ultimately show ?thesis using IH same_but_bar_trans by blast
  qed (use b in simp)
qed

lemma set_status_bar_same:
  assumes "set_status_bar k = Some k'"
  shows "same_but_bar k k'"
proof -
  let ?k1 = "fold (\<lambda>i. put_segment (2 + i) (map of_char ''(none)'')) [0..<NUM_TERMINALS] k"
  obtain k2 where k2: "bar_tasks (q_head (runqueue ?k1)) ?k1 = Some k2" "k' = on_status (\<lambda>st s. (st, write_status_bar st s)) k2"
    using assms by (auto simp: set_status_bar_def Let_def Option.bind_eq_Some_conv)
  show ?thesis
    unfolding k2(2) using same_but_bar_trans [OF put_segments_same [of k] bar_tasks_same [OF k2(1)]] same_but_bar_trans on_status_bar by blast
qed

lemma halt_result:
  assumes "syscall_halt status k = Some (k', out)"
  shows "\<exists>p. p_parent (proc k) = Some p \<and> out = Jumps (ret_addr (procs k p)) False \<and> current_process k' = p \<and>
    ret_val (procs k' p) = ucast status \<and> page_pid (pages k') = p_pid (procs k p)"
proof -
  obtain p k2 k3 k4 where h: "p_parent (proc k) = Some p" "leave_terminal (current_process k) (set_current_process p k) = Some k2"
      "close_process (current_process k) k2 = Some k3" "set_status_bar k3 = Some k4"
      "k' = upd_proc (current_process k4) (\<lambda>r. r\<lparr>ret_val := ucast status\<rparr>) k4" "out = Jumps (ret_addr (procs k p)) False"
    using assms by (auto simp: syscall_halt_def Let_def Option.bind_eq_Some_conv)
  have k2: "procs k2 = procs k" "current_process k2 = p" "pages k2 = pages (set_current_process p k)"
    using h(2) by (auto simp: leave_terminal_def Let_def Option.bind_eq_Some_conv split: if_splits)
  have "procs k3 = procs k2" "current_process k3 = current_process k2" "pages k3 = pages k2"
    using h(3) by (auto simp: close_process_def free_task_def Option.bind_eq_Some_conv split: prod.splits)
  then show ?thesis using set_status_bar_same [OF h(4)] h k2 by (simp add: same_but_bar_def upd_proc_def)
qed

lemma close_process_total:
  assumes "queued (runqueue k) (xs @ t # ys)" "p_task (procs k p) = Some t" "heap (km k) free alloc"
  obtains q s where "close_process p k = Some (k\<lparr>runqueue := q, km := s\<rparr>)" "queued q (xs @ ys)" "same_tasks (runqueue k) q"
proof -
  obtain q where q: "remove_task (Some t) (runqueue k) = Some (q, Some t)" "queued q (xs @ ys)" "same_tasks (runqueue k) q"
    using queued_remove [OF assms(1)] by blast
  obtain s where "kfree t (km k) = Some s" using kmem.free_total [OF assms(3)] by blast
  then have "close_process p k = Some (k\<lparr>runqueue := q, km := s\<rparr>)" using q(1) assms(2) by (simp add: close_process_def free_task_def)
  then show ?thesis using that q(2,3) by blast
qed

lemma halt_effect:
  assumes "queued (runqueue k) (xs @ t # ys)" "p_task (proc k) = Some t" "p_parent (proc k) = Some p" "p_pid (procs k p) \<noteq> 0"
    and "heap (km k) free alloc" "\<forall>u \<in> set (xs @ ys). bar_ok k u"
  obtains k' where "syscall_halt status k = Some (k', Jumps (ret_addr (procs k p)) False)" "current_process k' = p"
    "page_pid (pages k') = p_pid (procs k p)" "esp0 k' = kernel_stack (procs k p)" "queued (runqueue k') (xs @ ys)"
    "same_tasks (runqueue k) (runqueue k')" "procs k' = (procs k)(p := (procs k p)\<lparr>ret_val := ucast status\<rparr>)"
    "terminals (ktty k') = terminals (ktty k)" "process_in_terminal k' = process_in_terminal k"
proof -
  let ?k1 = "set_current_process p k"
  obtain q s where c: "close_process (current_process k) ?k1 = Some (?k1\<lparr>runqueue := q, km := s\<rparr>)" "queued q (xs @ ys)" "same_tasks (runqueue k) q"
    by (rule close_process_total [of ?k1 xs t ys "current_process k" free alloc]) (use assms(1,2,5) in simp_all)
  let ?k3 = "?k1\<lparr>runqueue := q, km := s\<rparr>"
  have "bar_ok ?k3 u = bar_ok k u" for u using c(3) by (simp add: bar_ok_def same_tasks_def)
  then have "\<forall>u \<in> set (xs @ ys). bar_ok ?k3 u" using assms(6) by blast
  then obtain k4 where k4: "set_status_bar ?k3 = Some k4" "same_but_bar ?k3 k4" using set_status_bar_total [of ?k3 "xs @ ys"] c(2) by auto
  have b: "procs k4 = procs k" "current_process k4 = p" "pages k4 = pages ?k1" "esp0 k4 = kernel_stack (procs k p)" "runqueue k4 = q"
    "terminals (ktty k4) = terminals (ktty k)" "process_in_terminal k4 = process_in_terminal k"
    using k4(2) by (simp_all add: same_but_bar_def)
  have "syscall_halt status k = Some (upd_proc p (\<lambda>r. r\<lparr>ret_val := ucast status\<rparr>) k4, Jumps (ret_addr (procs k p)) False)"
    using assms(3,4) c(1) k4(1) b(2) by (simp add: syscall_halt_def leave_terminal_def Let_def)
  then show ?thesis using that [of "upd_proc p (\<lambda>r. r\<lparr>ret_val := ucast status\<rparr>) k4"] b c by (simp add: upd_proc_def)
qed

lemma activate_effect:
  assumes "tproc (runqueue k) t = p" "p_terminal (procs k p) = Some i" "i < length (terminals (ktty k))"
    and "index (terminals (ktty k) ! i) < length (process_in_terminal k)"
  obtains l where "activate_task t k =
    Some (k\<lparr>runqueue := upd_task t (\<lambda>r. r\<lparr>t_status := TaskActive\<rparr>) (runqueue k), process_in_terminal := l\<rparr>)"
  using assms that by (auto simp: activate_task_def Let_def term_at_def put_at_def tproc_def)

lemma queued_status: "queued (upd_task t (\<lambda>r. r\<lparr>t_status := x\<rparr>) q) ts = queued q ts"
  "tproc (upd_task t (\<lambda>r. r\<lparr>t_status := x\<rparr>) q) = tproc q" "tst (upd_task t (\<lambda>r. r\<lparr>t_status := x\<rparr>) q) = (tst q)(t := x)"
proof -
  have "tnx (upd_task t (\<lambda>r. r\<lparr>t_status := x\<rparr>) q) = tnx q" "tpv (upd_task t (\<lambda>r. r\<lparr>t_status := x\<rparr>) q) = tpv q"
    by (auto simp: task_fields fun_eq_iff)
  then show "queued (upd_task t (\<lambda>r. r\<lparr>t_status := x\<rparr>) q) ts = queued q ts" by (simp add: queued_def)
qed (auto simp: task_fields fun_eq_iff)

lemma restore_effect:
  assumes "queued (runqueue k) ts" "\<forall>u \<in> set ts. bar_ok k u" "p_task (proc k) = Some t" "tproc (runqueue k) t = current_process k"
    and "p_terminal (proc k) = Some i" "i < length (terminals (ktty k))" "index (terminals (ktty k) ! i) < length (process_in_terminal k)"
  obtains k' where "syscall_restore_regs k = Some (k', Returns (ret_val (proc k)))" "current_process k' = current_process k"
    "procs k' = procs k" "queued (runqueue k') ts" "tst (runqueue k') = (tst (runqueue k))(t := TaskActive)" "pages k' = pages k" "esp0 k' = esp0 k"
proof -
  obtain l where l: "activate_task t k = Some (k\<lparr>runqueue := upd_task t (\<lambda>r. r\<lparr>t_status := TaskActive\<rparr>) (runqueue k), process_in_terminal := l\<rparr>)"
    using activate_effect [OF assms(4-7)] by blast
  let ?k1 = "k\<lparr>runqueue := upd_task t (\<lambda>r. r\<lparr>t_status := TaskActive\<rparr>) (runqueue k), process_in_terminal := l\<rparr>"
  have "bar_ok ?k1 u = bar_ok k u" for u by (simp add: bar_ok_def queued_status)
  then obtain k' where k': "set_status_bar ?k1 = Some k'" "same_but_bar ?k1 k'"
    using set_status_bar_total [of ?k1 ts] assms(1,2) by (auto simp: queued_status)
  then show ?thesis
    using that [of k'] l assms(1,3) by (simp add: syscall_restore_regs_def same_but_bar_def queued_status)
qed

section \<open>The arguments\<close>

lemma cstring_str:
  assumes "cstring xs = Some a" "length a < 2 ^ 31" shows "str (list_reader xs) a"
proof -
  have a: "a = takeWhile (\<lambda>c. c \<noteq> 0) xs" "0 \<in> set xs" using assms(1) by (simp_all add: cstring_def split: if_splits)
  have "dropWhile (\<lambda>c. c \<noteq> 0) xs \<noteq> []" using a(2) by (auto simp: dropWhile_eq_Nil_conv)
  moreover have "length a + length (dropWhile (\<lambda>c. c \<noteq> 0) xs) = length xs"
    unfolding a(1) length_append [symmetric] takeWhile_dropWhile_id ..
  ultimately have l: "length a < length xs" by (cases "dropWhile (\<lambda>c. c \<noteq> 0) xs") simp_all
  have "list_reader xs (of_nat i) = xs ! i" if "i \<le> length a" for i using that assms(2) l by (simp add: list_reader_def unat_of_nat_u32)
  moreover have "xs ! length a = 0" using l nth_length_takeWhile [of "\<lambda>c. c \<noteq> 0" xs] by (simp add: a(1))
  moreover have "a ! i = xs ! i" if "i < length a" for i using that by (simp add: a(1) takeWhile_nth)
  moreover have "0 \<notin> set a" using set_takeWhileD [of 0 "\<lambda>c. c \<noteq> 0" xs] by (auto simp: a(1))
  ultimately show ?thesis using l assms(2) by (simp add: str_def)
qed

lemma syscall_getargs_stores:
  assumes "cstring (args (proc k)) = Some a" "length a < 2 ^ 31" "a \<noteq> []"
  shows "syscall_getargs buf nbytes k =
    Some (set_mem (store_bytes (mem k) buf (take (unat nbytes) a @ replicate (unat nbytes - length a) 0)) k, 0)"
  using assms strncpy_from_bytes [OF cstring_str [OF assms(1,2)]] by (simp add: syscall_getargs_def)

lemma stored_str:
  assumes "str r a" "length a < n" "n < 2 ^ 32"
  shows "str (at (store_bytes m buf (take n a @ replicate (n - length a) 0)) buf) a"
proof -
  let ?bs = "take n a @ replicate (n - length a) 0"
  have "store_bytes m buf ?bs (buf + of_nat i) = ?bs ! i" if "i < n" for i using that assms(2,3) by (intro store_bytes_at) simp_all
  then show ?thesis using assms(1,2) by (simp add: str_def at_def nth_append)
qed

section \<open>Properties\<close>

text \<open>
  C8. The return from a program: when a process halts with a status, the processor continues in
  its parent, which waits in \<open>execute\<close> with its own pages and kernel stack; the parent's
  \<open>execute\<close> returns the status, zero-extended from a byte; the task of the process that ended is
  gone from the run queue, the others are there in the same order, and the parent's is active.
\<close>

theorem halt_resumes_parent:
  assumes "queued (runqueue k) (xs @ t # ys)" "p_task (proc k) = Some t" "p_parent (proc k) = Some p" "p_pid (procs k p) \<noteq> 0"
    and "heap (km k) free alloc" "\<forall>u \<in> set (xs @ ys). bar_ok k u" "ret_addr (procs k p) = Syscall_restore_regs"
    and "p_task (procs k p) = Some u" "tproc (runqueue k) u = p" "p_terminal (procs k p) = Some i" "i < length (terminals (ktty k))"
    and "index (terminals (ktty k) ! i) < length (process_in_terminal k)"
  shows "\<exists>k1 k2. syscall_halt status k = Some (k1, Jumps Syscall_restore_regs False) \<and>
    syscall_restore_regs k1 = Some (k2, Returns (ucast status)) \<and> current_process k2 = p \<and>
    page_pid (pages k2) = p_pid (procs k p) \<and> esp0 k2 = kernel_stack (procs k p) \<and>
    queued (runqueue k2) (xs @ ys) \<and> tst (runqueue k2) = (tst (runqueue k))(u := TaskActive) \<and>
    (\<forall>q. q \<noteq> p \<longrightarrow> procs k2 q = procs k q)"
proof -
  obtain k1 where k1: "syscall_halt status k = Some (k1, Jumps Syscall_restore_regs False)" "current_process k1 = p"
    "page_pid (pages k1) = p_pid (procs k p)" "esp0 k1 = kernel_stack (procs k p)" "queued (runqueue k1) (xs @ ys)"
    "same_tasks (runqueue k) (runqueue k1)" "procs k1 = (procs k)(p := (procs k p)\<lparr>ret_val := ucast status\<rparr>)"
    "terminals (ktty k1) = terminals (ktty k)" "process_in_terminal k1 = process_in_terminal k"
    using halt_effect [OF assms(1-6), of status] assms(7) by metis
  have "bar_ok k1 v = bar_ok k v" for v
    using k1(6-8) by (auto simp: bar_ok_def same_tasks_def)
  then have "\<forall>v \<in> set (xs @ ys). bar_ok k1 v" using assms(6) by blast
  moreover have "p_task (proc k1) = Some u" "tproc (runqueue k1) u = current_process k1" "p_terminal (proc k1) = Some i"
    using k1(2,6,7) assms(8-10) by (simp_all add: same_tasks_def)
  ultimately obtain k2 where k2: "syscall_restore_regs k1 = Some (k2, Returns (ret_val (proc k1)))" "current_process k2 = current_process k1"
    "procs k2 = procs k1" "queued (runqueue k2) (xs @ ys)" "tst (runqueue k2) = (tst (runqueue k1))(u := TaskActive)" "pages k2 = pages k1" "esp0 k2 = esp0 k1"
    using restore_effect [OF k1(5), of u i] assms(11,12) k1(8,9) by metis
  then show ?thesis using k1 by (auto simp: same_tasks_def)
qed

definition child_kernel :: kernel where
  "child_kernel = plain_kernel\<lparr>km := init_mem boot_regions, runqueue := two_tasks, current_process := 2,
     procs := plain_process(1 := (plain_process 1)\<lparr>p_task := Some 16, ret_addr := Syscall_restore_regs\<rparr>,
       2 := (plain_process 2)\<lparr>p_task := Some 32, p_parent := Some 1\<rparr>)\<rparr>"

lemma child_kernel_simps [simp]:
  "km child_kernel = init_mem boot_regions" "runqueue child_kernel = two_tasks" "current_process child_kernel = 2"
  "procs child_kernel (Suc 0) = (plain_process 1)\<lparr>p_task := Some 16, ret_addr := Syscall_restore_regs\<rparr>"
  "procs child_kernel 2 = (plain_process 2)\<lparr>p_task := Some 32, p_parent := Some 1\<rparr>" "ktty child_kernel = fresh_tty"
  "length (process_in_terminal child_kernel) = 10"
  by (simp_all add: child_kernel_def plain_kernel_def)

theorem halt_resumes_parent_witness:
  "\<exists>k1 k2. syscall_halt 7 child_kernel = Some (k1, Jumps Syscall_restore_regs False) \<and>
     syscall_restore_regs k1 = Some (k2, Returns 7) \<and> current_process k2 = 1 \<and> queued (runqueue k2) [16]"
proof -
  have t: "length (terminals fresh_tty) = 1" "index (terminals fresh_tty ! 0) = 0" by (simp_all add: fresh_tty_def fresh_terminal_def)
  have "tproc two_tasks 16 = 1" by (simp add: two_tasks_def tproc_def)
  moreover from this have "bar_ok child_kernel 16"
    using t by (simp add: bar_ok_def) (simp add: plain_process_def)
  ultimately show ?thesis
    using halt_resumes_parent [of child_kernel "[16]" 32 "[]" 1 "[(MB 192, MB 24)]" "[]" 16 0 7] two_tasks_queued boot_heap t
    by (auto simp: plain_process_def)
qed

text \<open>
  C21. \<open>vidmap\<close>: a pointer outside of the process's own 4MB page is refused and nothing changes.
  Otherwise the process finds at that pointer the address 256MB, where its own page tables then
  have the video memory, byte for byte and open to user code; no other process's translation
  changes. The last four bytes of the page, a place an address would fit in, are refused too.
\<close>

theorem vidmap_maps_video:
  assumes "pt_base (pages k) AND mask 12 = 0" "p_pid (proc k) = pid" "syscall_vidmap screen_start k = (k', r)"
  shows "if of_nat (MB 128) \<le> screen_start \<and> screen_start < of_nat (MB 132) - 4
    then r = 0 \<and> load32 (mem k') screen_start = 0x10000000 \<and> vidmap_flag (proc k') \<and>
      (off < 0x1000 \<longrightarrow> walk (pages k') pid (0x10000000 + off) = Some (0xB8000 + off, True)) \<and>
      (q \<noteq> pid \<longrightarrow> walk (pages k') q v = walk (pages k) q v)
    else r = - 1 \<and> k' = k"
proof (cases "of_nat (MB 128) \<le> screen_start \<and> screen_start < of_nat (MB 132) - 4")
  case True
  let ?p = "map_4kb_page 0xB8000 0x10000000 pid UserPrivilege 1 (pages k)"
  have k': "r = 0" "pages k' = ?p" "mem k' = store32 (mem k) screen_start 0x10000000" "vidmap_flag (proc k')"
    using True assms(2,3) by (auto simp: syscall_vidmap_def Let_def not_less [symmetric] upd_proc_def set_mem_def mem_def)
  have w: "walk ?p pid (0x10000000 + off) = Some (0xB8000 + off, True)" if "off < 0x1000"
  proof -
    have o: "unat off < 4096" using that by (simp add: word_less_nat_alt)
    then have u: "unat (0x10000000 + off) = 0x10000000 + unat off" by (simp add: unat_word_ariths)
    have i: "unat ((0x10000000 + off) div 0x400000) = 64" "unat ((0x10000000 + off) mod 0x400000 div 0x1000) = 0"
      using o unfolding unat_div unat_mod u by (simp_all add: div_add1_eq [of "0x10000000"] mod_add_eq [of "0x10000000", symmetric])
    have t: "table_at ?p pid (pt_addr (pages k) pid 1) = Some 1" by (simp add: table_at_def) (simp add: pt_addr_def)
    have m: "(0x10000000 + off) AND mask 12 = off" "(0xB8000 :: u32) AND NOT (mask 12) = 0xB8000"
    proof -
      have "(0x10000000 + unat off) mod 4096 = unat off" using o mod_add_left_eq [of "0x10000000" 4096 "unat off"] by simp
      then have "unat ((0x10000000 + off) AND mask 12) = unat off" using u by (simp add: take_bit_eq_mod unat_mod flip: take_bit_eq_mask)
      then show "(0x10000000 + off) AND mask 12 = off" by (simp add: word_unat_eq_iff)
      show "(0xB8000 :: u32) AND NOT (mask 12) = 0xB8000" by (simp add: mask_eq_exp_minus_1)
    qed
    have "(0xB8000 :: u32) AND off = 0"
    proof -
      have "((0xB8000 :: u32) AND NOT (mask 12)) AND ((0x10000000 + off) AND mask 12) = 0" by (rule bit_word_eqI) (auto simp: bit_simps)
      then show ?thesis unfolding m .
    qed
    then have "0xB8000 OR off = 0xB8000 + off" by (simp add: disjunctive_add_eq_or)
    then show ?thesis
      using t m pt_addr_aligned [OF assms(1), of pid 1] by (simp add: walk_def i Let_def bit_entry entry_page)
  qed
  have "walk ?p q v = walk (pages k) q v" if "q \<noteq> pid" using that by (intro walk_cong) simp_all
  then show ?thesis using True k' w by (simp add: load32_store32)
next
  case False
  then show ?thesis using assms(3) by (auto simp: syscall_vidmap_def not_less [symmetric] Let_def)
qed

theorem vidmap_maps_video_witness:
  "walk (pages (fst (syscall_vidmap 0x8000000 plain_kernel))) 1 0x10000002 = Some (0xB8002, True)"
proof -
  have "pt_base (pages plain_kernel) AND mask 12 = 0" by (simp add: plain_kernel_def blank_tables_def flip: take_bit_eq_mask)
  moreover have "p_pid (proc plain_kernel) = 1" by (simp add: plain_kernel_def plain_process_def)
  ultimately show ?thesis
    using vidmap_maps_video [of plain_kernel 1 "0x8000000" _ _ 2] by (cases "syscall_vidmap 0x8000000 plain_kernel") simp
qed

text \<open>
  C38. \<open>getargs\<close> gives a program the arguments of its command line, as the two loops of
  \<open>strncpy\<close> leave them: it fails and changes nothing when there are none; otherwise it returns 0
  and exactly \<open>nbytes\<close> bytes of the buffer are written. When the buffer is longer than the arguments
  it then holds them as a string, and zeros to its end; when it is not, it holds their first
  \<open>nbytes\<close> characters and no NUL, and the call still returns 0. No other byte of memory changes.
\<close>

theorem getargs_gives_arguments:
  assumes "cstring (args (proc k)) = Some a" "length (args (proc k)) = 100"
  shows "if a = [] then syscall_getargs buf nbytes k = Some (k, - 1)
    else \<exists>m. syscall_getargs buf nbytes k = Some (set_mem m k, 0) \<and>
      (if length a < unat nbytes then str (at m buf) a \<and> bytes m buf (unat nbytes) = a @ replicate (unat nbytes - length a) 0
       else bytes m buf (unat nbytes) = take (unat nbytes) a \<and> 0 \<notin> set (bytes m buf (unat nbytes))) \<and>
      (\<forall>x. x \<notin> span buf (unat nbytes) \<longrightarrow> m x = mem k x)"
proof (cases "a = []")
  case False
  let ?n = "unat nbytes" and ?bs = "take (unat nbytes) a @ replicate (unat nbytes - length a) 0"
  have la: "length a < 2 ^ 31"
    using assms length_takeWhile_le [of "\<lambda>c. c \<noteq> 0" "args (proc k)"] by (auto simp: cstring_def split: if_splits)
  obtain m where m: "syscall_getargs buf nbytes k = Some (set_mem m k, 0)" "m = store_bytes (mem k) buf ?bs"
    using syscall_getargs_stores [OF assms(1) la False] by blast
  have s: "str (list_reader (args (proc k))) a" using assms(1) la by (rule cstring_str)
  have l: "length ?bs = ?n" by simp
  have u: "?n < 2 ^ 32" using unat_u32_less [of nbytes] by simp
  have b: "bytes m buf ?n = ?bs" using bytes_store_bytes [of ?bs "mem k" buf] u unfolding l m(2) by simp
  have "0 \<notin> set (take ?n a)" using s by (auto simp: str_def dest: in_set_takeD)
  moreover have "str (at m buf) a" if "length a < ?n" using that s b u unfolding m(2) by (intro stored_str) auto
  moreover have "m x = mem k x" if "x \<notin> span buf ?n" for x using that store_bytes_outside [of x buf ?bs "mem k"] unfolding l m(2) by blast
  ultimately show ?thesis using False m(1) b by auto
qed (use assms in \<open>simp add: syscall_getargs_def\<close>)

definition args_kernel :: kernel where
  "args_kernel = plain_kernel\<lparr>procs := (\<lambda>p. (plain_process p)\<lparr>args := [97, 98, 99] @ replicate 97 0\<rparr>)\<rparr>"

theorem getargs_gives_arguments_witness:
  "syscall_getargs 0x5000 10 plain_kernel = Some (plain_kernel, - 1) \<and>
   (\<exists>m. syscall_getargs 0x5000 5 args_kernel = Some (set_mem m args_kernel, 0) \<and> bytes m 0x5000 5 = [97, 98, 99, 0, 0]) \<and>
   (\<exists>m. syscall_getargs 0x5000 2 args_kernel = Some (set_mem m args_kernel, 0) \<and> bytes m 0x5000 2 = [97, 98])"
proof (intro conjI)
  have "cstring (args (proc plain_kernel)) = Some []" "length (args (proc plain_kernel)) = 100"
    by (simp_all add: plain_kernel_def plain_process_def cstring_def)
  from getargs_gives_arguments [OF this, of "0x5000" 10] show "syscall_getargs 0x5000 10 plain_kernel = Some (plain_kernel, - 1)" by simp
  have a: "cstring (args (proc args_kernel)) = Some [97, 98, 99]" "length (args (proc args_kernel)) = 100"
    by (simp_all add: args_kernel_def cstring_def)
  have r: "replicate 2 (0 :: u8) = [0, 0]" by (simp add: numeral_2_eq_2)
  show "\<exists>m. syscall_getargs 0x5000 5 args_kernel = Some (set_mem m args_kernel, 0) \<and> bytes m 0x5000 5 = [97, 98, 99, 0, 0]"
    using getargs_gives_arguments [OF a, of "0x5000" 5] r by auto
  show "\<exists>m. syscall_getargs 0x5000 2 args_kernel = Some (set_mem m args_kernel, 0) \<and> bytes m 0x5000 2 = [97, 98]"
    using getargs_gives_arguments [OF a, of "0x5000" 2] by auto
qed

end
