(* ===== verification/Exceptions.thy ===== *)
theory Exceptions
  imports Syscalls
begin

text \<open>
  The exception handlers of \<^verbatim>\<open>lib.c\<close>: each clears the screen, prints what happened and ends
  the process with the status 255; the page fault leaves the screen and prints the address the
  processor reports in CR2.
\<close>

section \<open>Handlers\<close>

definition ex_report :: "memory \<Rightarrow> string \<Rightarrow> printf_arg list \<Rightarrow> kernel \<Rightarrow> (kernel \<times> outcome) option" where
  "ex_report stk message vals k = do {
     k1 \<leftarrow> on_tty (\<lambda>t. map_option fst (printf stk (ascii message) vals t)) k;
     syscall_halt 0xFF k1
   }"

definition ex_divide_error :: "memory \<Rightarrow> kernel \<Rightarrow> (kernel \<times> outcome) option" where
  "ex_divide_error stk k = ex_report stk (''EXCEPTION 0: Divide-by-Zero Error, or infinity... not sure which'' @ [CHR 0x0A]) [] (on_screen clear k)"

definition ex_debug :: "memory \<Rightarrow> kernel \<Rightarrow> (kernel \<times> outcome) option" where
  "ex_debug stk k = ex_report stk (''EXCEPTION 1: Debug'' @ [CHR 0x0A]) [] (on_screen clear k)"

definition ex_NMI :: "memory \<Rightarrow> kernel \<Rightarrow> (kernel \<times> outcome) option" where
  "ex_NMI stk k = ex_report stk (''EXCEPTION 2: NMI Interrupt'' @ [CHR 0x0A]) [] (on_screen clear k)"

definition ex_breakpoint :: "memory \<Rightarrow> kernel \<Rightarrow> (kernel \<times> outcome) option" where
  "ex_breakpoint stk k = ex_report stk (''EXCEPTION 3: Breakpoint'' @ [CHR 0x0A]) [] (on_screen clear k)"

definition ex_overflow :: "memory \<Rightarrow> kernel \<Rightarrow> (kernel \<times> outcome) option" where
  "ex_overflow stk k = ex_report stk (''EXCEPTION 4: Overflow'' @ [CHR 0x0A]) [] (on_screen clear k)"

definition ex_bound_range :: "memory \<Rightarrow> kernel \<Rightarrow> (kernel \<times> outcome) option" where
  "ex_bound_range stk k = ex_report stk (''EXCEPTION 5: BOUND Range Exceeded'' @ [CHR 0x0A]) [] (on_screen clear k)"

definition ex_invalid_op :: "memory \<Rightarrow> kernel \<Rightarrow> (kernel \<times> outcome) option" where
  "ex_invalid_op stk k = ex_report stk (''EXCEPTION 6: Invalid Opcode'' @ [CHR 0x0A]) [] (on_screen clear k)"

definition ex_device_na :: "memory \<Rightarrow> kernel \<Rightarrow> (kernel \<times> outcome) option" where
  "ex_device_na stk k = ex_report stk (''EXCEPTION 7: Device Not Available'' @ [CHR 0x0A]) [] (on_screen clear k)"

definition ex_double_fault :: "memory \<Rightarrow> kernel \<Rightarrow> (kernel \<times> outcome) option" where
  "ex_double_fault stk k = ex_report stk (''EXCEPTION 8: Double Fault'' @ [CHR 0x0A]) [] (on_screen clear k)"

definition ex_segment_overrun :: "memory \<Rightarrow> kernel \<Rightarrow> (kernel \<times> outcome) option" where
  "ex_segment_overrun stk k = ex_report stk (''EXCEPTION 9: CoProcessor Segment Overrun'' @ [CHR 0x0A]) [] (on_screen clear k)"

definition ex_invalid_TSS :: "memory \<Rightarrow> kernel \<Rightarrow> (kernel \<times> outcome) option" where
  "ex_invalid_TSS stk k = ex_report stk (''EXCEPTION 10: Invalid TSS'' @ [CHR 0x0A]) [] (on_screen clear k)"

definition ex_no_segment :: "memory \<Rightarrow> kernel \<Rightarrow> (kernel \<times> outcome) option" where
  "ex_no_segment stk k = ex_report stk (''EXCEPTION 11: Segment Not Present'' @ [CHR 0x0A]) [] (on_screen clear k)"

definition ex_seg_fault :: "memory \<Rightarrow> kernel \<Rightarrow> (kernel \<times> outcome) option" where
  "ex_seg_fault stk k = ex_report stk (''EXCEPTION 12: Stack Segment Fault'' @ [CHR 0x0A]) [] (on_screen clear k)"

definition ex_gen_protection :: "memory \<Rightarrow> kernel \<Rightarrow> (kernel \<times> outcome) option" where
  "ex_gen_protection stk k = ex_report stk (''EXCEPTION 13: General Protection Fault'' @ [CHR 0x0A]) [] (on_screen clear k)"

definition ex_page_fault :: "memory \<Rightarrow> u32 \<Rightarrow> kernel \<Rightarrow> (kernel \<times> outcome) option" where
  "ex_page_fault stk cr2 k =
     ex_report stk (''EXCEPTION 14: Page Fault'' @ [CHR 0x0A] @ ''Attempted to Access Memory at: 0x%#x'' @ [CHR 0x0A]) [Word_arg cr2] k"

definition ex_reserved :: "memory \<Rightarrow> kernel \<Rightarrow> (kernel \<times> outcome) option" where
  "ex_reserved stk k = ex_report stk (''EXCEPTION: Reserved'' @ [CHR 0x0A]) [] (on_screen clear k)"

definition ex_float_pt_err :: "memory \<Rightarrow> kernel \<Rightarrow> (kernel \<times> outcome) option" where
  "ex_float_pt_err stk k = ex_report stk (''EXCEPTION 16: Floating Point Error'' @ [CHR 0x0A]) [] (on_screen clear k)"

definition ex_align_check :: "memory \<Rightarrow> kernel \<Rightarrow> (kernel \<times> outcome) option" where
  "ex_align_check stk k = ex_report stk (''EXCEPTION 17: Alignment Check'' @ [CHR 0x0A]) [] (on_screen clear k)"

definition ex_machine_check :: "memory \<Rightarrow> kernel \<Rightarrow> (kernel \<times> outcome) option" where
  "ex_machine_check stk k = ex_report stk (''EXCEPTION 18: Machine Check'' @ [CHR 0x0A]) [] (on_screen clear k)"

definition ex_SIMD_float_pt :: "memory \<Rightarrow> kernel \<Rightarrow> (kernel \<times> outcome) option" where
  "ex_SIMD_float_pt stk k = ex_report stk (''EXCEPTION 19: SIMD Floating-Point'' @ [CHR 0x0A]) [] (on_screen clear k)"

section \<open>What a handler does\<close>

lemma ex_report_halts:
  assumes "ex_report stk message vals k = Some (k', out)"
  shows "\<exists>p. p_parent (proc k) = Some p \<and> out = Jumps (ret_addr (procs k p)) False \<and> current_process k' = p \<and>
    ret_val (procs k' p) = 255 \<and> page_pid (pages k') = p_pid (procs k p)"
proof -
  obtain k1 t where k1: "k1 = put_tty t k" "syscall_halt 0xFF k1 = Some (k', out)"
    using assms by (auto simp: ex_report_def on_tty_def Option.bind_eq_Some_conv)
  from halt_result [OF k1(2)] show ?thesis unfolding k1(1) by simp
qed

section \<open>Properties\<close>

text \<open>
  No exception of a process stops the kernel: a page fault, whatever the address, ends just
  the process that caused it, and the processor continues where the parent waits, with the
  parent's pages and the status 255.
\<close>

theorem page_fault_ends_process:
  assumes "ex_page_fault stk cr2 k = Some (k', out)"
  shows "\<exists>p. p_parent (proc k) = Some p \<and> out = Jumps (ret_addr (procs k p)) False \<and> current_process k' = p \<and>
    ret_val (procs k' p) = 255 \<and> page_pid (pages k') = p_pid (procs k p)"
  using assms unfolding ex_page_fault_def by (rule ex_report_halts)

end
