(* ===== verification/Pit.thy ===== *)
theory Pit
  imports Process
begin

text \<open>
  The interval timer of \<^verbatim>\<open>pit.c\<close> and its interrupt, which drives the scheduler. The timer
  is the bytes written to its ports, oldest first.
\<close>

section \<open>Operations\<close>

definition PIT_MAX_FREQ :: int where "PIT_MAX_FREQ = 1193182"

definition PIT_MIN_FREQ :: int where "PIT_MIN_FREQ = 19"

definition PIT_CMD_PORT :: u16 where "PIT_CMD_PORT = 0x43"

definition PIT_DATA_PORT :: "int \<Rightarrow> u16" where "PIT_DATA_PORT channel = 0x40 + of_int channel"

definition pit_outb :: "u8 \<Rightarrow> u16 \<Rightarrow> kernel \<Rightarrow> kernel" where
  "pit_outb data port k = k\<lparr>pit_ports := pit_ports k @ [(port, data)]\<rparr>"

definition clock_do :: "(rtc \<Rightarrow> rtc) \<Rightarrow> kernel \<Rightarrow> kernel" where
  "clock_do f k = (case on_clock (\<lambda>c. Some (f c, ())) k of None \<Rightarrow> k | Some (k1, _) \<Rightarrow> k1)"

text \<open>\<open>rate\<close> and \<open>data\<close> are of type \<^verbatim>\<open>short\<close>; only their bits matter.\<close>

definition pit_rate :: "int \<Rightarrow> u16" where
  "pit_rate freq =
     (if freq < PIT_MIN_FREQ then 0
      else if freq > PIT_MAX_FREQ then 2
      else of_int ((PIT_MAX_FREQ + freq div 2) div freq))"

definition pit_config :: "int \<Rightarrow> int \<Rightarrow> int \<Rightarrow> kernel \<Rightarrow> kernel \<times> int" where
  "pit_config channel mode freq k =
     (if channel \<noteq> 0 \<and> channel \<noteq> 2 then (k, - 1)
      else if mode \<noteq> 2 \<and> mode \<noteq> 3 then (k, - 1)
      else
        let rate = pit_rate freq;
            data = push_bit 6 (of_int channel) OR 0x30 OR push_bit 1 (of_int mode) :: u16;
            k1 = pit_outb (ucast data) PIT_CMD_PORT (clock_do NMI_disable k);
            k2 = pit_outb (ucast rate) (PIT_DATA_PORT channel) k1;
            k3 = pit_outb (ucast (drop_bit 8 rate)) (PIT_DATA_PORT channel) k2
        in (clock_do NMI_enable k3, 0))"

definition timer_start :: "int \<Rightarrow> kernel \<Rightarrow> kernel \<times> int" where
  "timer_start freq k = pit_config 0 2 freq k"

text \<open>The wait for the next tick: each turn of the loop is what other tasks and interrupts do.\<close>

fun pit_wait :: "(kernel \<Rightarrow> kernel) list \<Rightarrow> kernel \<Rightarrow> kernel option" where
  "pit_wait [] k = (if pit_interrupt_occurred k then Some k else None)"
| "pit_wait (f # fs) k = (if pit_interrupt_occurred k then Some k else pit_wait fs (f k))"

definition pit_read :: "(kernel \<Rightarrow> kernel) list \<Rightarrow> kernel \<Rightarrow> kernel option" where
  "pit_read turns k =
     (let k1 = k\<lparr>cflags := cli (cflags k), pit_interrupt_occurred := False\<rparr>
      in pit_wait turns (k1\<lparr>cflags := sti (cflags k1)\<rparr>))"

definition pit_handler :: "kernel \<Rightarrow> (kernel \<times> jump) option" where
  "pit_handler k = reschedule (k\<lparr>pit_interrupt_occurred := True, irqs := send_eoi 0 (irqs k)\<rparr>)"

section \<open>Lemmas\<close>

lemma clock_do_keeps [simp]:
  "pit_ports (clock_do f k) = pit_ports k" "pit_interrupt_occurred (clock_do f k) = pit_interrupt_occurred k"
  "procs (clock_do f k) = procs k" "current_process (clock_do f k) = current_process k" "runqueue (clock_do f k) = runqueue k"
  by (simp_all add: clock_do_def on_clock_def)

text \<open>The count the timer divides its clock by: 16 bits, and 0 stands for 65536.\<close>

definition divisor :: "port_log \<Rightarrow> int \<Rightarrow> int" where
  "divisor l channel = (let n = int (byte_pair (written l (PIT_DATA_PORT channel))) in if n = 0 then 65536 else n)"

lemma u16_bytes: "unat (ucast r :: u8) + 256 * unat (ucast (drop_bit 8 r) :: u8) = unat r" for r :: u16
proof -
  have "unat r < 2 ^ LENGTH(16)" by (rule unsigned_less)
  then have "unat r div 256 mod 256 = unat r div 256" by (simp add: less_mult_imp_div_less)
  then show ?thesis by (simp add: unsigned_ucast_eq take_bit_eq_mod drop_bit_eq_div unat_div)
qed

lemma pit_config_log:
  assumes "channel = 0 \<or> channel = 2" "mode = 2 \<or> mode = 3"
  shows "pit_ports (fst (pit_config channel mode freq k)) = pit_ports k @
      [(PIT_CMD_PORT, ucast (push_bit 6 (of_int channel) OR 0x30 OR push_bit 1 (of_int mode) :: u16)),
       (PIT_DATA_PORT channel, ucast (pit_rate freq)), (PIT_DATA_PORT channel, ucast (drop_bit 8 (pit_rate freq)))]"
    and "snd (pit_config channel mode freq k) = 0"
  using assms by (auto simp: pit_config_def Let_def pit_outb_def)

lemma nearest_quotient:
  fixes m f :: int
  assumes "0 < f"
  shows "2 * \<bar>(m + f div 2) div f * f - m\<bar> \<le> f"
proof -
  let ?x = "m + f div 2"
  have e: "?x div f * f = ?x - ?x mod f" by (simp add: minus_mod_eq_div_mult)
  have "0 \<le> ?x mod f" "?x mod f < f" using assms by simp_all
  moreover have "2 * (f div 2) \<le> f" "f \<le> 2 * (f div 2) + 1" by linarith+
  ultimately show ?thesis unfolding e abs_if by (simp split: if_split; linarith)
qed

lemma quotient_bound:
  fixes q f :: int
  assumes "19 \<le> f" "2 * \<bar>q * f - 1193182\<bar> \<le> f"
  shows "q < 65536"
proof (rule ccontr)
  assume "\<not> q < 65536"
  then have "65536 * f \<le> q * f" using assms(1) by (intro mult_right_mono) simp_all
  moreover have "2 * (q * f - 1193182) \<le> f" by (rule order_trans [OF mult_left_mono [OF abs_ge_self] assms(2)]) simp
  moreover have False if "65536 * f \<le> x" "2 * (x - 1193182) \<le> f" for x using that assms(1) by simp
  ultimately show False by blast
qed

section \<open>Properties\<close>

text \<open>
  C37. The timer is programmed with the rate asked for: for a channel and a mode the driver
  supports and every frequency from 19 to 1193182 Hz, the two data bytes, low byte first, are the
  divisor whose product with the frequency is nearest to the timer's clock, without loss in the
  16 bits; a lower frequency gives the lowest rate there is, a divisor of 65536.
\<close>

theorem pit_config_divisor:
  assumes "channel = 0 \<or> channel = 2" "mode = 2 \<or> mode = 3" "pit_ports k = []"
  shows "let d = divisor (pit_ports (fst (pit_config channel mode freq k))) channel in
    (if freq < PIT_MIN_FREQ then d = 65536
     else if freq \<le> PIT_MAX_FREQ then 2 * \<bar>d * freq - PIT_MAX_FREQ\<bar> \<le> freq else d = 2)"
proof -
  have "PIT_CMD_PORT \<noteq> PIT_DATA_PORT channel" using assms(1) by (auto simp: PIT_CMD_PORT_def PIT_DATA_PORT_def)
  then have p: "byte_pair (written (pit_ports (fst (pit_config channel mode freq k))) (PIT_DATA_PORT channel)) = unat (pit_rate freq)"
    using pit_config_log(1) [OF assms(1,2), of freq k] u16_bytes [of "pit_rate freq"] assms(3) by (simp add: byte_pair_def)
  show ?thesis
  proof (cases "PIT_MIN_FREQ \<le> freq \<and> freq \<le> PIT_MAX_FREQ")
    case True
    let ?q = "(PIT_MAX_FREQ + freq div 2) div freq"
    have f: "19 \<le> freq" "freq \<le> 1193182" using True by (simp_all add: PIT_MIN_FREQ_def PIT_MAX_FREQ_def)
    have n: "2 * \<bar>?q * freq - PIT_MAX_FREQ\<bar> \<le> freq" using nearest_quotient f by simp
    have q1: "1 \<le> ?q" using f by (simp add: PIT_MAX_FREQ_def pos_imp_zdiv_pos_iff int_one_le_iff_zero_less)
    have "?q < 65536" by (rule quotient_bound [OF f(1)]) (use n in \<open>simp add: PIT_MAX_FREQ_def\<close>)
    then have "int (unat (pit_rate freq)) = ?q"
      using True q1 by (simp add: pit_rate_def unsigned_of_int take_bit_int_eq_self)
    then show ?thesis using p True n q1 by (simp add: divisor_def)
  next
    case False
    then show ?thesis using p by (auto simp: divisor_def pit_rate_def Let_def PIT_MIN_FREQ_def PIT_MAX_FREQ_def)
  qed
qed

theorem pit_config_divisor_witness: "2 * \<bar>divisor (pit_ports (fst (pit_config 0 2 20 plain_kernel))) 0 * 20 - 1193182\<bar> \<le> 20"
  using pit_config_divisor [of 0 2 plain_kernel 20] by (simp add: PIT_MIN_FREQ_def PIT_MAX_FREQ_def plain_kernel_def Let_def)

end
