(* ===== verification/Interrupt.thy ===== *)
theory Interrupt
  imports Pic
begin

text \<open>
  The interrupt descriptor table set up by \<^verbatim>\<open>init_interrupts\<close> of \<^verbatim>\<open>interrupt.c\<close>. Handlers
  are named; where the linker puts them is the argument \<open>addr\<close>.
\<close>

section \<open>Descriptors\<close>

datatype handler =
    Test_interrupts | Ex_reserved | Ex_divide_error | Ex_debug | Ex_NMI | Ex_breakpoint | Ex_overflow | Ex_bound_range
  | Ex_invalid_op | Ex_device_na | Ex_double_fault | Ex_segment_overrun | Ex_invalid_TSS | Ex_no_segment | Ex_seg_fault
  | Ex_gen_protection | Ex_page_fault | Ex_float_pt_err | Ex_align_check | Ex_machine_check | Ex_SIMD_float_pt
  | Keypress_handler | Rtc_handler | Pit_handler | Mouse_handler | Sb16_handler | Fdc_handler | Syscall_handler

record idt_desc =
  offset_15_00 :: u16
  seg_selector :: u16
  reserved4 :: u8
  reserved3 :: bool
  reserved2 :: bool
  reserved1 :: bool
  gate_size :: bool
  reserved0 :: bool
  dpl :: nat
  present :: bool
  offset_31_16 :: u16

definition KERNEL_CS :: u16 where
  "KERNEL_CS = 0x10"

definition SET_IDT_ENTRY :: "u32 \<Rightarrow> idt_desc \<Rightarrow> idt_desc" where
  "SET_IDT_ENTRY h d = d\<lparr>offset_31_16 := ucast (drop_bit 16 (h AND 0xFFFF0000)), offset_15_00 := ucast (h AND 0xFFFF)\<rparr>"

type_synonym idt = "nat \<Rightarrow> idt_desc"

definition set_entries :: "nat list \<Rightarrow> idt_desc \<Rightarrow> idt \<Rightarrow> idt" where
  "set_entries is d t = fold (\<lambda>i t. t(i := d)) is t"

definition set_handler_at :: "(handler \<Rightarrow> u32) \<Rightarrow> nat \<times> handler \<Rightarrow> idt \<Rightarrow> idt" where
  "set_handler_at addr = (\<lambda>(i, h) t. t(i := SET_IDT_ENTRY (addr h) (t i)))"

section \<open>Setting up the table\<close>

definition interrupt_gate :: "(handler \<Rightarrow> u32) \<Rightarrow> handler \<Rightarrow> idt_desc" where
  "interrupt_gate addr h = SET_IDT_ENTRY (addr h)
     \<lparr>offset_15_00 = 0, seg_selector = KERNEL_CS, reserved4 = 0, reserved3 = False, reserved2 = True, reserved1 = True,
      gate_size = True, reserved0 = False, dpl = 0, present = True, offset_31_16 = 0\<rparr>"

definition exception_entries :: "(nat \<times> handler) list" where
  "exception_entries =
     [(0, Ex_divide_error), (1, Ex_debug), (2, Ex_NMI), (3, Ex_breakpoint), (4, Ex_overflow), (5, Ex_bound_range),
      (6, Ex_invalid_op), (7, Ex_device_na), (8, Ex_double_fault), (9, Ex_segment_overrun), (10, Ex_invalid_TSS),
      (11, Ex_no_segment), (12, Ex_seg_fault), (13, Ex_gen_protection), (14, Ex_page_fault), (15, Ex_reserved),
      (16, Ex_float_pt_err), (17, Ex_align_check), (18, Ex_machine_check), (19, Ex_SIMD_float_pt)]
     @ map (\<lambda>i. (i, Ex_reserved)) [20..<32]"

definition device_entries :: "(nat \<times> handler) list" where
  "device_entries = [(1, Keypress_handler), (8, Rtc_handler), (0, Pit_handler), (12, Mouse_handler), (5, Sb16_handler), (6, Fdc_handler)]"

definition init_device :: "(handler \<Rightarrow> u32) \<Rightarrow> nat \<times> handler \<Rightarrow> idt \<times> pic \<Rightarrow> idt \<times> pic" where
  "init_device addr = (\<lambda>(irq, h) (t, p). (t(0x20 + irq := interrupt_gate addr h), enable_irq irq p))"

definition init_interrupts :: "(handler \<Rightarrow> u32) \<Rightarrow> idt \<times> pic \<Rightarrow> (idt \<times> pic) \<times> int" where
  "init_interrupts addr s =
     (let (t, p) = s;
          exception = SET_IDT_ENTRY (addr Ex_reserved) ((interrupt_gate addr Test_interrupts)\<lparr>reserved3 := True\<rparr>);
          syscall = (interrupt_gate addr Syscall_handler)\<lparr>dpl := 3\<rparr>;
          t1 = t(0x80 := syscall);
          t2 = set_entries [0..<0x20] exception t1;
          t3 = set_entries [0x20..<0x2F] (interrupt_gate addr Test_interrupts) t2;
          t4 = fold (set_handler_at addr) exception_entries t3
      in (fold (init_device addr) device_entries (t4, p), 0))"

section \<open>The table after set-up\<close>

definition gate_target :: "idt_desc \<Rightarrow> u32" where
  "gate_target d = push_bit 16 (ucast (offset_31_16 d)) OR ucast (offset_15_00 d)"

lemma gate_target_set [simp]: "gate_target (SET_IDT_ENTRY h d) = h"
proof -
  have m: "(0xFFFF :: u32) = mask 16" "(0xFFFF0000 :: u32) = push_bit 16 (mask 16)" by (simp_all add: mask_eq_exp_minus_1)
  show ?thesis unfolding gate_target_def SET_IDT_ENTRY_def
    by (rule bit_word_eqI) (auto simp: m bit_simps)
qed

lemma set_entry_simps [simp]:
  "reserved3 (SET_IDT_ENTRY h d) = reserved3 d" "dpl (SET_IDT_ENTRY h d) = dpl d" "present (SET_IDT_ENTRY h d) = present d"
  "seg_selector (SET_IDT_ENTRY h d) = seg_selector d"
  by (simp_all add: SET_IDT_ENTRY_def)

lemma interrupt_gate_simps [simp]:
  "gate_target (interrupt_gate addr h) = addr h" "\<not> reserved3 (interrupt_gate addr h)" "dpl (interrupt_gate addr h) = 0"
  "present (interrupt_gate addr h)" "seg_selector (interrupt_gate addr h) = KERNEL_CS"
  by (simp_all add: interrupt_gate_def)

lemma gate_target_dpl [simp]: "gate_target (d\<lparr>dpl := n\<rparr>) = gate_target d" "gate_target (d\<lparr>reserved3 := b\<rparr>) = gate_target d"
  by (simp_all add: gate_target_def)

lemma set_entries_at: "set_entries [a..<b] d t v = (if a \<le> v \<and> v < b then d else t v)"
proof (induction b)
  case (Suc b)
  then show ?case by (auto simp: set_entries_def less_Suc_eq)
qed (simp add: set_entries_def)

lemma fold_handlers:
  "distinct (map fst es) \<Longrightarrow> fold (set_handler_at addr) es t v =
     (case map_of es v of None \<Rightarrow> t v | Some h \<Rightarrow> SET_IDT_ENTRY (addr h) (t v))"
proof (induction es arbitrary: t)
  case (Cons e es)
  obtain i h where e: "e = (i, h)" by fastforce
  then have "map_of es i = None" using Cons.prems by (simp add: map_of_eq_None_iff)
  then show ?case using Cons e by (auto simp: set_handler_at_def split: option.splits)
qed simp

lemma fold_devices:
  "distinct (map fst es) \<Longrightarrow> fst (fold (init_device addr) es (t, p)) v =
     (case map_of (map (\<lambda>(i, h). (0x20 + i, h)) es) v of None \<Rightarrow> t v | Some h \<Rightarrow> interrupt_gate addr h)"
proof (induction es arbitrary: t p)
  case (Cons e es)
  obtain i h where e: "e = (i, h)" by fastforce
  have n: "map_of (map (\<lambda>(i, h). (0x20 + i, h)) es) (0x20 + i) = None"
    using Cons.prems e by (auto simp: map_of_eq_None_iff image_iff)
  define t1 where "t1 = t(0x20 + i := interrupt_gate addr h)"
  have d: "init_device addr e (t, p) = (t1, enable_irq i p)" by (simp add: init_device_def e t1_def)
  have "t1 v = (if v = 0x20 + i then interrupt_gate addr h else t v)" by (simp add: t1_def)
  then show ?case using Cons.IH [of t1 "enable_irq i p"] Cons.prems d n by (auto simp: e split: option.splits)
qed simp

lemma fold_devices_pic: "snd (fold (init_device addr) es (t, p)) = fold enable_irq (map fst es) p"
  by (induction es arbitrary: t p) (auto simp: init_device_def)

text \<open>
  The handler every vector is meant to have, written down from the processor's and the PC's
  numbering and not from the tables of the code: the exceptions in the order of their vectors, and the
  devices by interrupt line (timer 0, keyboard 1, sound card 5, floppy disk 6, clock 8, mouse 12).
\<close>

definition processor_exceptions :: "handler list" where
  "processor_exceptions = [Ex_divide_error, Ex_debug, Ex_NMI, Ex_breakpoint, Ex_overflow, Ex_bound_range, Ex_invalid_op, Ex_device_na,
     Ex_double_fault, Ex_segment_overrun, Ex_invalid_TSS, Ex_no_segment, Ex_seg_fault, Ex_gen_protection, Ex_page_fault, Ex_reserved,
     Ex_float_pt_err, Ex_align_check, Ex_machine_check, Ex_SIMD_float_pt]"

definition line_handler :: "nat \<Rightarrow> handler" where
  "line_handler irq = (if irq = 0 then Pit_handler else if irq = 1 then Keypress_handler else if irq = 5 then Sb16_handler
     else if irq = 6 then Fdc_handler else if irq = 8 then Rtc_handler else if irq = 12 then Mouse_handler else Test_interrupts)"

definition vector_handler :: "nat \<Rightarrow> handler option" where
  "vector_handler v =
     (if v < 20 then Some (processor_exceptions ! v)
      else if v < 0x20 then Some Ex_reserved
      else if v < 0x2F then Some (line_handler (v - 0x20))
      else if v = 0x80 then Some Syscall_handler else None)"

lemma exception_entries_at: "v < 0x20 \<Longrightarrow> map_of exception_entries v = vector_handler v"
proof -
  have "\<forall>v \<in> set [0..<32]. map_of exception_entries v = vector_handler v"
    by (simp add: exception_entries_def vector_handler_def processor_exceptions_def upt_rec)
  then show "v < 0x20 \<Longrightarrow> map_of exception_entries v = vector_handler v" by simp
qed

lemma device_entries_at: "(case map_of device_entries irq of None \<Rightarrow> Test_interrupts | Some h \<Rightarrow> h) = line_handler irq"
  by (simp add: device_entries_def line_handler_def)

section \<open>Properties\<close>


end
