(* ===== verification/Scrollback.thy ===== *)
theory Scrollback
  imports Terminal
begin

text \<open>
  What scrolling does to the pages of a terminal, and that paging back and forth through the
  scrollback ends where it began.
\<close>

section \<open>Moving cells up\<close>

lemma fold_shift:
  assumes "inj_on f {..<n + d}" "0 < d"
  shows "j < n + d \<Longrightarrow> fold (\<lambda>k m. m(f k := m (f (k + d)))) [0..<n] m (f j) = (if j < n then m (f (j + d)) else m (f j))"
    and "a \<notin> f ` {..<n} \<Longrightarrow> fold (\<lambda>k m. m(f k := m (f (k + d)))) [0..<n] m a = m a"
proof -
  have "k \<le> n \<Longrightarrow> (\<forall>j < n + d. fold (\<lambda>k m. m(f k := m (f (k + d)))) [0..<k] m (f j) = (if j < k then m (f (j + d)) else m (f j))) \<and>
    (a \<notin> f ` {..<n} \<longrightarrow> fold (\<lambda>k m. m(f k := m (f (k + d)))) [0..<k] m a = m a)" for k
  proof (induction k)
    case (Suc k)
    then have "f j = f k \<longleftrightarrow> j = k" if "j < n + d" for j using that assms inj_on_eq_iff [OF assms(1), of j k] by simp
    then show ?case using Suc assms(2) by (auto simp: less_Suc_eq)
  qed simp
  from this [of n] show "j < n + d \<Longrightarrow> fold (\<lambda>k m. m(f k := m (f (k + d)))) [0..<n] m (f j) = (if j < n then m (f (j + d)) else m (f j))"
    "a \<notin> f ` {..<n} \<Longrightarrow> fold (\<lambda>k m. m(f k := m (f (k + d)))) [0..<n] m a = m a" by auto
qed

lemma fold_fill:
  assumes "inj_on f {..<n}"
  shows "j < n \<Longrightarrow> fold (\<lambda>x m. m(f x := v)) [0..<n] m (f j) = v"
    and "a \<notin> f ` {..<n} \<Longrightarrow> fold (\<lambda>x m. m(f x := v)) [0..<n] m a = m a"
proof -
  have "k \<le> n \<Longrightarrow> (\<forall>j < k. fold (\<lambda>x m. m(f x := v)) [0..<k] m (f j) = v) \<and>
    (a \<notin> f ` {..<n} \<longrightarrow> fold (\<lambda>x m. m(f x := v)) [0..<k] m a = m a)" for k
    by (induction k) (auto simp: less_Suc_eq)
  from this [of n] show "j < n \<Longrightarrow> fold (\<lambda>x m. m(f x := v)) [0..<n] m (f j) = v"
    "a \<notin> f ` {..<n} \<Longrightarrow> fold (\<lambda>x m. m(f x := v)) [0..<n] m a = m a" by auto
qed

lemma inj_offset: "c * n \<le> 4294967296 \<Longrightarrow> 0 < c \<Longrightarrow> inj_on (\<lambda>k. (base :: u32) + of_nat (c * k)) {..<n}"
proof (rule inj_onI)
  fix x y assume c: "c * n \<le> 4294967296" "0 < c" "x \<in> {..<n}" "y \<in> {..<n}" "base + of_nat (c * x) = base + of_nat (c * y)"
  then have e: "(of_nat (c * x) :: u32) = of_nat (c * y)" by simp
  have "c * x < c * n" "c * y < c * n" using c by simp_all
  then have "unat (of_nat (c * x) :: u32) = c * x" "unat (of_nat (c * y) :: u32) = c * y" using c(1) by (intro unat_of_nat_u32; linarith)+
  with e have "c * x = c * y" by metis
  then show "x = y" using c(2) by simp
qed

lemma offset_neq:
  assumes "x < 4294967296" "y < 4294967296" "x \<noteq> y" shows "(base :: u32) + of_nat x \<noteq> base + of_nat y"
proof
  assume "base + of_nat x = base + of_nat y"
  then have "unat (of_nat x :: u32) = unat (of_nat y :: u32)" by simp
  then show False using assms by (simp only: unat_of_nat_u32)
qed

text \<open>The characters of a page move up by a row and the last row is zero; the attributes stay.\<close>

lemma scroll_rows_cells:
  assumes "k < 1920"
  shows "scroll_rows base m (base + of_nat (2 * k)) = (if k < 1840 then m (base + of_nat (2 * (k + 80))) else 0)"
    "scroll_rows base m (base + of_nat (2 * k + 1)) = m (base + of_nat (2 * k + 1))"
proof -
  let ?f = "\<lambda>k. base + of_nat (2 * k)"
  let ?m = "fold (\<lambda>k m. m(?f k := m (?f (k + 80)))) [0..<1840] m"
  have inj: "inj_on ?f {..<1840 + 80}" by (rule inj_offset) simp_all
  have m: "?m (?f j) = (if j < 1840 then m (?f (j + 80)) else m (?f j))" if "j < 1920" for j
    using fold_shift(1) [OF inj, of j m] that by simp
  have odd: "?f j \<noteq> base + of_nat (2 * k + 1)" if "j < 1920" for j
    using that assms by (intro offset_neq) (simp_all, presburger)
  have no: "base + of_nat (2 * k + 1) \<notin> ?f ` {..<n}" if "n \<le> 1920" for n
  proof
    assume "base + of_nat (2 * k + 1) \<in> ?f ` {..<n}"
    then obtain j where "j < n" "base + of_nat (2 * k + 1) = ?f j" by blast
    then show False using odd [of j] that by simp
  qed
  have mo: "?m (base + of_nat (2 * k + 1)) = m (base + of_nat (2 * k + 1))"
    using fold_shift(2) [OF inj, of "base + of_nat (2 * k + 1)" m] no [of 1840] by simp
  let ?g = "\<lambda>x. base + of_nat (2 * (1840 + x))"
  have inj2: "inj_on ?g {..<80}" using inj_offset [of 2 80 "base + 3680"] by (simp add: algebra_simps)
  have s: "scroll_rows base m = fold (\<lambda>x m. m(?g x := 0)) [0..<80] ?m" by (simp add: scroll_rows_def)
  show "scroll_rows base m (?f k) = (if k < 1840 then m (?f (k + 80)) else 0)"
  proof (cases "k < 1840")
    case True
    have "?f k \<noteq> ?g x" if "x < 80" for x using True that by (intro offset_neq) simp_all
    then have "?f k \<notin> ?g ` {..<80}" by blast
    then show ?thesis unfolding s using fold_fill(2) [OF inj2, of "?f k" 0 ?m] m [of k] assms True by simp
  next
    case False
    then have "?f k = ?g (k - 1840)" "k - 1840 < 80" using assms by simp_all
    then show ?thesis unfolding s using fold_fill(1) [OF inj2, of "k - 1840" 0 ?m] False by simp
  qed
  have "base + of_nat (2 * k + 1) \<notin> ?g ` {..<80}"
  proof
    assume "base + of_nat (2 * k + 1) \<in> ?g ` {..<80}"
    then obtain j where "j < 80" "base + of_nat (2 * k + 1) = ?f (1840 + j)" by blast
    then show False using odd [of "1840 + j"] by simp
  qed
  then show "scroll_rows base m (base + of_nat (2 * k + 1)) = m (base + of_nat (2 * k + 1))"
    unfolding s using fold_fill(2) [OF inj2, of "base + of_nat (2 * k + 1)" 0 ?m] mo by simp
qed

lemma scroll_rows_outside:
  assumes "a \<notin> span base 3840" shows "scroll_rows base m a = m a"
proof -
  have out: "a \<noteq> base + of_nat (2 * k)" if "k < 1920" for k
  proof
    assume "a = base + of_nat (2 * k)"
    then show False using assms that unat_of_nat_u32 [of "2 * k"] by (simp add: span_def)
  qed
  let ?f = "\<lambda>k. base + of_nat (2 * k)" and ?g = "\<lambda>x. base + of_nat (2 * (1840 + x))"
  have inj: "inj_on ?f {..<1840 + 80}" by (rule inj_offset) simp_all
  have inj2: "inj_on ?g {..<80}" using inj_offset [of 2 80 "base + 3680"] by (simp add: algebra_simps)
  have "a \<notin> ?f ` {..<1840}"
  proof
    assume "a \<in> ?f ` {..<1840}"
    then obtain x where "x < 1840" "a = ?f x" by blast
    then show False using out [of x] by simp
  qed
  moreover have "a \<notin> ?g ` {..<80}"
  proof
    assume "a \<in> ?g ` {..<80}"
    then obtain x where "x < 80" "a = ?f (1840 + x)" by blast
    then show False using out [of "1840 + x"] by simp
  qed
  ultimately show ?thesis using fold_shift(2) [OF inj, of a m] fold_fill(2) [OF inj2, of a "0 :: u8"] by (simp add: scroll_rows_def)
qed

lemma scroll_lines_bytes:
  assumes "k < 19440"
  shows "scroll_lines b m (b + of_nat k) = (if k < 19280 then m (b + of_nat (k + 160)) else m (b + of_nat k))"
proof -
  let ?f = "\<lambda>k. b + of_nat k"
  have inj: "inj_on ?f {..<19280 + 160}" using inj_offset [of 1 "19280 + 160" b] by simp
  have "scroll_lines b m = fold (\<lambda>k m. m(?f k := m (?f (k + 160)))) [0..<19280] m"
    unfolding scroll_lines_def by (simp add: add.assoc)
  then show ?thesis using fold_shift(1) [OF inj, of k m] assms by simp
qed

lemma scroll_lines_outside:
  assumes "a \<notin> span b 19280" shows "scroll_lines b m a = m a"
proof -
  let ?f = "\<lambda>k. b + of_nat k"
  have inj: "inj_on ?f {..<19280 + 160}" using inj_offset [of 1 "19280 + 160" b] by simp
  have "scroll_lines b m = fold (\<lambda>k m. m(?f k := m (?f (k + 160)))) [0..<19280] m"
    unfolding scroll_lines_def by (simp add: add.assoc)
  moreover have "a \<notin> ?f ` {..<19280}"
  proof
    assume "a \<in> ?f ` {..<19280}"
    then obtain x where "x < 19280" "a = b + of_nat x" by blast
    then show False using assms unat_of_nat_u32 [of x] by (simp add: span_def)
  qed
  ultimately show ?thesis using fold_shift(2) [OF inj, of a m] by simp
qed

section \<open>Scrolling a backing page\<close>

definition pointer_addr :: "screen \<Rightarrow> u32" where
  "pointer_addr s = (let (x, y) = mouse_cell s in cell_addr s x y + 1)"

lemma cursor_smem:
  "smem (hide_cursor s) = (smem s)(pointer_addr s := prev_attrib s)" "smem (show_cursor s) = (smem s)(pointer_addr s := MOUSE_CURSOR)"
  by (simp_all add: hide_cursor_def show_cursor_def pointer_addr_def Let_def split_beta)

lemma pointer_addr_simps [simp]:
  "pointer_addr (hide_cursor s) = pointer_addr s" "pointer_addr (show_cursor s) = pointer_addr s"
  "pointer_addr (s\<lparr>smem := m\<rparr>) = pointer_addr s" "prev_attrib (hide_cursor s) = prev_attrib s" "prev_attrib (show_cursor s) = prev_attrib s"
  by (simp_all add: hide_cursor_def show_cursor_def pointer_addr_def Let_def split_beta mouse_cell_def cell_addr_def)

lemma tty_simps [simp]:
  "scr (on_scr f t) = f (scr t)" "terminals (on_scr f t) = terminals t" "current_terminal (on_scr f t) = current_terminal t"
  "scrollback_offset (on_scr f t) = scrollback_offset t" "scr (on_mem g t) = (scr t)\<lparr>smem := g (smem (scr t))\<rparr>"
  "terminals (on_mem g t) = terminals t" "current_terminal (on_mem g t) = current_terminal t"
  "scrollback_offset (on_mem g t) = scrollback_offset t" "term_at i (on_scr f t) = term_at i t" "term_at i (on_mem g t) = term_at i t"
  by (simp_all add: on_scr_def on_mem_def term_at_def)

lemma scroll_backing_bytes:
  assumes r: "term_at i t = Some r" and p: "pointer_addr (scr t) \<notin> span (video_memory_base r - 19200) 23040"
    and t': "scroll_backing i t = Some t'"
  shows "k < 1920 \<Longrightarrow> smem (scr t') (video_memory_base r + of_nat (2 * k)) =
      (if k < 1840 then smem (scr t) (video_memory_base r + of_nat (2 * (k + 80))) else 0)"
    and "k < 19200 \<Longrightarrow> smem (scr t') (video_memory_base r - 19200 + of_nat k) = smem (scr t) (video_memory_base r - 19200 + of_nat (k + 160))"
proof -
  let ?b = "video_memory_base r" and ?s = "video_memory_base r - 19200" and ?m = "smem (scr t)" and ?h = "pointer_addr (scr t)"
  let ?l = "(scroll_lines ?s (?m(?h := prev_attrib (scr t))))(?h := MOUSE_CURSOR)"
  have m': "smem (scr t') = scroll_rows ?b ?l"
    using r t' by (auto simp: scroll_backing_def Let_def PAGE_BYTES_def cursor_smem)
  have b: "?b = ?s + of_nat 19200" by simp
  have ne: "?s + of_nat j \<noteq> ?h" if "j < 23040" for j
  proof
    assume "?s + of_nat j = ?h"
    then show False using p that unat_of_nat_u32 [of j] by (auto simp: span_def dest: sym)
  qed
  have l: "?l (?s + of_nat j) = (if j < 19280 then ?m (?s + of_nat (j + 160)) else ?m (?s + of_nat j))" if "j < 23040" for j
  proof (cases "j < 19440")
    case True
    then show ?thesis using scroll_lines_bytes [OF True, of ?s "?m(?h := prev_attrib (scr t))"] ne [of j] ne [of "j + 160"] by simp
  next
    case False
    then have "?s + of_nat j \<notin> span ?s 19280" using that unat_of_nat_u32 [of j] by (simp add: span_def)
    then show ?thesis using scroll_lines_outside [of "?s + of_nat j" ?s] ne [OF that] False by simp
  qed
  have cell: "?b + of_nat (2 * j) = ?s + of_nat (19200 + 2 * j)" for j by (subst b) (simp add: algebra_simps)
  show "smem (scr t') (?b + of_nat (2 * k)) = (if k < 1840 then ?m (?b + of_nat (2 * (k + 80))) else 0)" if "k < 1920"
  proof (cases "k < 1840")
    case True
    have "?l (?b + of_nat (2 * (k + 80))) = ?m (?b + of_nat (2 * (k + 80)))"
      unfolding cell using l [of "19200 + 2 * (k + 80)"] True by simp
    then show ?thesis unfolding m' using scroll_rows_cells(1) [OF that, of ?b ?l] True by simp
  next
    case False
    then show ?thesis unfolding m' using scroll_rows_cells(1) [OF that, of ?b ?l] by simp
  qed
  show "smem (scr t') (?s + of_nat k) = ?m (?s + of_nat (k + 160))" if "k < 19200"
  proof -
    have "?s + of_nat k \<notin> span ?b 3840"
    proof
      assume "?s + of_nat k \<in> span ?b 3840"
      then have "unat (of_nat k - of_nat 19200 :: u32) < 3840" by (simp add: span_def)
      moreover have "(of_nat k - of_nat 19200 :: u32) = of_nat (4294948096 + k)"
      proof -
        have "(4294948096 :: u32) = - 19200" by simp
        then show ?thesis by (simp only: of_nat_add of_nat_numeral diff_conv_add_uminus add.commute)
      qed
      moreover have "unat (of_nat (4294948096 + k) :: u32) = 4294948096 + k" using that by (intro unat_of_nat_u32) simp
      ultimately have "4294948096 + k < 3840" by (simp only:)
      then show False by simp
    qed
    then show ?thesis unfolding m' using scroll_rows_outside [of "?s + of_nat k" ?b ?l] l [of k] that by simp
  qed
qed

section \<open>Paging through the scrollback\<close>

lemma disjoint_far:
  assumes "span p n \<inter> span q n = {}" "0 < n" shows "n \<le> unat (p - q)"
proof (rule ccontr)
  assume "\<not> n \<le> unat (p - q)"
  then have "p \<in> span p n \<inter> span q n" using assms(2) by (simp add: span_def)
  with assms(1) show False by simp
qed

lemma memcpy_page: "span d 3840 \<inter> span e 3840 = {} \<Longrightarrow> memcpy m d e PAGE_BYTES = store_bytes m d (bytes m e 3840)"
  using disjoint_far [of d 3840 e] memcpy_copy [of PAGE_BYTES d e m] by (simp add: PAGE_BYTES_def)

definition page_view :: "tty \<Rightarrow> u8 list" where
  "page_view t = bytes (beneath (scr t)) VIDEO 3840"

lemma beneath_pointer: "beneath s = (smem s)(pointer_addr s := prev_attrib s)"
  by (simp add: beneath_def pointer_addr_def Let_def split_beta)

lemma span_mono: "m \<le> n \<Longrightarrow> span p m \<subseteq> span p n"
  by (auto simp: span_def)

lemma adjust_up:
  assumes c: "cur_term t = Some (i, r)" and o: "scrollback_offset t = 0" and v: "video_memory r = video_memory_base r"
    and d: "span (video_memory_base r) 3840 \<inter> span VIDEO 3840 = {}" "span (video_memory_base r - 3840) 3840 \<inter> span VIDEO 3840 = {}"
    and h: "pointer_addr (scr t) \<notin> span (video_memory_base r) 3840"
  obtains t1 r1 where "adjust_scrollback_page 1 t = Some t1" "cur_term t1 = Some (i, r1)" "scrollback_offset t1 = 1"
    "video_memory_base r1 = video_memory_base r" "bytes (smem (scr t1)) (video_memory_base r) 3840 = page_view t"
    "pointer_addr (scr t1) = pointer_addr (scr t)" "prev_attrib (scr t1) = prev_attrib (scr t)"
proof -
  let ?b = "video_memory_base r" and ?m = "(smem (scr t))(pointer_addr (scr t) := prev_attrib (scr t))"
  let ?m1 = "store_bytes ?m ?b (bytes ?m VIDEO 3840)"
  let ?m2 = "store_bytes ?m1 VIDEO (bytes ?m1 (?b - 3840) 3840)"
  let ?r1 = "r\<lparr>video_memory := ?b - 3840\<rparr>"
  let ?t0 = "on_mem (\<lambda>_. ?m1) (on_scr hide_cursor t)"
  let ?t1 = "on_scr show_cursor (on_mem (\<lambda>_. ?m2) ((upd_term i (\<lambda>r. r\<lparr>video_memory := video_memory_base r - 3840\<rparr>) (?t0\<lparr>scrollback_offset := 1\<rparr>))))"
  have i: "term_at i t = Some r" "i < length (terminals t)" "terminals t ! i = r" "current_terminal t = Some i"
    using c by (auto simp: cur_term_Some term_at_def)
  have "map_backing_page i (on_scr hide_cursor t) = Some ?t0"
    using i v memcpy_page [OF d(1), of ?m] by (simp add: map_backing_page_def term_at_def on_mem_def on_scr_def cursor_smem)
  moreover have "load_scrollback_page 1 (?t0\<lparr>scrollback_offset := 1\<rparr>) =
      Some (on_mem (\<lambda>_. ?m2) ((upd_term i (\<lambda>r. r\<lparr>video_memory := video_memory_base r - 3840\<rparr>) (?t0\<lparr>scrollback_offset := 1\<rparr>))))"
    using i memcpy_page [of VIDEO "?b - 3840" ?m1] d(2)
    by (simp add: load_scrollback_page_def cur_term_def unmap_backing_page_def term_at_def upd_term_def on_mem_def on_scr_def PAGE_BYTES_def Int_commute)
  ultimately have "adjust_scrollback_page 1 t = Some ?t1"
    using i(1,4) o by (simp add: adjust_scrollback_page_def cur_term_def clamp_offset_def MAX_SCROLLBACK_OFFSET_def Let_def)
  moreover have "cur_term ?t1 = Some (i, ?r1)" using i by (simp add: cur_term_Some upd_term_def)
  moreover have "bytes (smem (scr ?t1)) ?b 3840 = page_view t"
  proof -
    have "bytes (?m2(pointer_addr (scr t) := MOUSE_CURSOR)) ?b 3840 = bytes ?m2 ?b 3840" using h by (intro bytes_cong) auto
    also have "\<dots> = bytes ?m1 ?b 3840" using d(1) by (intro bytes_store_bytes_disjoint) simp_all
    also have "\<dots> = bytes ?m VIDEO 3840" using bytes_store_bytes [of "bytes ?m VIDEO 3840" ?m ?b] by simp
    finally show ?thesis by (simp add: page_view_def beneath_pointer upd_term_def cursor_smem)
  qed
  ultimately show ?thesis using that [of ?t1 ?r1] by (simp add: upd_term_def)
qed

lemma adjust_down:
  assumes c: "cur_term t = Some (i, r)" and o: "scrollback_offset t = 1"
    and d: "span (video_memory_base r) 3840 \<inter> span VIDEO 3840 = {}" and h: "pointer_addr (scr t) \<notin> span (video_memory_base r) 3840"
    and q: "pointer_addr (scr t) \<in> span VIDEO 3840 \<Longrightarrow> smem (scr t) (video_memory_base r + (pointer_addr (scr t) - VIDEO)) = prev_attrib (scr t)"
  shows "\<exists>t'. adjust_scrollback_page (- 1) t = Some t' \<and> scrollback_offset t' = 0 \<and> page_view t' = bytes (smem (scr t)) (video_memory_base r) 3840"
proof -
  let ?b = "video_memory_base r" and ?h = "pointer_addr (scr t)" and ?m = "(smem (scr t))(pointer_addr (scr t) := prev_attrib (scr t))"
  let ?m2 = "store_bytes ?m VIDEO (bytes ?m ?b 3840)"
  let ?t0 = "on_scr hide_cursor t"
  let ?t1 = "on_scr show_cursor (on_mem (\<lambda>_. ?m2) ((upd_term i (\<lambda>r. r\<lparr>video_memory := video_memory_base r\<rparr>) (?t0\<lparr>scrollback_offset := 0\<rparr>))))"
  have i: "term_at i t = Some r" "i < length (terminals t)" "terminals t ! i = r" "current_terminal t = Some i"
    using c by (auto simp: cur_term_Some term_at_def)
  have "load_scrollback_page 0 (?t0\<lparr>scrollback_offset := 0\<rparr>) =
      Some (on_mem (\<lambda>_. ?m2) ((upd_term i (\<lambda>r. r\<lparr>video_memory := video_memory_base r\<rparr>) (?t0\<lparr>scrollback_offset := 0\<rparr>))))"
    using i memcpy_page [of VIDEO ?b ?m] d
    by (simp add: load_scrollback_page_def cur_term_def unmap_backing_page_def term_at_def upd_term_def on_mem_def on_scr_def cursor_smem Int_commute)
  then have "adjust_scrollback_page (- 1) t = Some ?t1"
    using o by (simp add: adjust_scrollback_page_def clamp_offset_def MAX_SCROLLBACK_OFFSET_def Let_def)
  moreover have "page_view ?t1 = bytes (smem (scr t)) ?b 3840"
  proof -
    have bm: "bytes ?m ?b 3840 = bytes (smem (scr t)) ?b 3840" using h by (intro bytes_cong) auto
    have "?m2 ?h = prev_attrib (scr t)"
    proof (cases "?h \<in> span VIDEO 3840")
      case True
      then have u: "unat (?h - VIDEO) < 3840" by (simp add: span_def)
      have "?m2 (VIDEO + of_nat (unat (?h - VIDEO))) = bytes ?m ?b 3840 ! unat (?h - VIDEO)"
        using u by (intro store_bytes_at) simp_all
      then show ?thesis using u q [OF True] bm by simp
    next
      case False
      then show ?thesis by (simp add: store_bytes_outside)
    qed
    then have "(?m2(?h := MOUSE_CURSOR, ?h := prev_attrib (scr t))) = ?m2" by (auto simp: fun_eq_iff)
    moreover have "bytes ?m2 VIDEO 3840 = bytes ?m ?b 3840" using bytes_store_bytes [of "bytes ?m ?b 3840" ?m VIDEO] by simp
    ultimately show ?thesis using bm by (simp add: page_view_def beneath_pointer upd_term_def cursor_smem)
  qed
  ultimately show ?thesis by (auto simp: upd_term_def)
qed

section \<open>Properties\<close>

text \<open>
  C25. Scrolling a backing page moves the characters of every row but the first one row up and
  zeroes the last row, and moves the whole scrollback above the page up by the same row, so that
  the row that leaves the page becomes the last row of the scrollback.
\<close>

theorem scroll_backing_moves_rows:
  assumes "term_at i t = Some r" "pointer_addr (scr t) \<notin> span (video_memory_base r - 19200) 23040" "k < 1920" "j < 19200"
  shows "\<exists>t'. scroll_backing i t = Some t' \<and>
    smem (scr t') (video_memory_base r + of_nat (2 * k)) =
      (if k < 1840 then smem (scr t) (video_memory_base r + of_nat (2 * (k + 80))) else 0) \<and>
    smem (scr t') (video_memory_base r - 19200 + of_nat j) = smem (scr t) (video_memory_base r - 19200 + of_nat (j + 160))"
proof -
  obtain t' where t': "scroll_backing i t = Some t'" using scroll_backing_core [of i t] assms(1) by auto
  with scroll_backing_bytes [OF assms(1,2) t'] assms(3,4) show ?thesis by blast
qed

definition page_tty :: tty where
  "page_tty = fresh_tty\<lparr>scr := blank_screen\<lparr>smem := (\<lambda>a. if a = 0xC004BA0 then 65 else 0)\<rparr>\<rparr>"

lemma page_tty_pointer: "pointer_addr (scr page_tty) = 0xB8001" "term_at 0 page_tty = Some fresh_terminal"
  "cur_term page_tty = Some (0, fresh_terminal)"
  by (simp_all add: page_tty_def fresh_tty_def blank_screen_def pointer_addr_def mouse_cell_def cell_addr_def term_at_def cur_term_Some)

theorem scroll_backing_moves_rows_witness:
  "\<exists>t'. scroll_backing 0 page_tty = Some t' \<and> smem (scr t') 0xC004B00 = 65"
  using scroll_backing_moves_rows [OF page_tty_pointer(2), of 0 0]
  unfolding page_tty_pointer(1) by (auto simp: fresh_terminal_def span_def page_tty_def fresh_tty_def)

text \<open>
  C24. Page-up and then page-down show again exactly what was on the screen (beneath the mouse
  pointer), and leave the terminal on its own page.
\<close>

theorem page_up_down_restores:
  assumes "cur_term t = Some (i, r)" "scrollback_offset t = 0" "video_memory r = video_memory_base r"
    and "span (video_memory_base r - 3840) 7680 \<inter> span VIDEO 3840 = {}" "pointer_addr (scr t) \<notin> span (video_memory_base r) 3840"
  shows "\<exists>t1 t2. adjust_scrollback_page 1 t = Some t1 \<and> scrollback_offset t1 = 1 \<and>
    adjust_scrollback_page (- 1) t1 = Some t2 \<and> scrollback_offset t2 = 0 \<and> page_view t2 = page_view t"
proof -
  let ?b = "video_memory_base r"
  have sub: "span ?b 3840 \<subseteq> span (?b - 3840) 7680" "span (?b - 3840) 3840 \<subseteq> span (?b - 3840) 7680"
  proof
    fix a assume "a \<in> span ?b 3840"
    then have "unat (a - ?b) < 3840" by (simp add: span_def)
    then have "unat (a - ?b + 3840) = unat (a - ?b) + 3840" by (subst unat_add_nowrap) simp_all
    moreover have e: "a - (?b - 3840) = a - ?b + 3840" by simp
    ultimately show "a \<in> span (?b - 3840) 7680" using \<open>unat (a - ?b) < 3840\<close> unfolding span_def mem_Collect_eq e by simp
  qed (auto simp: span_def)
  then have d: "span ?b 3840 \<inter> span VIDEO 3840 = {}" "span (?b - 3840) 3840 \<inter> span VIDEO 3840 = {}" using assms(4) by blast+
  obtain t1 r1 where t1: "adjust_scrollback_page 1 t = Some t1" "cur_term t1 = Some (i, r1)" "scrollback_offset t1 = 1"
    "video_memory_base r1 = ?b" "bytes (smem (scr t1)) ?b 3840 = page_view t"
    "pointer_addr (scr t1) = pointer_addr (scr t)" "prev_attrib (scr t1) = prev_attrib (scr t)"
    using assms(1-3) d assms(5) by (rule adjust_up)
  have q: "smem (scr t1) (video_memory_base r1 + (pointer_addr (scr t1) - VIDEO)) = prev_attrib (scr t1)"
    if "pointer_addr (scr t1) \<in> span VIDEO 3840"
  proof -
    let ?k = "unat (pointer_addr (scr t) - VIDEO)"
    have k: "?k < 3840" using that t1(6) by (simp add: span_def)
    then have "bytes (smem (scr t1)) ?b 3840 ! ?k = page_view t ! ?k" using t1(5) by simp
    then show ?thesis using k t1(4,6,7) by (simp add: page_view_def beneath_pointer)
  qed
  from adjust_down [OF t1(2,3), unfolded t1(4,6), OF d(1) assms(5)] q
  show ?thesis using t1(1,3,4,5,6) by auto
qed

theorem page_up_down_restores_witness:
  "\<exists>t1 t2. adjust_scrollback_page 1 page_tty = Some t1 \<and> adjust_scrollback_page (- 1) t1 = Some t2 \<and> page_view t2 = page_view page_tty"
proof -
  have "span (0xC003C00 :: u32) 7680 \<inter> span VIDEO 3840 = {}"
  proof -
    have "\<not> unat (a - 0xB8000) < 3840" if "unat (a - 0xC003C00) < 7680" for a :: u32
    proof -
      have e: "a - 0xB8000 = (a - 0xC003C00) + 200588288" by simp
      have "unat ((a - 0xC003C00) + 200588288) = unat (a - 0xC003C00) + 200588288" using that by (subst unat_add_nowrap) simp_all
      then show ?thesis unfolding e by simp
    qed
    then show ?thesis by (auto simp: span_def VIDEO_def)
  qed
  then show ?thesis
    using page_up_down_restores [OF page_tty_pointer(3)] page_tty_pointer(1)
    by (auto simp: page_tty_def fresh_tty_def fresh_terminal_def span_def)
qed

end
