(* ===== verification/Print_Frame.thy ===== *)
theory Print_Frame
  imports Scrollback Printf
begin

text \<open>
  What printing may write: the screen and the pages of the terminal it shows. The rest of memory,
  the heap and the RAM disk among it, is left as it was.
\<close>

section \<open>The bytes of the display\<close>

definition terminal_pages :: "terminal_info \<Rightarrow> u32 set" where
  "terminal_pages r = span (video_memory_base r - 19200) 23040 \<union> span (video_memory r) 3840"

definition display :: "tty \<Rightarrow> u32 set" where
  "display t = span (real_vidmem (scr t)) 4000 \<union> (case cur_term t of None \<Rightarrow> {} | Some (i, r) \<Rightarrow> terminal_pages r)"

text \<open>A terminal that can print: it is on the screen, its page is not the screen, and the mouse pointer is on the screen.\<close>

definition can_print :: "tty \<Rightarrow> bool" where
  "can_print t \<longleftrightarrow> (case cur_term t of None \<Rightarrow> False | Some (i, r) \<Rightarrow> span (video_memory r) 3840 \<inter> span VIDEO 3840 = {}) \<and>
     pointer_addr (scr t) \<in> span (real_vidmem (scr t)) 4000 \<and> screen_ok (scr t)"

definition printed :: "tty \<Rightarrow> tty \<Rightarrow> bool" where
  "printed t t' \<longleftrightarrow> core t' = core t \<and> pointer_addr (scr t') = pointer_addr (scr t) \<and>
     (\<forall>a. a \<notin> display t \<longrightarrow> smem (scr t') a = smem (scr t) a)"

lemma display_core: assumes "core t' = core t" shows "display t' = display t"
proof (cases "cur_term t")
  case None
  have "cur_term t' = None"
  proof (rule ccontr)
    assume "cur_term t' \<noteq> None"
    then obtain i r where "cur_term t' = Some (i, r)" by auto
    then show False using cur_term_core [OF assms [symmetric], of i r] None by auto
  qed
  then show ?thesis using None assms by (simp add: display_def core_def)
next
  case (Some p)
  then obtain i r where r: "cur_term t = Some (i, r)" by (cases p) simp
  obtain r' where "cur_term t' = Some (i, r')" "line_of r' = line_of r" by (rule cur_term_core [OF assms r])
  then show ?thesis using r assms line_of_fields(10,11) [of r' r] by (simp add: display_def core_def terminal_pages_def)
qed

lemma printed_refl: "printed t t"
  by (simp add: printed_def)

lemma printed_trans: assumes "printed t t1" "printed t1 t2" shows "printed t t2"
proof -
  have "display t1 = display t" using assms(1) by (intro display_core) (simp add: printed_def)
  then show ?thesis using assms by (simp add: printed_def)
qed

lemma can_print_printed: assumes "printed t t'" "can_print t" "screen_ok (scr t')" shows "can_print t'"
proof -
  obtain i r where r: "cur_term t = Some (i, r)" using assms(2) by (auto simp: can_print_def split: option.splits)
  have c: "core t' = core t" using assms(1) by (simp add: printed_def)
  obtain r' where "cur_term t' = Some (i, r')" "line_of r' = line_of r" by (rule cur_term_core [OF c r])
  then show ?thesis using assms r line_of_fields(10) [of r' r] c by (simp add: can_print_def printed_def core_def)
qed

section \<open>The steps of printing\<close>

lemma mouse_pos_simps [simp]:
  "mouse_pos (set_screen_coordinates x y s) = mouse_pos s" "mouse_pos (put_cell x y c s) = mouse_pos s"
  by (simp_all add: set_screen_coordinates_def update_cursor_def set_cursor_position_def put_cell_def Let_def split_beta)

lemma pointer_coordinates [simp]:
  "screen_x (hide_cursor s) = screen_x s" "screen_y (hide_cursor s) = screen_y s"
  "screen_x (show_cursor s) = screen_x s" "screen_y (show_cursor s) = screen_y s"
  by (simp_all add: hide_cursor_def show_cursor_def set_mouse_attrib_def Let_def split_beta)

lemma pointer_addr_cong: "mouse_pos s' = mouse_pos s \<Longrightarrow> real_vidmem s' = real_vidmem s \<Longrightarrow> pointer_addr s' = pointer_addr s"
  by (simp add: pointer_addr_def mouse_cell_def cell_addr_def Let_def)

lemma printed_on_scr:
  assumes "real_vidmem (f (scr t)) = real_vidmem (scr t)" "mouse_pos (f (scr t)) = mouse_pos (scr t)"
    and "\<And>a. a \<notin> span (real_vidmem (scr t)) 4000 \<Longrightarrow> smem (f (scr t)) a = smem (scr t) a"
  shows "printed t (on_scr f t)"
  using assms pointer_addr_cong [of "f (scr t)" "scr t"] by (auto simp: printed_def display_def)

lemma cell_in_span:
  assumes "0 \<le> y * 80 + x" "y * 80 + x < 1920" shows "cell_addr s x y \<in> span (real_vidmem s) 4000" "cell_addr s x y + 1 \<in> span (real_vidmem s) 4000"
proof -
  have c: "cell_addr s x y = real_vidmem s + of_nat (2 * nat (y * 80 + x))"
    using assms(1) by (simp add: cell_addr_def NUM_COLS_def algebra_simps of_nat_nat)
  have n: "2 * nat (y * 80 + x) < 3840" using assms(2) by (simp add: nat_less_iff)
  show "cell_addr s x y \<in> span (real_vidmem s) 4000" unfolding c using n by (intro in_span) simp_all
  have "real_vidmem s + of_nat (Suc (2 * nat (y * 80 + x))) \<in> span (real_vidmem s) 4000" using n by (intro in_span) simp_all
  then show "cell_addr s x y + 1 \<in> span (real_vidmem s) 4000" unfolding c by (simp add: algebra_simps)
qed

lemma set_char_attrib_printed:
  "0 \<le> y * 80 + x \<Longrightarrow> y * 80 + x < 1920 \<Longrightarrow> printed t (on_scr (set_char_attrib x y b) t)"
  using cell_in_span(2) [of y x "scr t"] by (intro printed_on_scr) auto

lemma put_cell_printed: "0 \<le> y * 80 + x \<Longrightarrow> y * 80 + x < 1920 \<Longrightarrow> printed t (on_scr (put_cell x y c) t)"
  using cell_in_span [of y x "scr t"] by (intro printed_on_scr) (auto simp: put_cell_def)

lemma set_coordinates_printed: assumes "screen_ok (scr t)" shows "printed t (on_scr (set_screen_coordinates x y) t)"
proof (rule printed_on_scr)
  fix a assume a: "a \<notin> span (real_vidmem (scr t)) 4000"
  show "smem (set_screen_coordinates x y (scr t)) a = smem (scr t) a"
  proof (rule ccontr)
    assume "smem (set_screen_coordinates x y (scr t)) a \<noteq> smem (scr t) a"
    then obtain k where "k < 1920" "a = real_vidmem (scr t) + of_nat (2 * k + 1)"
      using set_screen_coordinates_confined(1) [OF assms, of x y] unfolding confined_def by blast
    then show False using a in_span [of "2 * k + 1" 4000 "real_vidmem (scr t)"] by simp
  qed
qed simp_all

lemma on_mem_printed: "(\<And>a. a \<notin> display t \<Longrightarrow> f (smem (scr t)) a = smem (scr t) a) \<Longrightarrow> printed t (on_mem f t)"
  by (simp add: printed_def)

lemma pointer_printed:
  assumes "can_print t" shows "printed t (on_scr hide_cursor t)" "printed t (on_scr show_cursor t)"
  using assms by (auto simp: printed_def can_print_def display_def cursor_smem)

lemma scroll_printed:
  assumes "can_print t" "scroll t = Some t'" shows "printed t t'" "screen_ok (scr t')"
proof -
  obtain i r where r: "cur_term t = Some (i, r)" and d: "span (video_memory r) 3840 \<inter> span VIDEO 3840 = {}"
    using assms(1) by (auto simp: can_print_def split: option.splits)
  have ti: "term_at i t = Some r" using r by (rule cur_term_at)
  let ?b = "video_memory_base r"
  let ?t1 = "on_mem (\<lambda>m. memcpy m (video_memory r) VIDEO PAGE_BYTES) t"
  let ?t2 = "on_scr hide_cursor ?t1"
  let ?t3 = "on_mem (scroll_lines (?b - PAGE_BYTES * 5)) ?t2"
  let ?t4 = "on_scr show_cursor ?t3"
  let ?t5 = "on_mem (scroll_rows ?b) ?t4"
  have t': "t' = on_mem (scroll_rows (real_vidmem (scr ?t5))) ?t5"
    using assms(2) r ti by (simp add: scroll_def map_backing_page_def scroll_backing_def Let_def)
  have disp: "display u = span (real_vidmem (scr t)) 4000 \<union> terminal_pages r" if "printed t u" for u
    using that display_core [of u t] r by (simp add: printed_def display_def)
  have fine: "can_print u" if "printed t u" "screen_ok (scr u)" for u using can_print_printed [OF that(1) assms(1) that(2)] .
  have ok: "screen_ok (scr t)" using assms(1) by (simp add: can_print_def)
  have p1: "printed t ?t1" "screen_ok (scr ?t1)"
    unfolding memcpy_page [OF d] using ok
    by (auto intro: on_mem_printed simp: display_def r terminal_pages_def store_bytes_outside screen_ok_def)
  have p2: "printed t ?t2" "screen_ok (scr ?t2)"
    using printed_trans [OF p1(1) pointer_printed(1) [OF fine [OF p1]]] p1(2) by (simp_all add: screen_ok_def)
  have mem: "printed t (on_mem f u)" if "printed t u" "\<And>m a. a \<notin> terminal_pages r \<Longrightarrow> f m a = m a" for f u
    using printed_trans [OF that(1) on_mem_printed [of u f]] disp [OF that(1)] that(2) by blast
  have p3: "printed t ?t3" "screen_ok (scr ?t3)"
  proof (rule mem [OF p2(1)])
    show "scroll_lines (?b - PAGE_BYTES * 5) m a = m a" if "a \<notin> terminal_pages r" for m a
      using that span_mono [of 19280 23040 "?b - 19200"] by (intro scroll_lines_outside) (auto simp: terminal_pages_def PAGE_BYTES_def)
  qed (use p2(2) in \<open>simp add: screen_ok_def\<close>)
  have p4: "printed t ?t4" "screen_ok (scr ?t4)"
    using printed_trans [OF p3(1) pointer_printed(2) [OF fine [OF p3]]] p3(2) by (simp_all add: screen_ok_def)
  have p5: "printed t ?t5" "screen_ok (scr ?t5)"
  proof (rule mem [OF p4(1)])
    show "scroll_rows ?b m a = m a" if "a \<notin> terminal_pages r" for m a
      using that span_tail(1) [of 19200 23040 a "?b - 19200"] by (intro scroll_rows_outside) (auto simp: terminal_pages_def)
  qed (use p4(2) in \<open>simp add: screen_ok_def\<close>)
  show "printed t t'" unfolding t'
  proof (rule printed_trans [OF p5(1) on_mem_printed])
    fix a assume "a \<notin> display ?t5"
    then have "a \<notin> span (real_vidmem (scr ?t5)) 3840" using span_mono [of 3840 4000 "real_vidmem (scr ?t5)"] by (auto simp: display_def)
    then show "scroll_rows (real_vidmem (scr ?t5)) (smem (scr ?t5)) a = smem (scr ?t5) a" by (rule scroll_rows_outside)
  qed
  show "screen_ok (scr t')" unfolding t' using p5(2) by (simp add: screen_ok_def)
qed

lemma putc_printed:
  assumes "can_print t" obtains t' where "putc c t = Some t'" "printed t t'" "can_print t'"
proof -
  let ?x = "screen_x (scr t)" and ?y = "screen_y (scr t)"
  obtain i r where r: "cur_term t = Some (i, r)" using assms by (auto simp: can_print_def split: option.splits)
  have xy: "0 \<le> ?x" "?x < 80" "0 \<le> ?y" "?y < 24" using assms by (simp_all add: can_print_def screen_ok_def)
  have sc: "\<exists>u'. scroll u = Some u' \<and> printed t u' \<and> screen_ok (scr u')" if u: "printed t u" "screen_ok (scr u)" for u
  proof -
    have "core u = core t" using u(1) by (simp add: printed_def)
    from cur_term_core [OF this r] obtain r' where "cur_term u = Some (i, r')" .
    then obtain u' where u': "scroll u = Some u'" using scroll_core by blast
    show ?thesis using u' printed_trans [OF u(1)] scroll_printed [OF can_print_printed [OF u(1) assms u(2)] u'] by blast
  qed
  let ?t0 = "on_scr (set_char_attrib ?x ?y (current_attrib (scr t))) t"
  let ?first = "if c = 10 \<or> c = 13 then
          let t1 = ?t0 in if NUM_ROWS \<le> ?y + 1 then do { t2 \<leftarrow> scroll t1; Some (0, ?y, t2) } else Some (0, ?y + 1, t1)
        else Some (?x + 1, ?y, on_scr (put_cell ?x ?y c) t)"
  let ?second = "\<lambda>x1 y1 t1. if x1 = NUM_COLS \<and> y1 = NUM_ROWS - 1 then do {
          t2 \<leftarrow> scroll t1; (i, _) \<leftarrow> cur_term t2; Some (0 :: int, upd_term i lower_start t2) } else Some (x1, t1)"
  have t0: "printed t ?t0" "screen_ok (scr ?t0)" using xy by (auto intro: set_char_attrib_printed simp: screen_ok_def)
  have cell: "printed t (on_scr (put_cell ?x ?y c) t)" "screen_ok (scr (on_scr (put_cell ?x ?y c) t))"
    using xy by (auto intro: put_cell_printed simp: screen_ok_def put_cell_def)
  have "\<exists>x1 y1 t1. ?first = Some (x1, y1, t1) \<and> printed t t1 \<and> screen_ok (scr t1) \<and> 0 \<le> x1 \<and> x1 \<le> 80 \<and> 0 \<le> y1 \<and> y1 < 24"
    using sc [OF t0] t0 cell xy by (auto simp: NUM_ROWS_def Let_def)
  then obtain x1 y1 t1 where t1: "?first = Some (x1, y1, t1)" "printed t t1" "screen_ok (scr t1)" "0 \<le> x1" "x1 \<le> 80" "0 \<le> y1" "y1 < 24" by blast
  have "\<exists>x2 t2. ?second x1 y1 t1 = Some (x2, t2) \<and> printed t t2 \<and> screen_ok (scr t2) \<and> 0 \<le> y1 * 80 + x2 \<and> y1 * 80 + x2 < 1920"
  proof (cases "x1 = NUM_COLS \<and> y1 = NUM_ROWS - 1")
    case True
    obtain t2 where t2: "scroll t1 = Some t2" "printed t t2" "screen_ok (scr t2)" using sc [OF t1(2,3)] by blast
    have "core t2 = core t" using t2(2) by (simp add: printed_def)
    from cur_term_core [OF this r] obtain r2 where "cur_term t2 = Some (i, r2)" .
    moreover have same: "core (upd_term i lower_start t2) = core t2" "scr (upd_term i lower_start t2) = scr t2" by (simp, simp add: upd_term_def)
    then have "printed t2 (upd_term i lower_start t2)" by (simp add: printed_def)
    ultimately show ?thesis using True t2 t1(6,7) printed_trans [OF t2(2)] by (auto simp: NUM_ROWS_def upd_term_def)
  next
    case False
    then show ?thesis using t1 by (auto simp: NUM_COLS_def NUM_ROWS_def)
  qed
  then obtain x2 t2 where t2: "?second x1 y1 t1 = Some (x2, t2)" "printed t t2" "screen_ok (scr t2)" "0 \<le> y1 * 80 + x2" "y1 * 80 + x2 < 1920" by blast
  let ?t3 = "on_scr (set_screen_coordinates x2 y1) t2"
  let ?t4 = "on_scr (\<lambda>s. set_char_attrib x2 y1 (current_attrib s) s) ?t3"
  have "putc c t = Some ?t4" using t1(1) t2(1) unfolding putc_def by (simp add: Let_def)
  moreover have e: "?t4 = on_scr (set_char_attrib x2 y1 (current_attrib (scr ?t3))) ?t3" by (simp add: on_scr_def)
  have p: "printed t ?t4" unfolding e
    by (rule printed_trans [OF printed_trans [OF t2(2) set_coordinates_printed [OF t2(3)]] set_char_attrib_printed [OF t2(4,5)]])
  moreover have "screen_ok (scr ?t4)" using screen_ok_set [of x2 y1 "scr t2"] by (simp add: screen_ok_def)
  ultimately show ?thesis using that can_print_printed [OF p assms] by blast
qed

lemma putcs_printed:
  assumes "can_print t" shows "\<exists>t'. putcs cs t = Some t' \<and> printed t t' \<and> can_print t'"
  using assms
proof (induction cs arbitrary: t)
  case Nil
  then show ?case by (simp add: printed_refl)
next
  case (Cons c cs)
  obtain t1 where t1: "putc c t = Some t1" "printed t t1" "can_print t1" by (rule putc_printed [OF Cons.prems])
  then show ?case using Cons.IH [OF t1(3)] printed_trans [OF t1(2)] by fastforce
qed

lemma printf_printed:
  assumes "can_print t" "render None format vals = Some out"
  obtains t' where "printf stk format vals t = Some (t', int (length format))" "printed t t'" "can_print t'"
  using putcs_printed [OF assms(1), of out] assms(2) that by (auto simp: printf_def printf_loop_renders)

section \<open>Properties\<close>

text \<open>
  C14. Printing is confined to the display: when the current terminal can print and the format fits its
  arguments, \<open>printf\<close> returns, every byte outside of the screen and of the pages of the current
  terminal (its page and the scrollback above) is as it was, and of the terminals only the row
  where a line starts may have moved, whatever scrolling the text causes.
\<close>

theorem printf_confined:
  assumes "can_print t" "render None format vals = Some out"
  shows "\<exists>t'. printf stk format vals t = Some (t', int (length format)) \<and> core t' = core t \<and>
    (\<forall>a. a \<notin> display t \<longrightarrow> smem (scr t') a = smem (scr t) a)"
proof -
  obtain t' where "printf stk format vals t = Some (t', int (length format))" "printed t t'" by (rule printf_printed [OF assms])
  then show ?thesis by (auto simp: printed_def)
qed

lemma page_tty_display: "can_print page_tty" "display page_tty = span 0xB8000 4000 \<union> terminal_pages fresh_terminal"
proof -
  note c = page_tty_pointer(3)
  have "span (video_memory fresh_terminal) 3840 \<inter> span VIDEO 3840 = {}"
    by (auto simp: span_def fresh_terminal_def VIDEO_def unat_sub_if' word_le_nat_alt)
  then show "can_print page_tty" using c page_tty_pointer(1)
    by (simp add: can_print_def page_tty_def fresh_tty_def blank_screen_def span_def screen_ok_def)
  show "display page_tty = span 0xB8000 4000 \<union> terminal_pages fresh_terminal"
    using c by (simp add: display_def page_tty_def fresh_tty_def blank_screen_def)
qed

theorem printf_confined_witness:
  "\<exists>t'. printf (\<lambda>_. 0) (ascii ''%d'' @ [10]) [Word_arg 7] page_tty = Some (t', 3) \<and> smem (scr t') 0x800000 = smem (scr page_tty) 0x800000"
proof -
  have "render None (ascii ''%d'' @ [10]) [Word_arg 7] = Some (signed_chars 7 @ [10])" by (simp add: ascii_def render_conversion_def)
  from printf_confined [OF page_tty_display(1) this, of "\<lambda>_. 0"]
  obtain t' where "printf (\<lambda>_. 0) (ascii ''%d'' @ [10]) [Word_arg 7] page_tty = Some (t', 3)"
    "\<forall>a. a \<notin> display page_tty \<longrightarrow> smem (scr t') a = smem (scr page_tty) a" by (auto simp: ascii_def)
  moreover have "0x800000 \<notin> display page_tty"
    unfolding page_tty_display(2) by (simp add: span_def terminal_pages_def fresh_terminal_def)
  ultimately show ?thesis by blast
qed

end
