(* ===== verification/Fdc.thy ===== *)
theory Fdc
  imports Console Print_Frame
begin

text \<open>
  The floppy disk driver \<^verbatim>\<open>fdc.c\<close>. What the controller does is part of the state: the bytes it
  returns through its data register, in order, and what each transfer before an interrupt does to
  memory. The polls of the status register are taken to end; reading past the answers, or waiting
  for an interrupt that never comes, is \<open>None\<close>. The address of the DMA buffer is an argument.
\<close>

section \<open>State\<close>

datatype fdc_motor_state = MOTOR_OFF | MOTOR_ON | MOTOR_WAIT

datatype fdc_direction = FDC_READ | FDC_WRITE

record fdc =
  motor_state :: fdc_motor_state
  fdc_interrupt_occurred :: bool
  fdc_drive :: int
  fdc_ports :: port_log
  fdc_answers :: "u8 list"
  fdc_transfers :: "(memory \<Rightarrow> memory) list"
  host :: kernel

definition FDC_MAX_SIZE :: int where "FDC_MAX_SIZE = 1474560"

definition FDC_BUFFER_SIZE :: int where "FDC_BUFFER_SIZE = 0x4800"

definition FDC_REG_BASE :: u16 where "FDC_REG_BASE = 0x3F0"

definition fdc_outb :: "u8 \<Rightarrow> u16 \<Rightarrow> fdc \<Rightarrow> fdc" where
  "fdc_outb data port s = s\<lparr>fdc_ports := fdc_ports s @ [(port, data)]\<rparr>"

definition on_host :: "(kernel \<Rightarrow> kernel) \<Rightarrow> fdc \<Rightarrow> fdc" where
  "on_host f s = s\<lparr>host := f (host s)\<rparr>"

definition fdc_print :: "string \<Rightarrow> printf_arg list \<Rightarrow> fdc \<Rightarrow> fdc option" where
  "fdc_print fmt vals s = do {
     k \<leftarrow> on_tty (\<lambda>t. map_option fst (printf (\<lambda>_. 0) (ascii (fmt @ [CHR 0x0A])) vals t)) (host s);
     Some (s\<lparr>host := k\<rparr>)
   }"

section \<open>The controller\<close>

definition fdc_write_cmd :: "u8 \<Rightarrow> fdc \<Rightarrow> fdc" where
  "fdc_write_cmd cmd s = fdc_outb cmd (FDC_REG_BASE + 5) s"

fun fdc_write_cmds :: "u8 list \<Rightarrow> fdc \<Rightarrow> fdc" where
  "fdc_write_cmds [] s = s"
| "fdc_write_cmds (c # cs) s = fdc_write_cmds cs (fdc_write_cmd c s)"

definition fdc_read_data :: "fdc \<Rightarrow> (fdc \<times> u8) option" where
  "fdc_read_data s = (case fdc_answers s of [] \<Rightarrow> None | b # bs \<Rightarrow> Some (s\<lparr>fdc_answers := bs\<rparr>, b))"

definition fdc_handler :: "fdc \<Rightarrow> fdc" where
  "fdc_handler s = on_host (\<lambda>k. k\<lparr>irqs := send_eoi 6 (irqs k)\<rparr>) (s\<lparr>fdc_interrupt_occurred := True\<rparr>)"

definition fdc_irq_wait :: "fdc \<Rightarrow> fdc option" where
  "fdc_irq_wait s = do {
     let s1 = on_host (\<lambda>k. k\<lparr>cflags := sti (cflags k)\<rparr>) s;
     s2 \<leftarrow> (if fdc_interrupt_occurred s1 then Some s1
           else case fdc_transfers s1 of
               [] \<Rightarrow> None
             | f # fs \<Rightarrow> Some (fdc_handler (on_host (\<lambda>k. set_mem (f (mem k)) k) (s1\<lparr>fdc_transfers := fs\<rparr>))));
     Some ((on_host (\<lambda>k. k\<lparr>cflags := cli (cflags k)\<rparr>) s2)\<lparr>fdc_interrupt_occurred := False\<rparr>)
   }"

definition fdc_awk :: "fdc \<Rightarrow> (fdc \<times> u8 \<times> u8) option" where
  "fdc_awk s = do {
     (s1, st0) \<leftarrow> fdc_read_data (fdc_write_cmd 8 s);
     (s2, cyl) \<leftarrow> fdc_read_data s1;
     Some (s2, st0, cyl)
   }"

definition drive_byte :: "fdc \<Rightarrow> u8" where
  "drive_byte s = of_int (fdc_drive s)"

text \<open>The digital output register: two bits of drive, no reset, DMA, and a motor bit per drive.\<close>

definition fdc_motor :: "fdc_motor_state \<Rightarrow> fdc \<Rightarrow> fdc" where
  "fdc_motor set_state s =
     (let dor = (drive_byte s AND 3) OR 4 OR 8;
          on = (if 0 \<le> fdc_drive s \<and> fdc_drive s \<le> 3 then dor OR push_bit (4 + nat (fdc_drive s)) 1 else dor)
      in if set_state = MOTOR_ON
         then (if motor_state s = MOTOR_OFF then fdc_outb on (FDC_REG_BASE + 2) s else s)\<lparr>motor_state := MOTOR_ON\<rparr>
         else (fdc_outb dor (FDC_REG_BASE + 2) s)\<lparr>motor_state := MOTOR_OFF\<rparr>)"

definition ic_name :: "string \<Rightarrow> string \<Rightarrow> string \<Rightarrow> u8 \<Rightarrow> string" where
  "ic_name a b c st0 = (if drop_bit 6 st0 = 1 then a else if drop_bit 6 st0 = 2 then b else c)"

partial_function (option) calibrate_loop :: "fdc \<Rightarrow> (fdc \<times> int) option" where
  "calibrate_loop s = do {
     s1 \<leftarrow> fdc_irq_wait (fdc_write_cmds [7, drive_byte s] s);
     (s2, st0, cyl) \<leftarrow> fdc_awk s1;
     if drop_bit 6 st0 \<noteq> 0 then do {
       s3 \<leftarrow> fdc_print ''floppy_calibrate: status = %s'' [String_arg (ascii (ic_name ''error'' ''invalid'' ''drive'' st0))] s2;
       calibrate_loop s3
     }
     else if cyl = 0 then Some (fdc_motor MOTOR_OFF s2, 0)
     else calibrate_loop s2
   }"

definition fdc_calibrate :: "fdc \<Rightarrow> (fdc \<times> int) option" where
  "fdc_calibrate s = calibrate_loop (fdc_motor MOTOR_ON s)"

definition fdc_reset :: "fdc \<Rightarrow> (fdc \<times> int) option" where
  "fdc_reset s = do {
     s1 \<leftarrow> fdc_irq_wait (fdc_outb 0x0C (FDC_REG_BASE + 2) (fdc_outb 0 (FDC_REG_BASE + 2) s));
     (s2, _) \<leftarrow> fdc_awk s1;
     (s3, r) \<leftarrow> fdc_calibrate (fdc_write_cmds [3, 0xDF, 2] (fdc_outb 0 (FDC_REG_BASE + 7) s2));
     Some (s3, if r \<noteq> 0 then - 1 else 0)
   }"

definition fdc_init :: "u32 \<Rightarrow> fdc \<Rightarrow> (fdc \<times> int) option" where
  "fdc_init drive s =
     (if 1 < drive then Some (s, - 1)
      else do {
        (s1, ret) \<leftarrow> fdc_reset (s\<lparr>fdc_drive := uint drive\<rparr>);
        Some (if ret \<noteq> 0 then s1\<lparr>fdc_drive := - 1\<rparr> else s1, ret)
      })"

partial_function (option) seek_loop :: "u32 \<Rightarrow> u32 \<Rightarrow> fdc \<Rightarrow> (fdc \<times> int) option" where
  "seek_loop cylinder head s = do {
     s1 \<leftarrow> fdc_irq_wait (fdc_write_cmds [15, ucast (push_bit 2 head) OR drive_byte s, ucast cylinder] s);
     (s2, st0, cyl) \<leftarrow> fdc_awk s1;
     if drop_bit 6 st0 \<noteq> 0 then do {
       s3 \<leftarrow> fdc_print ''floppy_seek: status = %s'' [String_arg (ascii (ic_name ''error'' ''invalid'' ''drive'' st0))] s2;
       seek_loop cylinder head s3
     }
     else if ucast cyl = cylinder then Some (fdc_motor MOTOR_OFF s2, 0)
     else seek_loop cylinder head s2
   }"

declare calibrate_loop.simps [simp del] seek_loop.simps [simp del]

definition fdc_seek :: "u32 \<Rightarrow> u32 \<Rightarrow> fdc \<Rightarrow> (fdc \<times> int) option" where
  "fdc_seek cylinder head s = seek_loop cylinder head (fdc_motor MOTOR_ON s)"

section \<open>Transfers\<close>

definition byte_of :: "nat \<Rightarrow> u32 \<Rightarrow> u8" where
  "byte_of i w = ucast (drop_bit (8 * i) w)"

fun outbs :: "(u8 \<times> u16) list \<Rightarrow> fdc \<Rightarrow> fdc" where
  "outbs [] s = s"
| "outbs ((d, p) # l) s = outbs l (fdc_outb d p s)"

definition fdc_dma_init :: "u32 \<Rightarrow> fdc_direction \<Rightarrow> fdc \<Rightarrow> fdc option" where
  "fdc_dma_init dma dir s =
     (let c = of_int (FDC_BUFFER_SIZE - 1) :: u32 in
      if drop_bit 24 dma \<noteq> 0 \<or> drop_bit 16 c \<noteq> 0 \<or> drop_bit 16 ((dma AND 0xFFFF) + c) \<noteq> 0 then fdc_print ''fdc_dma_init: dma buffer error'' [] s
      else Some (outbs [(0x06, 0x0A), (0xFF, 0x0C), (byte_of 0 dma, 0x04), (byte_of 1 dma, 0x04), (byte_of 2 dma, 0x81), (0xFF, 0x0C),
        (byte_of 0 c, 0x05), (byte_of 1 c, 0x05), (if dir = FDC_READ then 0x46 else 0x4A, 0x0B), (0x02, 0x0A)] s))"

text \<open>The first error the three status bytes and the sector size show, with its message and code.\<close>

definition track_error :: "u8 \<Rightarrow> u8 \<Rightarrow> u8 \<Rightarrow> u8 \<Rightarrow> (string \<times> printf_arg list \<times> int) option" where
  "track_error st0 st1 st2 bps =
     (if drop_bit 6 st0 \<noteq> 0 then
        Some (''fdc_do_track: status = %s'', [String_arg (ascii (ic_name ''error'' ''invalid command'' ''drive not ready'' st0))], 1)
      else if bit st1 7 then Some (''fdc_do_track: end of cylinder'', [], 1)
      else if bit st0 3 then Some (''fdc_do_track: drive not ready'', [], 1)
      else if bit st1 5 then Some (''fdc_do_track: error in ID address field'', [], 1)
      else if bit st1 4 then Some (''fdc_do_track: controller timeout'', [], 1)
      else if bit st1 2 then Some (''fdc_do_track: no data found'', [], 1)
      else if bit st1 0 \<or> bit st2 0 then Some (''fdc_do_track: no address mark found'', [], 1)
      else if bit st2 6 then Some (''fdc_do_track: deleted address mark'', [], 1)
      else if bit st2 5 then Some (''fdc_do_track: CRC error in data'', [], 1)
      else if bit st2 4 then Some (''fdc_do_track: wrong cylinder'', [], 1)
      else if bit st2 2 then Some (''fdc_do_track: uPD765 sector not found'', [], 1)
      else if bit st2 1 then Some (''fdc_do_track: bad cylinder'', [], 1)
      else if bps \<noteq> 2 then Some (''fdc_do_track: wanted 512B/sector, got %d'', [Word_arg (push_bit ((unat bps + 7) mod 32) 1)], 1)
      else if bit st1 1 then Some (''fdc_do_track: not writable'', [], 2)
      else None)"

fun read_answers :: "nat \<Rightarrow> fdc \<Rightarrow> (fdc \<times> u8 list) option" where
  "read_answers 0 s = Some (s, [])"
| "read_answers (Suc n) s = do { (s1, b) \<leftarrow> fdc_read_data s; (s2, bs) \<leftarrow> read_answers n s1; Some (s2, b # bs) }"

definition fdc_check_error :: "fdc \<Rightarrow> (fdc \<times> int) option" where
  "fdc_check_error s = do {
     (s1, bs) \<leftarrow> read_answers 7 s;
     (case track_error (bs ! 0) (bs ! 1) (bs ! 2) (bs ! 6) of
        None \<Rightarrow> Some (s1, 0)
      | Some (fmt, vals, e) \<Rightarrow> do { s2 \<leftarrow> fdc_print fmt vals s1; Some (s2, e) })
   }"

definition track_command :: "u32 \<Rightarrow> fdc_direction \<Rightarrow> fdc \<Rightarrow> u8 list" where
  "track_command cylinder dir s =
     [(if dir = FDC_READ then 6 else 5) OR 0xC0, drive_byte s, ucast cylinder, 0, 1, 2, 0x12, 0x1B, 0xFF]"

partial_function (option) track_loop :: "u32 \<Rightarrow> u32 \<Rightarrow> fdc_direction \<Rightarrow> fdc \<Rightarrow> (fdc \<times> int) option" where
  "track_loop dma cylinder dir s = do {
     s1 \<leftarrow> fdc_dma_init dma dir (fdc_motor MOTOR_ON s);
     s2 \<leftarrow> fdc_irq_wait (fdc_write_cmds (track_command cylinder dir s1) s1);
     (s3, error) \<leftarrow> fdc_check_error s2;
     if error = 0 then Some (fdc_motor MOTOR_OFF s3, 0)
     else if 1 < error then do { s4 \<leftarrow> fdc_print ''fdc_do_track: fatal sector error'' [] s3; Some (s4, - 2) }
     else track_loop dma cylinder dir s3
   }"

declare track_loop.simps [simp del]

definition fdc_do_track :: "u32 \<Rightarrow> u32 \<Rightarrow> fdc_direction \<Rightarrow> fdc \<Rightarrow> (fdc \<times> int) option" where
  "fdc_do_track dma cylinder dir s = do {
     (s1, r1) \<leftarrow> fdc_seek cylinder 0 s;
     if r1 \<noteq> 0 then Some (s1, - 1)
     else do {
       (s2, r2) \<leftarrow> fdc_seek cylinder 1 s1;
       if r2 \<noteq> 0 then Some (s2, - 1) else track_loop dma cylinder dir s2
     }
   }"

section \<open>The disk\<close>

partial_function (option) write_cylinders :: "u32 \<Rightarrow> u32 \<Rightarrow> int \<Rightarrow> int \<Rightarrow> int \<Rightarrow> fdc \<Rightarrow> (fdc \<times> int) option" where
  "write_cylinders dma buffer cylinder offset left s =
     (if 0 < left then do {
        let n = (if left < FDC_BUFFER_SIZE then left else FDC_BUFFER_SIZE);
        (s1, ret) \<leftarrow> fdc_do_track dma (of_int cylinder) FDC_WRITE
          (on_host (\<lambda>k. set_mem (memcpy (mem k) dma (buffer + of_int offset) (of_int n)) k) s);
        if ret \<noteq> 0 then Some (s1, ret)
        else write_cylinders dma buffer (cylinder + 1) (offset + n) (left - n) s1
      } else Some (s, 0))"

definition fdc_disk_write :: "u32 \<Rightarrow> u32 \<Rightarrow> u32 \<Rightarrow> fdc \<Rightarrow> (fdc \<times> int) option" where
  "fdc_disk_write dma buffer n s =
     (if fdc_drive s < 0 then Some (s, - 1)
      else if FDC_MAX_SIZE < uint n then Some (s, - 1)
      else write_cylinders dma buffer 0 0 (uint n) s)"

partial_function (option) read_cylinders :: "u32 \<Rightarrow> u32 \<Rightarrow> int \<Rightarrow> int \<Rightarrow> int \<Rightarrow> fdc \<Rightarrow> (fdc \<times> int) option" where
  "read_cylinders dma buffer cylinder offset left s =
     (if 0 < left then do {
        let n = (if left < FDC_BUFFER_SIZE then left else FDC_BUFFER_SIZE);
        (s1, ret) \<leftarrow> fdc_do_track dma (of_int cylinder) FDC_READ s;
        if ret \<noteq> 0 then Some (s1, ret)
        else read_cylinders dma buffer (cylinder + 1) (offset + n) (left - n)
          (on_host (\<lambda>k. set_mem (memcpy (mem k) (buffer + of_int offset) dma (of_int n)) k) s1)
      } else Some (s, 0))"

declare write_cylinders.simps [simp del] read_cylinders.simps [simp del]

definition fdc_disk_read :: "u32 \<Rightarrow> u32 \<Rightarrow> u32 \<Rightarrow> fdc \<Rightarrow> (fdc \<times> int) option" where
  "fdc_disk_read dma buffer n s =
     (if fdc_drive s < 0 then Some (s, - 1)
      else if FDC_MAX_SIZE < uint n then Some (s, - 1)
      else read_cylinders dma buffer 0 0 (uint n) s)"

text \<open>The names of the drive types are indexed with four bits of a CMOS byte, but there are eight.\<close>

definition drive_types :: "string list" where
  "drive_types = [''none'', ''360kB 5.25'' @ [CHR 0x22], ''1.2MB 5.25'' @ [CHR 0x22], ''720kB 3.5'' @ [CHR 0x22],
     ''1.44MB 2.5'' @ [CHR 0x22], ''2.88MB 3.5'' @ [CHR 0x22], ''unknown type'', ''unknown type'']"

definition fdc_detect_drives :: "u8 \<Rightarrow> fdc \<Rightarrow> fdc option" where
  "fdc_detect_drives cmos s = do {
     let s0 = fdc_outb 0x10 0x70 s;
     let (a, b) = (unat (drop_bit 4 cmos), unat (cmos AND 0xF));
     if 8 \<le> a then None
     else do {
       s1 \<leftarrow> fdc_print '' - Floppy drive 0: %s'' [String_arg (ascii (drive_types ! a))] s0;
       if 8 \<le> b then None
       else fdc_print '' - Floppy drive 1: %s'' [String_arg (ascii (drive_types ! b))] s1
     }
   }"

section \<open>A transfer without errors\<close>

text \<open>
  What the driver's steps see of the state: drive, interrupt flag, answers, transfers and memory;
  and the terminals and the file system, which they leave alone.
\<close>

definition view :: "fdc \<Rightarrow> (int \<times> tty \<times> fs) \<times> bool \<times> u8 list \<times> (memory \<Rightarrow> memory) list \<times> memory" where
  "view s = ((fdc_drive s, ktty (host s), kfs (host s)), fdc_interrupt_occurred s, fdc_answers s, fdc_transfers s, mem (host s))"

lemma mem_set_mem [simp]: "mem (set_mem m k) = m"
  by (simp add: mem_def set_mem_def)

lemma view_simps [simp]:
  "view (fdc_outb d p s) = view s" "view (fdc_write_cmd c s) = view s" "view (fdc_motor m s) = view s"
  "view (fdc_write_cmds cs s) = view s" "view (outbs l s) = view s"
proof -
  show o: "view (fdc_outb d p s) = view s" for d p s by (simp add: view_def fdc_outb_def)
  then show w: "view (fdc_write_cmd c s) = view s" for c s by (simp add: fdc_write_cmd_def)
  have "view (s\<lparr>motor_state := x\<rparr>) = view s" for x s by (simp add: view_def)
  then show "view (fdc_motor m s) = view s" using o by (simp add: fdc_motor_def Let_def)
  show "view (fdc_write_cmds cs s) = view s" by (induction cs arbitrary: s) (simp_all add: w)
  show "view (outbs l s) = view s" by (induction l s rule: outbs.induct) (simp_all add: o)
qed

lemma irq_wait_view:
  assumes "view s = (d, False, ans, f # fs, m)"
  obtains s' where "fdc_irq_wait s = Some s'" "view s' = (d, False, ans, fs, f m)"
  using assms that by (auto simp: fdc_irq_wait_def view_def on_host_def fdc_handler_def mem_def set_mem_def)

lemma read_data_view:
  assumes "view s = (d, fl, a # ans, fs, m)"
  obtains s' where "fdc_read_data s = Some (s', a)" "view s' = (d, fl, ans, fs, m)"
  using assms that by (auto simp: fdc_read_data_def view_def)

lemma awk_view:
  assumes "view s = (d, fl, a # c # ans, fs, m)"
  obtains s' where "fdc_awk s = Some (s', a, c)" "view s' = (d, fl, ans, fs, m)"
proof -
  obtain s1 where s1: "fdc_read_data (fdc_write_cmd 8 s) = Some (s1, a)" "view s1 = (d, fl, c # ans, fs, m)"
    by (rule read_data_view [of "fdc_write_cmd 8 s"]) (use assms in simp_all)
  obtain s2 where "fdc_read_data s1 = Some (s2, c)" "view s2 = (d, fl, ans, fs, m)" by (rule read_data_view [OF s1(2)])
  then show ?thesis using that s1(1) by (simp add: fdc_awk_def)
qed

lemma read_answers_view:
  assumes "view s = (d, fl, bs @ ans, fs, m)"
  shows "\<exists>s'. read_answers (length bs) s = Some (s', bs) \<and> view s' = (d, fl, ans, fs, m)"
  using assms
proof (induction bs arbitrary: s)
  case (Cons b bs)
  obtain s1 where s1: "fdc_read_data s = Some (s1, b)" "view s1 = (d, fl, bs @ ans, fs, m)"
    by (rule read_data_view [of s d fl b "bs @ ans" fs m]) (use Cons.prems in simp_all)
  from Cons.IH [OF s1(2)] show ?case using s1(1) by auto
qed simp

lemma seek_view:
  assumes "view s = (d, False, a # c # ans, f # fs, m)" "drop_bit 6 a = 0" "ucast c = cylinder"
  obtains s' where "fdc_seek cylinder head s = Some (s', 0)" "view s' = (d, False, ans, fs, f m)"
proof -
  let ?s = "fdc_motor MOTOR_ON s"
  obtain s1 where s1: "fdc_irq_wait (fdc_write_cmds [15, ucast (push_bit 2 head) OR drive_byte ?s, ucast cylinder] ?s) = Some s1"
    "view s1 = (d, False, a # c # ans, fs, f m)"
    by (rule irq_wait_view [of "fdc_write_cmds [15, ucast (push_bit 2 head) OR drive_byte ?s, ucast cylinder] ?s"]) (use assms(1) in simp_all)
  obtain s2 where s2: "fdc_awk s1 = Some (s2, a, c)" "view s2 = (d, False, ans, fs, f m)" by (rule awk_view [OF s1(2)])
  have "fdc_seek cylinder head s = Some (fdc_motor MOTOR_OFF s2, 0)"
    using s1(1) s2(1) assms(2,3) unfolding fdc_seek_def by (subst seek_loop.simps) simp
  then show ?thesis using that [of "fdc_motor MOTOR_OFF s2"] s2(2) by simp
qed

definition dma_ok :: "u32 \<Rightarrow> bool" where
  "dma_ok dma \<longleftrightarrow> drop_bit 24 dma = 0 \<and> drop_bit 16 ((dma AND 0xFFFF) + 0x47FF) = 0"

lemma dma_init_view:
  assumes "dma_ok dma"
  obtains s' where "fdc_dma_init dma dir s = Some s'" "view s' = view s"
proof -
  have "drop_bit 16 (0x47FF :: u32) = 0" by (simp add: drop_bit_eq_div)
  then show ?thesis using assms that by (simp add: fdc_dma_init_def Let_def dma_ok_def FDC_BUFFER_SIZE_def)
qed

text \<open>The answers for one cylinder without an error: two seeks and the result of the transfer.\<close>

definition clean :: "nat \<Rightarrow> u8 list \<Rightarrow> bool" where
  "clean c as \<longleftrightarrow> (\<exists>a b r. as = [a, of_nat c, b, of_nat c] @ r \<and> drop_bit 6 a = 0 \<and> drop_bit 6 b = 0 \<and> length r = 7 \<and>
     track_error (r ! 0) (r ! 1) (r ! 2) (r ! 6) = None)"

lemma do_track_view:
  assumes "view s = (d, False, as @ ans, f1 # f2 # f3 # fs, m)" "clean c as" "c < 256" "dma_ok dma"
  obtains s' where "fdc_do_track dma (of_nat c) dir s = Some (s', 0)" "view s' = (d, False, ans, fs, f3 (f2 (f1 m)))"
proof -
  obtain a b r where as: "as = [a, of_nat c, b, of_nat c] @ r" "drop_bit 6 a = 0" "drop_bit 6 b = 0" "length r = 7"
    "track_error (r ! 0) (r ! 1) (r ! 2) (r ! 6) = None" using assms(2) by (auto simp: clean_def)
  have c: "ucast (of_nat c :: u8) = (of_nat c :: u32)"
    using assms(3) by (simp add: word_unat_eq_iff unsigned_ucast_eq unsigned_of_nat take_bit_nat_eq_self)
  obtain s1 where s1: "fdc_seek (of_nat c) 0 s = Some (s1, 0)" "view s1 = (d, False, b # of_nat c # r @ ans, f2 # f3 # fs, f1 m)"
    by (rule seek_view [OF _ as(2) c, of s d "b # of_nat c # r @ ans" f1 "f2 # f3 # fs" m 0]) (use assms(1) as(1) in simp_all)
  obtain s2 where s2: "fdc_seek (of_nat c) 1 s1 = Some (s2, 0)" "view s2 = (d, False, r @ ans, f3 # fs, f2 (f1 m))"
    using seek_view [OF s1(2) as(3) c] by metis
  obtain s3 where s3: "fdc_dma_init dma dir (fdc_motor MOTOR_ON s2) = Some s3" "view s3 = view s2"
    using dma_init_view [OF assms(4), of dir "fdc_motor MOTOR_ON s2"] by auto
  obtain s4 where s4: "fdc_irq_wait (fdc_write_cmds (track_command (of_nat c) dir s3) s3) = Some s4"
    "view s4 = (d, False, r @ ans, fs, f3 (f2 (f1 m)))"
    by (rule irq_wait_view [of "fdc_write_cmds (track_command (of_nat c) dir s3) s3"]) (use s3(2) s2(2) in simp_all)
  obtain s5 where s5: "read_answers (length r) s4 = Some (s5, r)" "view s5 = (d, False, ans, fs, f3 (f2 (f1 m)))"
    using read_answers_view [OF s4(2)] by blast
  have "fdc_check_error s4 = Some (s5, 0)" using s5(1) as(4,5) by (simp add: fdc_check_error_def)
  then have "track_loop dma (of_nat c) dir s2 = Some (fdc_motor MOTOR_OFF s5, 0)" using s3(1) s4(1) by (subst track_loop.simps) simp
  then show ?thesis using that [of "fdc_motor MOTOR_OFF s5"] s1(1) s2(1) s5(2) by (simp add: fdc_do_track_def)
qed

section \<open>Reading cylinders\<close>

abbreviation CYL :: nat where "CYL \<equiv> 18432"

text \<open>What the controller does for a range of cylinders: the seeks leave memory, the transfer fills the DMA buffer.\<close>

definition cylinder_transfers :: "u32 \<Rightarrow> (nat \<Rightarrow> u8 list) \<Rightarrow> nat list \<Rightarrow> (memory \<Rightarrow> memory) list" where
  "cylinder_transfers dma D cs = concat (map (\<lambda>c. [id, id, \<lambda>m. store_bytes m dma (D c)]) cs)"

lemma copy_from_buffer:
  assumes "length bs = CYL" "e \<le> CYL" "dst \<notin> span dma CYL"
  shows "memcpy (store_bytes m dma bs) dst dma (of_nat e) = store_bytes (store_bytes m dma bs) dst (take e bs)"
proof -
  have e: "unat (of_nat e :: u32) = e" using assms(2) by (intro unat_of_nat_u32) simp
  have "CYL \<le> unat (dst - dma)" using assms(3) by (simp add: span_def)
  then have le: "unat (of_nat e :: u32) \<le> unat (dst - dma)" using assms(2) unfolding e by linarith
  have "bytes (store_bytes m dma bs) dma CYL = bs" using bytes_store_bytes [of bs m dma] assms(1) by simp
  then have "bytes (store_bytes m dma bs) dma e = take e bs" using take_bytes [OF assms(2), of "store_bytes m dma bs" dma] by simp
  then show ?thesis unfolding memcpy_copy [OF le] e by simp
qed

lemma read_cylinders_view:
  assumes "view s = (d, False, concat as @ ans, cylinder_transfers dma D [c..<c + length as] @ fs, m)" "dma_ok dma"
    and "\<forall>i < length as. clean (c + i) (as ! i)" "c + length as \<le> 256" "\<forall>i. length (D i) = CYL"
    and "n \<le> length as * CYL" "length as * CYL < n + CYL" "off + n \<le> N" "N < 2 ^ 31" "span dma CYL \<inter> span buffer N = {}"
  shows "\<exists>s' m'. read_cylinders dma buffer (int c) (int off) (int n) s = Some (s', 0) \<and> view s' = (d, False, ans, fs, m') \<and>
    bytes m' (buffer + of_nat off) n = take n (concat (map D [c..<c + length as])) \<and>
    (\<forall>a. a \<notin> span dma CYL \<and> a \<notin> span (buffer + of_nat off) n \<longrightarrow> m' a = m a)"
  using assms(1,3,4,6-8)
proof (induction as arbitrary: s c n off m)
  case Nil
  then have "n = 0" by simp
  then show ?case using Nil.prems(1) by (subst read_cylinders.simps) (auto simp: cylinder_transfers_def bytes_def)
next
  case (Cons x as)
  let ?e = "min n CYL" and ?dst = "buffer + of_nat off" and ?r = "concat (map D [Suc c..<Suc c + length as])"
  have n: "0 < n" and small: "n < 2 ^ 31" using Cons.prems(5,6) assms(9) by simp_all
  have up: "[c..<c + length (x # as)] = c # [Suc c..<Suc c + length as]" by (simp add: upt_conv_Cons del: upt_Suc)
  have dst: "?dst \<notin> span dma CYL" using assms(10) in_span [of off N buffer] Cons.prems(6) assms(9) n by auto
  have v0: "view s = (d, False, x @ concat as @ ans, id # id # (\<lambda>m. store_bytes m dma (D c)) #
      (cylinder_transfers dma D [Suc c..<Suc c + length as] @ fs), m)"
    using Cons.prems(1) unfolding up by (simp add: cylinder_transfers_def)
  have clean0: "clean c x" using Cons.prems(2) by force
  obtain s1 where s1: "fdc_do_track dma (of_nat c) FDC_READ s = Some (s1, 0)"
    "view s1 = (d, False, concat as @ ans, cylinder_transfers dma D [Suc c..<Suc c + length as] @ fs, store_bytes m dma (D c))"
    by (rule do_track_view [OF v0 clean0 _ assms(2)]) (use Cons.prems(3) in simp_all)
  let ?m2 = "store_bytes (store_bytes m dma (D c)) ?dst (take ?e (D c))"
  let ?s2 = "on_host (\<lambda>k. set_mem (memcpy (mem k) ?dst dma (of_nat ?e)) k) s1"
  have v2: "view ?s2 = (d, False, concat as @ ans, cylinder_transfers dma D [Suc c..<Suc c + length as] @ fs, ?m2)"
  proof -
    have "mem (host s1) = store_bytes m dma (D c)" using s1(2) by (simp add: view_def)
    then have "mem (host ?s2) = ?m2" using copy_from_buffer [of "D c" ?e ?dst dma m] assms(5) dst by (simp add: on_host_def)
    moreover have "fdc_drive ?s2 = fdc_drive s1" "fdc_interrupt_occurred ?s2 = fdc_interrupt_occurred s1" "fdc_answers ?s2 = fdc_answers s1"
      "fdc_transfers ?s2 = fdc_transfers s1" "ktty (host ?s2) = ktty (host s1)" "kfs (host ?s2) = kfs (host s1)" by (simp_all add: on_host_def set_mem_def)
    ultimately show ?thesis using s1(2) by (simp add: view_def del: upt_Suc)
  qed
  have step: "read_cylinders dma buffer (int c) (int off) (int n) s = read_cylinders dma buffer (int (Suc c)) (int (off + ?e)) (int (n - ?e)) ?s2"
  proof -
    have e: "(if int n < FDC_BUFFER_SIZE then int n else FDC_BUFFER_SIZE) = int ?e" by (simp add: FDC_BUFFER_SIZE_def)
    have i: "int c + 1 = int (Suc c)" "int off + int ?e = int (off + ?e)" "int n - int ?e = int (n - ?e)" "0 < int n" using n by simp_all
    show ?thesis unfolding read_cylinders.simps [of dma buffer "int c"] e Let_def i(1-3) if_P [OF i(4)] of_int_of_nat_eq s1(1) by simp
  qed
  have clean: "\<forall>i < length as. clean (Suc c + i) (as ! i)" using Cons.prems(2) by auto
  have b: "n - ?e \<le> length as * CYL" "length as * CYL < n - ?e + CYL" "off + ?e + (n - ?e) \<le> N" "Suc c + length as \<le> 256"
    using Cons.prems(3-6) by auto
  obtain s' m' where s': "read_cylinders dma buffer (int (Suc c)) (int (off + ?e)) (int (n - ?e)) ?s2 = Some (s', 0)" "view s' = (d, False, ans, fs, m')"
    "bytes m' (buffer + of_nat (off + ?e)) (n - ?e) = take (n - ?e) ?r"
    "\<forall>a. a \<notin> span dma CYL \<and> a \<notin> span (buffer + of_nat (off + ?e)) (n - ?e) \<longrightarrow> m' a = ?m2 a"
    using Cons.IH [OF v2 clean b(4,1,2,3)] by blast
  have far: "?dst + of_nat i \<notin> span dma CYL" if "i < n" for i
  proof -
    have "buffer + of_nat (off + i) \<in> span buffer N" using that Cons.prems(6) assms(9) by (intro in_span) simp_all
    then show ?thesis using assms(10) by (auto simp: add.assoc)
  qed
  have len: "length (take ?e (D c)) = ?e" using assms(5) by simp
  have pre: "bytes m' ?dst ?e = take ?e (D c)"
  proof -
    have "m' (?dst + of_nat i) = ?m2 (?dst + of_nat i)" if i: "i < ?e" for i
    proof -
      have "?dst + of_nat i \<notin> span (buffer + of_nat (off + ?e)) (n - ?e)"
        using span_tail(2) [of ?e n "?dst + of_nat i" ?dst] i small unat_of_nat_u32 [of i] by (auto simp: add.assoc)
      then show ?thesis using s'(4) far [of i] i by auto
    qed
    then have "bytes m' ?dst ?e = bytes ?m2 ?dst ?e" by (simp add: bytes_def)
    also have "\<dots> = take ?e (D c)" using bytes_store_bytes [of "take ?e (D c)" "store_bytes m dma (D c)" ?dst] unfolding len by simp
    finally show ?thesis .
  qed
  have "bytes m' ?dst n = bytes m' ?dst ?e @ bytes m' (?dst + of_nat ?e) (n - ?e)" using bytes_append [of m' ?dst ?e "n - ?e"] by simp
  also have "\<dots> = take n (concat (map D [c..<c + length (x # as)]))"
    unfolding pre up using s'(3) assms(5) by (cases "n \<le> CYL") (simp_all add: add.assoc del: upt_Suc)
  finally have bytes: "bytes m' ?dst n = take n (concat (map D [c..<c + length (x # as)]))" .
  have "m' a = m a" if "a \<notin> span dma CYL" "a \<notin> span ?dst n" for a
  proof -
    have "a \<notin> span (buffer + of_nat (off + ?e)) (n - ?e)"
      using span_tail(1) [of ?e n a ?dst] that(2) small by (auto simp: add.assoc)
    moreover have "a \<notin> span ?dst ?e" using that(2) by (simp add: span_def)
    ultimately show ?thesis using s'(4) that(1) assms(5) len by (simp add: store_bytes_outside)
  qed
  then show ?case using step s'(1,2) bytes by auto
qed

lemma disk_read_view:
  assumes "view s = ((d, w), False, concat as, cylinder_transfers dma D [0..<length as], m)" "0 \<le> d" "uint n \<le> FDC_MAX_SIZE" "dma_ok dma"
    and "\<forall>c < length as. clean c (as ! c)" "\<forall>c. length (D c) = CYL"
    and "unat n \<le> length as * CYL" "length as * CYL < unat n + CYL" "span dma CYL \<inter> span buffer (unat n) = {}"
  shows "\<exists>s' m'. fdc_disk_read dma buffer n s = Some (s', 0) \<and> view s' = ((d, w), False, [], [], m') \<and>
    bytes m' buffer (unat n) = take (unat n) (concat (map D [0..<length as])) \<and>
    (\<forall>a. a \<notin> span dma CYL \<and> a \<notin> span buffer (unat n) \<longrightarrow> m' a = m a)"
proof -
  have i: "int (unat n) = uint n" by (simp add: unsigned_of_nat)
  have n: "unat n \<le> 1474560" using assms(3) unfolding FDC_MAX_SIZE_def i [symmetric] by linarith
  have d: "fdc_drive s = d" using assms(1) by (auto simp: view_def)
  have v: "view s = ((d, w), False, concat as @ [], cylinder_transfers dma D [0..<0 + length as] @ [], m)" using assms(1) by simp
  have "0 + length as \<le> 256" using assms(8) n by linarith
  from read_cylinders_view [OF v assms(4) _ this assms(6-8), of 0 "unat n" buffer]
  have "\<exists>s' m'. read_cylinders dma buffer 0 0 (int (unat n)) s = Some (s', 0) \<and> view s' = ((d, w), False, [], [], m') \<and>
    bytes m' buffer (unat n) = take (unat n) (concat (map D [0..<length as])) \<and>
    (\<forall>a. a \<notin> span dma CYL \<and> a \<notin> span buffer (unat n) \<longrightarrow> m' a = m a)"
    using assms(5,9) n by simp
  then show ?thesis unfolding i using assms(2,3) d by (simp add: fdc_disk_read_def not_less)
qed

lemma calibrate_view:
  assumes "view s = (w, False, a # 0 # ans, f # fs, m)" "drop_bit 6 a = 0"
  obtains s' where "fdc_calibrate s = Some (s', 0)" "view s' = (w, False, ans, fs, f m)"
proof -
  let ?s = "fdc_motor MOTOR_ON s"
  obtain s1 where s1: "fdc_irq_wait (fdc_write_cmds [7, drive_byte ?s] ?s) = Some s1" "view s1 = (w, False, a # 0 # ans, fs, f m)"
    by (rule irq_wait_view [of "fdc_write_cmds [7, drive_byte ?s] ?s"]) (use assms(1) in simp_all)
  obtain s2 where s2: "fdc_awk s1 = Some (s2, a, 0)" "view s2 = (w, False, ans, fs, f m)" by (rule awk_view [OF s1(2)])
  have "fdc_calibrate s = Some (fdc_motor MOTOR_OFF s2, 0)"
    using s1(1) s2(1) assms(2) unfolding fdc_calibrate_def by (subst calibrate_loop.simps) simp
  then show ?thesis using that [of "fdc_motor MOTOR_OFF s2"] s2(2) by simp
qed

lemma init_view:
  assumes "view s = ((d, w), False, a # c # b # 0 # ans, f # g # fs, m)" "drop_bit 6 b = 0"
  obtains s' where "fdc_init 0 s = Some (s', 0)" "view s' = ((0, w), False, ans, fs, g (f m))"
proof -
  let ?s = "fdc_outb 0x0C (FDC_REG_BASE + 2) (fdc_outb 0 (FDC_REG_BASE + 2) (s\<lparr>fdc_drive := 0\<rparr>))"
  have v: "view ?s = ((0, w), False, a # c # b # 0 # ans, f # g # fs, m)" using assms(1) by (auto simp: view_def fdc_outb_def)
  obtain s1 where s1: "fdc_irq_wait ?s = Some s1" "view s1 = ((0, w), False, a # c # b # 0 # ans, g # fs, f m)" by (rule irq_wait_view [OF v])
  obtain s2 where s2: "fdc_awk s1 = Some (s2, a, c)" "view s2 = ((0, w), False, b # 0 # ans, g # fs, f m)" by (rule awk_view [OF s1(2)])
  let ?s3 = "fdc_write_cmds [3, 0xDF, 2] (fdc_outb 0 (FDC_REG_BASE + 7) s2)"
  have "view ?s3 = ((0, w), False, b # 0 # ans, g # fs, f m)" using s2(2) by simp
  from calibrate_view [OF this assms(2)] obtain s4 where "fdc_calibrate ?s3 = Some (s4, 0)" "view s4 = ((0, w), False, ans, fs, g (f m))" .
  then show ?thesis using that s1(1) s2(1) by (simp add: fdc_init_def fdc_reset_def)
qed


text \<open>Two bytes of a disk whose cylinders hold their own number.\<close>

definition a_disk :: "nat \<Rightarrow> u8 list" where "a_disk c = replicate CYL (of_nat (c + 7))"

definition a_floppy :: "kernel \<Rightarrow> fdc" where
  "a_floppy k = \<lparr>motor_state = MOTOR_OFF, fdc_interrupt_occurred = False, fdc_drive = 0, fdc_ports = [],
     fdc_answers = [0, 0, 0, 0, 0, 0, 0, 0, 0, 0, 2], fdc_transfers = cylinder_transfers 0x408000 a_disk [0], host = k\<rparr>"


end
