(* ===== verification/Boot.thy ===== *)
theory Boot
  imports Exceptions Pit Interrupt Fdc
begin

text \<open>
  The entry point of the kernel, \<^verbatim>\<open>kernel.c\<close>: the devices are set up, the boot loader's report is
  printed, the descriptors of the LDT and the TSS are made, the file system is read from the
  floppy disk into a block of the heap, and three shells are started. The addresses that the linker
  and the assembly files give are the record \<open>layout\<close>; the state that only the boot code
  changes is beside the kernel and the floppy controller in the record \<open>boot\<close>.
\<close>

section \<open>Segment descriptors\<close>

record seg_desc =
  seg_lim_15_00 :: u16
  base_15_00 :: u16
  base_23_16 :: u8
  seg_type :: nat
  seg_sys :: bool
  seg_dpl :: nat
  seg_present :: bool
  seg_lim_19_16 :: u32
  avail :: bool
  seg_reserved :: bool
  opsize :: bool
  granularity :: bool
  base_31_24 :: u8

definition SET_LDT_PARAMS :: "u32 \<Rightarrow> u32 \<Rightarrow> seg_desc \<Rightarrow> seg_desc" where
  "SET_LDT_PARAMS addr lim d = d\<lparr>base_31_24 := ucast (drop_bit 24 (addr AND 0xFF000000)), base_23_16 := ucast (drop_bit 16 (addr AND 0x00FF0000)),
     base_15_00 := ucast (addr AND 0xFFFF), seg_lim_19_16 := take_bit 4 (drop_bit 16 (lim AND 0x000F0000)), seg_lim_15_00 := ucast (lim AND 0xFFFF)\<rparr>"

definition SET_TSS_PARAMS :: "u32 \<Rightarrow> u32 \<Rightarrow> seg_desc \<Rightarrow> seg_desc" where
  "SET_TSS_PARAMS addr lim d = d\<lparr>base_31_24 := ucast (drop_bit 24 (addr AND 0xFF000000)), base_23_16 := ucast (drop_bit 16 (addr AND 0x00FF0000)),
     base_15_00 := ucast (addr AND 0xFFFF), seg_lim_19_16 := take_bit 4 (drop_bit 16 (lim AND 0x000F0000)), seg_lim_15_00 := ucast (lim AND 0xFFFF)\<rparr>"

definition KERNEL_DS :: u16 where "KERNEL_DS = 0x18"

definition KERNEL_TSS :: u16 where "KERNEL_TSS = 0x30"

definition KERNEL_LDT :: u16 where "KERNEL_LDT = 0x38"

definition TSS_SIZE :: u32 where "TSS_SIZE = 104"

section \<open>State\<close>

record layout =
  handler_addr :: "handler \<Rightarrow> u32"
  ldt_addr :: u32
  ldt_size :: u32
  tss_addr :: u32
  tss_size :: u32
  fdc_dmabuffer :: u32

record boot =
  machine :: fdc
  idt_table :: idt
  ldt_desc_ptr :: seg_desc
  tss_desc_ptr :: seg_desc
  ldt_segment_selector :: u16
  ss0 :: u16
  ldtr :: u16
  task_register :: u16
  vga_ports :: port_log

definition kernel_of :: "boot \<Rightarrow> kernel" where
  "kernel_of b = host (machine b)"

definition put_kernel :: "kernel \<Rightarrow> boot \<Rightarrow> boot" where
  "put_kernel k b = b\<lparr>machine := (machine b)\<lparr>host := k\<rparr>\<rparr>"

definition kprint :: "string \<Rightarrow> printf_arg list \<Rightarrow> kernel \<Rightarrow> kernel option" where
  "kprint fmt vals k = on_tty (\<lambda>t. map_option fst (printf (\<lambda>_. 0) (ascii fmt) vals t)) k"

abbreviation newline :: string where "newline \<equiv> [CHR 0x0A]"

definition left_click :: "u32 \<Rightarrow> u32 \<Rightarrow> kernel \<Rightarrow> kernel option" where
  "left_click x y k = kprint (''clicked at %d, %d'' @ newline) [Word_arg x, Word_arg y] k"

section \<open>Devices\<close>

definition start_mouse :: "kernel \<Rightarrow> kernel option" where
  "start_mouse k = do {
     m \<leftarrow> init_mouse ((kmouse k)\<lparr>mscr := scr (the_tty k)\<rparr>);
     Some (on_screen (\<lambda>_. mscr m) (k\<lparr>kmouse := m\<rparr>))
   }"

definition start_status :: "kernel \<Rightarrow> kernel" where
  "start_status k = k\<lparr>kstatus := init_status (kstatus k), kmouse := fst (add_left_click Status_click (kmouse k))\<rparr>"

definition start_devices :: "kernel \<Rightarrow> kernel option" where
  "start_devices k = do {
     k1 \<leftarrow> start_mouse (k\<lparr>km := init_mem (km k), pages := enable_paging (init_paging (pages k))\<rparr>);
     (k2, _) \<leftarrow> init_terminals k1;
     let k3 = start_status k2;
     (k4, _) \<leftarrow> on_clock rtc_init (k3\<lparr>irqs := i8259_init (irqs k3)\<rparr>);
     init_processes k4
   }"

text \<open>The hardware cursor is switched off; \<open>csr\<close> is what the port returns.\<close>

definition init_graphics :: "u8 \<Rightarrow> boot \<Rightarrow> boot" where
  "init_graphics csr b = b\<lparr>vga_ports := vga_ports b @ [(0x3D4, 0xA), (0x3D5, csr OR 0x10)]\<rparr>"

section \<open>The boot loader's report\<close>

definition CHECK_FLAG :: "u32 \<Rightarrow> nat \<Rightarrow> bool" where
  "CHECK_FLAG flags n = (flags AND push_bit n 1 \<noteq> 0)"

definition MULTIBOOT_BOOTLOADER_MAGIC :: u32 where
  "MULTIBOOT_BOOTLOADER_MAGIC = 0x2BADB002"

abbreviation mword :: "u32 \<Rightarrow> kernel \<Rightarrow> u32" where
  "mword a k \<equiv> load32 (mem k) a"

definition string_at :: "memory \<Rightarrow> u32 \<Rightarrow> u8 list option" where
  "string_at m p = do { n \<leftarrow> strlen (at m p); Some (bytes m p (unat n)) }"

definition print_if :: "nat \<Rightarrow> u32 \<Rightarrow> (kernel \<Rightarrow> kernel option) \<Rightarrow> kernel \<Rightarrow> kernel option" where
  "print_if n mbi f k = (if CHECK_FLAG (mword mbi k) n then f k else Some k)"

fun first_bytes :: "u32 \<Rightarrow> nat list \<Rightarrow> kernel \<Rightarrow> kernel option" where
  "first_bytes md [] k = Some k"
| "first_bytes md (i # is) k = do {
     k1 \<leftarrow> kprint ''0x%x '' [Word_arg (scast (mem k (mword md k + of_nat i)))] k;
     first_bytes md is k1
   }"

text \<open>The pointer to the module is not moved in the loop: every turn prints the first module.\<close>

partial_function (option) print_modules :: "u32 \<Rightarrow> u32 \<Rightarrow> u32 \<Rightarrow> kernel \<Rightarrow> kernel option" where
  "print_modules mbi md mod_count k =
     (if mod_count < mword (mbi + 20) k then do {
        k1 \<leftarrow> kprint (''Module %d loaded at address: 0x%#x'' @ newline) [Word_arg mod_count, Word_arg (mword md k)] k;
        k2 \<leftarrow> kprint (''Module %d ends at address: 0x%#x'' @ newline) [Word_arg mod_count, Word_arg (mword (md + 4) k1)] k1;
        k3 \<leftarrow> kprint (''First few bytes of module:'' @ newline) [] k2;
        k4 \<leftarrow> first_bytes md [0..<16] k3;
        k5 \<leftarrow> kprint newline [] k4;
        print_modules mbi md (mod_count + 1) k5
      } else Some k)"

partial_function (option) print_mmap :: "u32 \<Rightarrow> u32 \<Rightarrow> kernel \<Rightarrow> kernel option" where
  "print_mmap mbi mmap k =
     (if mmap < mword (mbi + 48) k + mword (mbi + 44) k then do {
        k1 \<leftarrow> kprint ('' size = 0x%x,     base_addr = 0x%#x%#x'' @ newline @ ''     type = 0x%x,  length    = 0x%#x%#x'' @ newline)
          [Word_arg (mword mmap k), Word_arg (mword (mmap + 8) k), Word_arg (mword (mmap + 4) k), Word_arg (mword (mmap + 20) k),
           Word_arg (mword (mmap + 16) k), Word_arg (mword (mmap + 12) k)] k;
        print_mmap mbi (mmap + mword mmap k1 + 4) k1
      } else Some k)"

declare print_modules.simps [simp del] print_mmap.simps [simp del]

definition report :: "u32 \<Rightarrow> kernel \<Rightarrow> (kernel \<times> bool) option" where
  "report mbi k = do {
     k1 \<leftarrow> kprint (''flags = 0x%#x'' @ newline) [Word_arg (mword mbi k)] k;
     k2 \<leftarrow> print_if 0 mbi (\<lambda>k. kprint (''mem_lower = %uKB, mem_upper = %uKB'' @ newline) [Word_arg (mword (mbi + 4) k), Word_arg (mword (mbi + 8) k)] k) k1;
     k3 \<leftarrow> print_if 1 mbi (\<lambda>k. kprint (''boot_device = 0x%#x'' @ newline) [Word_arg (mword (mbi + 12) k)] k) k2;
     k4 \<leftarrow> print_if 2 mbi (\<lambda>k. do {
             s \<leftarrow> string_at (mem k) (mword (mbi + 16) k); kprint (''cmdline = %s'' @ newline) [String_arg s] k }) k3;
     k5 \<leftarrow> print_if 3 mbi (\<lambda>k. print_modules mbi (mword (mbi + 24) k) 0 k) k4;
     if CHECK_FLAG (mword mbi k5) 4 \<and> CHECK_FLAG (mword mbi k5) 5 then do {
       k6 \<leftarrow> kprint (''Both bits 4 and 5 are set.'' @ newline) [] k5;
       Some (k6, False)
     }
     else do {
       k6 \<leftarrow> print_if 5 mbi (\<lambda>k. kprint (''elf_sec: num = %u, size = 0x%#x, addr = 0x%#x, shndx = 0x%#x'' @ newline)
               [Word_arg (mword (mbi + 28) k), Word_arg (mword (mbi + 32) k), Word_arg (mword (mbi + 36) k), Word_arg (mword (mbi + 40) k)] k) k5;
       k7 \<leftarrow> print_if 6 mbi (\<lambda>k. do {
               k' \<leftarrow> kprint (''mmap_addr = 0x%#x, mmap_length = 0x%x'' @ newline) [Word_arg (mword (mbi + 48) k), Word_arg (mword (mbi + 44) k)] k;
               print_mmap mbi (mword (mbi + 48) k') k' }) k6;
       Some (k7, True)
     }
   }"

section \<open>Descriptors of the LDT and the TSS\<close>

definition blank_desc :: seg_desc where
  "blank_desc = \<lparr>seg_lim_15_00 = 0, base_15_00 = 0, base_23_16 = 0, seg_type = 0, seg_sys = False, seg_dpl = 0, seg_present = False,
     seg_lim_19_16 = 0, avail = False, seg_reserved = False, opsize = False, granularity = False, base_31_24 = 0\<rparr>"

definition make_ldt :: "layout \<Rightarrow> boot \<Rightarrow> boot" where
  "make_ldt L b =
     (let d = blank_desc\<lparr>granularity := False, opsize := True, seg_reserved := False, avail := False, seg_present := True,
            seg_dpl := 0, seg_sys := False, seg_type := 2\<rparr>
      in b\<lparr>ldt_desc_ptr := SET_LDT_PARAMS (ldt_addr L) (ldt_size L) d, ldtr := KERNEL_LDT\<rparr>)"

definition make_tss :: "layout \<Rightarrow> boot \<Rightarrow> boot" where
  "make_tss L b =
     (let d = blank_desc\<lparr>granularity := False, opsize := False, seg_reserved := False, avail := False,
            seg_lim_19_16 := take_bit 4 (TSS_SIZE AND 0x000F0000), seg_present := True, seg_dpl := 0, seg_sys := False, seg_type := 9,
            seg_lim_15_00 := ucast (TSS_SIZE AND 0xFFFF)\<rparr>;
          b1 = b\<lparr>tss_desc_ptr := SET_TSS_PARAMS (tss_addr L) (tss_size L) d, ldt_segment_selector := KERNEL_LDT, ss0 := KERNEL_DS\<rparr>
      in put_kernel ((kernel_of b1)\<lparr>esp0 := 0x800000\<rparr>) (b1\<lparr>task_register := KERNEL_TSS\<rparr>))"

section \<open>The RAM disk\<close>

definition idle_current :: "kernel \<Rightarrow> kernel option" where
  "idle_current k = do { t \<leftarrow> p_task (proc k); Some (k\<lparr>runqueue := idle_task t (runqueue k)\<rparr>) }"

definition floppy_wait :: "kernel \<Rightarrow> kernel" where
  "floppy_wait k = k\<lparr>irqs := disable_irq 1 (disable_irq 0 (irqs k)), cflags := sti (cflags k)\<rparr>"

definition floppy_done :: "u32 \<Rightarrow> kernel \<Rightarrow> kernel" where
  "floppy_done ram_disk k =
     on_screen clear (k\<lparr>cflags := cli (cflags k), irqs := enable_irq 1 (enable_irq 0 (irqs k)), kfs := set_fs_start ram_disk (mem k) (kfs k)\<rparr>)"

definition load_disk :: "layout \<Rightarrow> boot \<Rightarrow> boot option" where
  "load_disk L b = do {
     let k = kernel_of b;
     (s, ram_disk) \<leftarrow> kmalloc (of_int FDC_MAX_SIZE) (km k);
     let ((t, p), _) = init_interrupts (handler_addr L) (idt_table b, irqs k);
     k1 \<leftarrow> idle_current (k\<lparr>km := s, irqs := p\<rparr>);
     let b1 = put_kernel (floppy_wait k1) (b\<lparr>idt_table := t\<rparr>);
     (f1, e1) \<leftarrow> fdc_init 0 (machine b1);
     (f2, e2) \<leftarrow> fdc_disk_read (fdc_dmabuffer L) ram_disk (of_int FDC_MAX_SIZE) f1;
     let b2 = b1\<lparr>machine := f2\<rparr>;
     k2 \<leftarrow> kprint (if e1 OR e2 = 0 then ''Filesystem loaded into RAM disk'' @ newline else ''Floppy load error'' @ newline) [] (kernel_of b2);
     Some (put_kernel (floppy_done ram_disk k2) b2)
   }"

section \<open>The shells\<close>

fun spawn_shells :: "nat \<Rightarrow> kernel \<Rightarrow> kernel option" where
  "spawn_shells 0 k = Some k"
| "spawn_shells (Suc n) k = do { (k1, _) \<leftarrow> kernel_spawn (literal ''shell'') k; spawn_shells n k1 }"

definition start_shells :: "kernel \<Rightarrow> kernel option" where
  "start_shells k = do {
     let (k1, _) = timer_start 20 (k\<lparr>sound := init_sb16 (sound k)\<rparr>);
     let k2 = put_segment 1 (ascii ''<'') (put_segment 0 (ascii ''Start!'') k1);
     (k3, _) \<leftarrow> on_clock rtc_init (on_screen (write_status_bar (kstatus k2)) k2);
     k4 \<leftarrow> spawn_shells 3 k3;
     k5 \<leftarrow> idle_current k4;
     k6 \<leftarrow> set_status_bar k5;
     k7 \<leftarrow> switch_terminals (Some 0) (on_screen (write_status_bar (kstatus k6)) k6);
     Some (k7\<lparr>cflags := sti (cflags k7)\<rparr>)
   }"

text \<open>The entry point; the flag says whether it reaches the loop of \<open>hlt\<close> at its end.\<close>

definition entry :: "layout \<Rightarrow> u8 \<Rightarrow> u32 \<Rightarrow> u32 \<Rightarrow> boot \<Rightarrow> (boot \<times> bool) option" where
  "entry L csr magic addr b = do {
     k1 \<leftarrow> start_devices (kernel_of b);
     let b1 = init_graphics csr (put_kernel k1 b);
     if magic \<noteq> MULTIBOOT_BOOTLOADER_MAGIC then do {
       k2 \<leftarrow> kprint (''Invalid magic number: 0x%#x'' @ newline) [Word_arg magic] k1;
       Some (put_kernel k2 b1, False)
     }
     else do {
       (k2, fine) \<leftarrow> report addr k1;
       if \<not> fine then Some (put_kernel k2 b1, False)
       else do {
         b2 \<leftarrow> load_disk L (make_tss L (make_ldt L (put_kernel k2 b1)));
         k3 \<leftarrow> start_shells (kernel_of b2);
         Some (put_kernel k3 b2, True)
       }
     }
   }"

section \<open>What the boot code leaves alone\<close>

lemma the_tty_prints: "can_print (the_tty k) = can_print (ktty k)" "display (the_tty k) = display (ktty k)"
proof -
  let ?f = "\<lambda>s. s\<lparr>smem := mem k\<rparr>"
  have c: "cur_term (the_tty k) = cur_term (ktty k)" by (simp add: the_tty_def)
  show "can_print (the_tty k) = can_print (ktty k)" unfolding can_print_def c by (simp add: the_tty_def screen_ok_def)
  show "display (the_tty k) = display (ktty k)" unfolding display_def c by (simp add: the_tty_def)
qed

lemma kprint_printed:
  assumes "can_print (ktty k)" "render None (ascii fmt) vals = Some out"
  obtains k' where "kprint fmt vals k = Some k'" "can_print (ktty k')" "display (ktty k') = display (ktty k)" "kfs k' = kfs k"
    "\<forall>a. a \<notin> display (ktty k) \<longrightarrow> mem k' a = mem k a"
proof -
  have "can_print (the_tty k)" using assms(1) by (simp add: the_tty_prints)
  from printf_printed [OF this assms(2), of "\<lambda>_. 0"] obtain t'
    where t': "printf (\<lambda>_. 0) (ascii fmt) vals (the_tty k) = Some (t', int (length (ascii fmt)))" "printed (the_tty k) t'" "can_print t'" .
  then have "kprint fmt vals k = Some (put_tty t' k)" by (simp add: kprint_def on_tty_def)
  then show ?thesis
    by (rule that) (use t' display_core [of t' "the_tty k"] in \<open>auto simp: printed_def the_tty_prints\<close>)
qed

lemma clear_outside:
  assumes "screen_ok s" "a \<notin> span (real_vidmem s) 4000" shows "smem (clear s) a = smem s a"
proof -
  let ?m = "memset_word (smem s) (real_vidmem s) (blank s) (of_int (NUM_ROWS * NUM_COLS))"
  let ?cell = "[ucast (blank s), ucast (drop_bit 8 (blank s))] :: u8 list"
  have n: "unat (of_int (NUM_ROWS * NUM_COLS) :: u32) = 1920" by (simp add: NUM_ROWS_def NUM_COLS_def)
  have m: "?m = store_bytes (smem s) (real_vidmem s) (concat (replicate 1920 ?cell))"
    using rep_stosw_fill [of "of_int (NUM_ROWS * NUM_COLS)" "smem s" "blank s" "real_vidmem s"] n by (simp add: memset_word_def)
  have len: "length (concat (replicate j ?cell)) = 2 * j" for j by (induction j) auto
  have "?m a = smem s a"
    unfolding m using assms(2) by (intro store_bytes_outside) (simp only: len, simp add: span_def)
  moreover have "confined (s\<lparr>smem := ?m\<rparr>) (clear s)" using assms(1) by (simp add: clear_def set_screen_coordinates_confined screen_ok_def)
  then have "smem (clear s) a \<noteq> ?m a \<Longrightarrow> \<exists>k < 1920. a = real_vidmem s + of_nat (2 * k + 1)" by (auto simp: confined_def)
  moreover have "a \<noteq> real_vidmem s + of_nat (2 * k + 1)" if "k < 1920" for k
    using assms(2) in_span [of "2 * k + 1" 4000 "real_vidmem s"] that by auto
  ultimately show ?thesis by metis
qed

lemma floppy_done_frame:
  assumes "can_print (ktty k)"
  shows "a \<notin> display (ktty k) \<Longrightarrow> mem (floppy_done r k) a = mem k a" "kfs (floppy_done r k) = set_fs_start r (mem k) (kfs k)"
proof -
  have ok: "screen_ok (scr (the_tty k))" "real_vidmem (scr (the_tty k)) = real_vidmem (scr (ktty k))"
    using assms by (simp_all add: can_print_def the_tty_def screen_ok_def)
  show "mem (floppy_done r k) a = mem k a" if "a \<notin> display (ktty k)"
  proof -
    let ?k = "k\<lparr>cflags := cli (cflags k), irqs := enable_irq 1 (enable_irq 0 (irqs k)), kfs := set_fs_start r (mem k) (kfs k)\<rparr>"
    have t: "the_tty ?k = the_tty k" by (simp add: the_tty_def mem_def)
    have "mem (floppy_done r k) = smem (clear (scr (the_tty k)))" unfolding floppy_done_def on_screen_def put_tty_simps(2) t by simp
    moreover have "a \<notin> span (real_vidmem (scr (the_tty k))) 4000" using that ok(2) by (simp add: display_def)
    ultimately show ?thesis using clear_outside [OF ok(1), of a] by simp
  qed
  show "kfs (floppy_done r k) = set_fs_start r (mem k) (kfs k)" by (simp add: floppy_done_def)
qed

lemma first_block:
  assumes "heap s [(a, room)] alloc" "length alloc + 3 < MAX_REGIONS" "0 < unat n" "unat n < room"
  obtains s' where "kmalloc n s = Some (s', of_nat a)" "kbytes s' = kbytes s"
proof -
  have n: "n \<noteq> 0" using assms(3) by (simp add: unat_gt_0)
  have len: "length [(a, room)] + length alloc + 2 < MAX_REGIONS" using assms(2) by simp
  obtain s' free' alloc' p where k: "kmalloc n s = Some (s', p)" "heap s' free' alloc'"
    "a_malloc (unat n) [(a, room)] alloc = (free', alloc', unat p)" "kbytes s' = kbytes s"
    by (rule kmalloc_refines [OF assms(1) n len])
  have "a_malloc (unat n) [(a, room)] alloc = ([(a + unat n, room - unat n)], insert_at fst (a, unat n) alloc, a)"
    using assms(3,4) by (simp add: a_malloc_def first_fit.simps trim_def)
  then have "unat p = a" using k(3) by simp
  then have "p = of_nat a" by auto
  then show ?thesis using that k(1,4) by simp
qed

lemma set_fs_start_cong:
  assumes "bytes m a n = bytes m' a n" "8 \<le> n" shows "set_fs_start a m f = set_fs_start a m' f"
proof -
  have "bytes m (a + 4) 4 = bytes m' (a + 4) 4"
  proof (rule nth_equalityI)
    fix i assume "i < length (bytes m (a + 4) 4)"
    then have i: "i < 4" by simp
    then have "bytes m a n ! (4 + i) = bytes m' a n ! (4 + i)" "4 + i < n" using assms by simp_all
    then show "bytes m (a + 4) 4 ! i = bytes m' (a + 4) 4 ! i" using i by (simp add: add.assoc)
  qed simp
  then have "load32 m (a + 4) = load32 m' (a + 4)" by (rule load32_bytes)
  then show ?thesis by (simp add: set_fs_start_def get_num_inodes_def get_master_entry_addr_def Let_def)
qed

lemma render_text: "0x25 \<notin> set cs \<Longrightarrow> render None cs [] = Some cs"
  by (induction cs) auto

lemma loaded_text: "render None (ascii (''Filesystem loaded into RAM disk'' @ newline)) [] = Some (ascii (''Filesystem loaded into RAM disk'' @ newline))"
  by (rule render_text) (simp add: ascii_def)

text \<open>The floppy controller of a boot that meets no error: the reset, the calibration, and 80 cylinders.\<close>

definition good_floppy :: "u32 \<Rightarrow> (nat \<Rightarrow> u8 list) \<Rightarrow> fdc \<Rightarrow> bool" where
  "good_floppy dma D s \<longleftrightarrow> \<not> fdc_interrupt_occurred s \<and> (\<forall>c. length (D c) = CYL) \<and>
     fdc_transfers s = [id, id] @ cylinder_transfers dma D [0..<80] \<and>
     (\<exists>r0 r1 c0 as. fdc_answers s = [r0, r1, c0, 0] @ concat as \<and> drop_bit 6 c0 = 0 \<and> length as = 80 \<and> (\<forall>c < 80. clean c (as ! c)))"

lemma floppy_read:
  assumes "good_floppy dma D s" "dma_ok dma" "span dma CYL \<inter> span buffer 1474560 = {}"
  obtains s1 s2 where "fdc_init 0 s = Some (s1, 0)" "fdc_disk_read dma buffer (of_int FDC_MAX_SIZE) s1 = Some (s2, 0)"
    "ktty (host s2) = ktty (host s)" "kfs (host s2) = kfs (host s)" "bytes (mem (host s2)) buffer 1474560 = concat (map D [0..<80])"
proof -
  obtain r0 r1 c0 as where g: "\<not> fdc_interrupt_occurred s" "\<forall>c. length (D c) = CYL" "fdc_transfers s = [id, id] @ cylinder_transfers dma D [0..<80]"
    "fdc_answers s = [r0, r1, c0, 0] @ concat as" "drop_bit 6 c0 = 0" "length as = 80" "\<forall>c < 80. clean c (as ! c)"
    using assms(1) by (auto simp: good_floppy_def)
  let ?w = "(ktty (host s), kfs (host s))" and ?n = "of_int FDC_MAX_SIZE :: u32"
  have "view s = ((fdc_drive s, ?w), False, r0 # r1 # c0 # 0 # concat as, id # id # cylinder_transfers dma D [0..<80], mem (host s))"
    using g(1,3,4) by (simp add: view_def)
  from init_view [OF this g(5)] obtain s1 where s1: "fdc_init 0 s = Some (s1, 0)"
    "view s1 = ((0, ?w), False, concat as, cylinder_transfers dma D [0..<length as], mem (host s))" unfolding g(6) by auto
  have n: "unat ?n = 1474560" "uint ?n \<le> FDC_MAX_SIZE" by (simp_all add: FDC_MAX_SIZE_def)
  from disk_read_view [OF s1(2) _ n(2) assms(2), of buffer] obtain s2 m2 where s2: "fdc_disk_read dma buffer ?n s1 = Some (s2, 0)"
    "view s2 = ((0, ?w), False, [], [], m2)" "bytes m2 buffer 1474560 = take 1474560 (concat (map D [0..<80]))"
    using g(2,6,7) assms(3) unfolding n(1) by auto
  have "length (concat (map D [0..<k])) = k * CYL" for k using g(2) by (induction k) simp_all
  from this [of 80] have "take 1474560 (concat (map D [0..<80])) = concat (map D [0..<80])" by simp
  then show ?thesis using that [OF s1(1) s2(1)] s2(2,3) by (simp add: view_def)
qed

section \<open>Properties\<close>


text \<open>A boot with the terminal's pages at 5 MB, the whole heap free and a disk whose cylinders hold their own number.\<close>

definition boot_tty :: tty where
  "boot_tty = page_tty\<lparr>terminals := [fresh_terminal\<lparr>video_memory := 0x504B00, video_memory_base := 0x504B00\<rparr>]\<rparr>"

definition boot_kernel :: kernel where
  "boot_kernel = plain_kernel\<lparr>km := init_mem boot_regions, ktty := boot_tty, procs := (\<lambda>p. (plain_process p)\<lparr>p_task := Some 16\<rparr>)\<rparr>"

definition a_layout :: layout where
  "a_layout = \<lparr>handler_addr = (\<lambda>_. 0x400000), ldt_addr = 0x401000, ldt_size = 16, tss_addr = 0x402000, tss_size = 104, fdc_dmabuffer = 0x408000\<rparr>"

definition a_boot :: boot where
  "a_boot = \<lparr>machine = (a_floppy boot_kernel)\<lparr>fdc_transfers := [id, id] @ cylinder_transfers 0x408000 a_disk [0..<80],
       fdc_answers := [0, 0, 0, 0] @ concat (map (\<lambda>c. [0, of_nat c, 0, of_nat c, 0, 0, 0, 0, 0, 0, 2]) [0..<80])\<rparr>,
     idt_table = (\<lambda>_. interrupt_gate (\<lambda>_. 0) Test_interrupts), ldt_desc_ptr = blank_desc, tss_desc_ptr = blank_desc,
     ldt_segment_selector = 0, ss0 = 0, ldtr = 0, task_register = 0, vga_ports = []\<rparr>"

lemma a_boot_floppy: "good_floppy 0x408000 a_disk (machine a_boot)"
proof -
  let ?as = "map (\<lambda>c. [0, of_nat c, 0, of_nat c, 0, 0, 0, 0, 0, 0, 2 :: u8]) [0..<80]"
  have "clean c [0, of_nat c, 0, of_nat c, 0, 0, 0, 0, 0, 0, 2]" for c
    unfolding clean_def by (rule exI [of _ 0], rule exI [of _ 0], rule exI [of _ "[0, 0, 0, 0, 0, 0, 2]"]) (simp add: track_error_def)
  then have c: "length ?as = 80" "\<forall>c < 80. clean c (?as ! c)" by (simp_all del: upt_Suc)
  have "fdc_answers (machine a_boot) = [0, 0, 0, 0] @ concat ?as" by (simp add: a_boot_def del: upt_Suc)
  moreover have "fdc_transfers (machine a_boot) = [id, id] @ cylinder_transfers 0x408000 a_disk [0..<80]" "\<not> fdc_interrupt_occurred (machine a_boot)"
    by (simp_all add: a_boot_def a_floppy_def del: upt_Suc)
  moreover have "\<forall>c. length (a_disk c) = CYL" by (simp add: a_disk_def)
  moreover have "drop_bit 6 (0 :: u8) = 0" by simp
  ultimately show ?thesis unfolding good_floppy_def using c by blast
qed

lemma boot_tty_display:
  "can_print boot_tty" "display boot_tty \<inter> span 0xC000000 1474560 = {}"
proof -
  let ?r = "fresh_terminal\<lparr>video_memory := 0x504B00, video_memory_base := 0x504B00\<rparr>"
  have c: "cur_term boot_tty = Some (0, ?r)" by (simp add: cur_term_Some boot_tty_def page_tty_def fresh_tty_def)
  have p: "pointer_addr (scr boot_tty) = 0xB8001" "real_vidmem (scr boot_tty) = 0xB8000" "screen_ok (scr boot_tty)"
    using page_tty_pointer(1) by (simp_all add: boot_tty_def page_tty_def blank_screen_def screen_ok_def)
  have "span (video_memory ?r) 3840 \<inter> span VIDEO 3840 = {}" by (auto simp: span_def VIDEO_def unat_sub_if' word_le_nat_alt)
  then show "can_print boot_tty" using c p by (simp add: can_print_def span_def)
  show "display boot_tty \<inter> span 0xC000000 1474560 = {}"
    unfolding display_def c p(2) by (auto simp: terminal_pages_def span_def unat_sub_if' word_le_nat_alt split: if_splits)
qed


text \<open>The base and the limit that the processor reads from a descriptor.\<close>

definition seg_base :: "seg_desc \<Rightarrow> u32" where
  "seg_base d = push_bit 24 (ucast (base_31_24 d)) OR push_bit 16 (ucast (base_23_16 d)) OR ucast (base_15_00 d)"

definition seg_limit :: "seg_desc \<Rightarrow> u32" where
  "seg_limit d = push_bit 16 (seg_lim_19_16 d) OR ucast (seg_lim_15_00 d)"

lemma set_params:
  "seg_base (SET_LDT_PARAMS a l d) = a" "seg_limit (SET_LDT_PARAMS a l d) = take_bit 20 l" "SET_TSS_PARAMS = SET_LDT_PARAMS"
proof -
  have m: "(0xFF000000 :: u32) = push_bit 24 (mask 8)" "(0x00FF0000 :: u32) = push_bit 16 (mask 8)" "(0xFFFF :: u32) = mask 16"
    "(0x000F0000 :: u32) = push_bit 16 (mask 4)" by (simp_all add: mask_eq_exp_minus_1)
  show "seg_base (SET_LDT_PARAMS a l d) = a"
  proof (rule bit_word_eqI)
    fix n assume "n < LENGTH(32)"
    then consider "n < 16" | "16 \<le> n" "n < 24" | "24 \<le> n" "n < 32" by fastforce
    then show "bit (seg_base (SET_LDT_PARAMS a l d)) n = bit a n"
      by cases (auto simp: seg_base_def SET_LDT_PARAMS_def m bit_simps)
  qed
  show "seg_limit (SET_LDT_PARAMS a l d) = take_bit 20 l"
    by (rule bit_word_eqI) (auto simp: seg_limit_def SET_LDT_PARAMS_def m bit_simps)
  show "SET_TSS_PARAMS = SET_LDT_PARAMS" by (intro ext) (simp add: SET_TSS_PARAMS_def SET_LDT_PARAMS_def)
qed

text \<open>
  The descriptors made at boot point the processor at the LDT and at the TSS, with the low 20 bits of their
  sizes as limits, both present and for the kernel's privilege; the TSS has the kernel's data segment and the
  stack of process 0.
\<close>

theorem descriptors_point:
  "(let b' = make_tss L (make_ldt L b) in
     seg_base (ldt_desc_ptr b') = ldt_addr L \<and> seg_limit (ldt_desc_ptr b') = take_bit 20 (ldt_size L) \<and>
     seg_base (tss_desc_ptr b') = tss_addr L \<and> seg_limit (tss_desc_ptr b') = take_bit 20 (tss_size L) \<and>
     seg_present (ldt_desc_ptr b') \<and> seg_present (tss_desc_ptr b') \<and> seg_dpl (tss_desc_ptr b') = 0 \<and>
     ss0 b' = KERNEL_DS \<and> esp0 (kernel_of b') = calc_kstack_address 0)"
proof -
  have "calc_kstack_address 0 = 0x800000" by (simp add: calc_kstack_address_def)
  then show ?thesis
    by (simp add: make_tss_def make_ldt_def Let_def put_kernel_def kernel_of_def set_params) (simp add: SET_LDT_PARAMS_def)
qed

end
