(* ===== verification/Write_Frame.thy ===== *)
theory Write_Frame
  imports Files Print_Frame
begin

text \<open>
  What a program's write to its terminal does when that terminal is on the screen: all characters
  up to a NUL are printed, and memory outside of the display is left alone.
\<close>

section \<open>A terminal on the screen\<close>

text \<open>The terminal shows its own page, with the screen at \<open>VIDEO\<close> and the backing page clear of it.\<close>

definition on_screen_at :: "nat \<Rightarrow> tty \<Rightarrow> bool" where
  "on_screen_at i t \<longleftrightarrow> can_print t \<and> scrollback_offset t = 0 \<and> real_vidmem (scr t) = VIDEO \<and>
     (\<exists>r. cur_term t = Some (i, r) \<and> video_memory r = video_memory_base r)"

lemma on_screen_at_printed:
  assumes "on_screen_at i t" "printed t t'" "screen_ok (scr t')" shows "on_screen_at i t'"
proof -
  obtain r where r: "cur_term t = Some (i, r)" "video_memory r = video_memory_base r" using assms(1) by (auto simp: on_screen_at_def)
  have c: "core t' = core t" using assms(2) by (simp add: printed_def)
  obtain r' where "cur_term t' = Some (i, r')" "line_of r' = line_of r" by (rule cur_term_core [OF c r(1)])
  then show ?thesis using assms r(2) can_print_printed [of t t'] line_of_fields(10,11) [of r' r] c
    by (auto simp: on_screen_at_def core_def)
qed

lemma upd_term_printed: "(\<And>r. line_of (f r) = line_of r) \<Longrightarrow> printed t (upd_term i f t)"
  by (simp add: printed_def) (simp add: upd_term_def)

lemma reload_printed:
  assumes "on_screen_at i t"
  shows "\<exists>t'. set_scrollback_page 0 (t\<lparr>scrollback_offset := 0\<rparr>) = Some t' \<and> printed t t' \<and> screen_ok (scr t')"
proof -
  obtain r where r: "cur_term t = Some (i, r)" "video_memory r = video_memory_base r" and p: "can_print t"
    and o: "scrollback_offset t = 0" "real_vidmem (scr t) = VIDEO" using assms by (auto simp: on_screen_at_def)
  have d: "span (video_memory r) 3840 \<inter> span VIDEO 3840 = {}" using p r(1) by (simp add: can_print_def)
  have i: "term_at i t = Some r" "i < length (terminals t)" "terminals t ! i = r" "current_terminal t = Some i"
    using r(1) by (auto simp: cur_term_Some term_at_def)
  have t0: "t\<lparr>scrollback_offset := 0\<rparr> = t" using o(1) by (cases t) simp
  let ?t1 = "on_scr hide_cursor t"
  let ?t2 = "on_mem (\<lambda>m. store_bytes m (video_memory r) (bytes m VIDEO 3840)) ?t1"
  let ?t3 = "on_mem (\<lambda>m. store_bytes m VIDEO (bytes m (video_memory r) 3840)) ?t2"
  have same: "upd_term i (\<lambda>r. r\<lparr>video_memory := video_memory_base r - PAGE_BYTES * of_int 0\<rparr>) u = u"
    if "terminals u = terminals t" for u
  proof -
    have "r\<lparr>video_memory := video_memory_base r\<rparr> = r" using r(2) by (cases r) simp
    then show ?thesis using that i(3) list_update_id [of "terminals t" i] by (cases u) (simp add: upd_term_def)
  qed
  have off: "u\<lparr>scrollback_offset := 0\<rparr> = u" if "scrollback_offset u = 0" for u :: tty using that by (cases u) simp
  have "map_backing_page i ?t1 = Some ?t2" using i(1) by (simp add: map_backing_page_def memcpy_page [OF d])
  moreover have "load_scrollback_page 0 ?t2 = Some ?t3"
    using i d same [of ?t2] memcpy_page [of VIDEO "video_memory r"]
    by (simp add: load_scrollback_page_def cur_term_def unmap_backing_page_def Int_commute)
  ultimately have s: "set_scrollback_page 0 t = Some (on_scr show_cursor ?t3)"
    using o(1) i(1,4) by (simp add: set_scrollback_page_def cur_term_def clamp_offset_def MAX_SCROLLBACK_OFFSET_def Let_def off)
  have ok: "screen_ok (scr t)" using p by (simp add: can_print_def)
  have p1: "printed t ?t1" "screen_ok (scr ?t1)" using pointer_printed(1) [OF p] ok by (simp_all add: screen_ok_def)
  have disp: "display u = span VIDEO 4000 \<union> terminal_pages r" if "printed t u" for u
    using that display_core [of u t] r(1) o(2) by (simp add: printed_def display_def)
  have p2: "printed t ?t2"
    by (rule printed_trans [OF p1(1) on_mem_printed]) (auto simp: disp [OF p1(1)] terminal_pages_def intro!: store_bytes_outside)
  have p3: "printed t ?t3"
    using span_mono [of 3840 4000 VIDEO]
    by (intro printed_trans [OF p2 on_mem_printed]) (auto simp: disp [OF p2] intro!: store_bytes_outside)
  have ok3: "screen_ok (scr ?t3)" using ok by (simp add: screen_ok_def)
  have "printed t (on_scr show_cursor ?t3)" using printed_trans [OF p3 pointer_printed(2) [OF can_print_printed [OF p3 p ok3]]] .
  then show ?thesis using s t0 ok3 by (simp add: screen_ok_def)
qed

lemma write_char_printed:
  assumes "on_screen_at i t" obtains t' where "write_char (Some i) c t = Some t'" "printed t t'" "on_screen_at i t'"
proof -
  obtain t1 where t1: "set_scrollback_page 0 (t\<lparr>scrollback_offset := 0\<rparr>) = Some t1" "printed t t1" "screen_ok (scr t1)"
    using reload_printed [OF assms] by blast
  have o1: "on_screen_at i t1" using on_screen_at_printed [OF assms t1(2,3)] .
  then have p1: "can_print t1" by (simp add: on_screen_at_def)
  let ?t2 = "on_scr hide_cursor t1"
  have t2: "printed t ?t2" "screen_ok (scr ?t2)" using printed_trans [OF t1(2) pointer_printed(1) [OF p1]] t1(3) by (simp_all add: screen_ok_def)
  have p: "can_print t" using assms by (simp add: on_screen_at_def)
  obtain t3 where t3: "putc c ?t2 = Some t3" "printed ?t2 t3" "can_print t3" by (rule putc_printed [OF can_print_printed [OF t2(1) p t2(2)]])
  let ?t4 = "on_scr show_cursor t3"
  have t4: "printed t ?t4" using printed_trans [OF printed_trans [OF t2(1) t3(2)] pointer_printed(2) [OF t3(3)]] .
  let ?t5 = "upd_term i (advance_start c) ?t4"
  have t5: "printed t ?t5" by (rule printed_trans [OF t4 upd_term_printed]) (simp add: line_of_def advance_start_def Let_def split_beta)
  have ok: "screen_ok (scr ?t4)" using t3(3) by (simp add: can_print_def screen_ok_def)
  moreover have "scr ?t5 = scr ?t4" by (simp add: upd_term_def)
  ultimately have o5: "on_screen_at i ?t5" using on_screen_at_printed [OF assms t5] by simp
  have cur: "current_terminal t = Some i" using assms by (auto simp: on_screen_at_def cur_term_Some)
  have "term_at i ?t4 \<noteq> None" using on_screen_at_printed [OF assms t4 ok] by (auto simp: on_screen_at_def dest: cur_term_at)
  then have "write_char (Some i) c t = Some ?t5" using t1(1) t3(1) cur by (auto simp: write_char_def)
  then show ?thesis using that t5 o5 by blast
qed

section \<open>Writing a buffer\<close>

lemma write_chars_printed:
  assumes "on_screen_at i t" "0 \<notin> set (bytes (smem (scr t)) buf n)" "span buf n \<inter> display t = {}" "n \<le> 2 ^ 32"
  shows "\<exists>t'. write_chars (Some i) n buf t = Some (t', int n) \<and> printed t t' \<and> on_screen_at i t'"
  using assms
proof (induction n arbitrary: buf t)
  case 0
  then show ?case by (simp add: printed_refl)
next
  case (Suc n)
  have c: "smem (scr t) buf \<noteq> 0" "0 \<notin> set (bytes (smem (scr t)) (buf + 1) n)" using Suc.prems(2) by (auto simp: bytes_Suc)
  obtain t1 where t1: "write_char (Some i) (smem (scr t) buf) t = Some t1" "printed t t1" "on_screen_at i t1"
    by (rule write_char_printed [OF Suc.prems(1)])
  have d: "display t1 = display t" using t1(2) by (intro display_core) (simp add: printed_def)
  have sub: "span (buf + 1) n \<subseteq> span buf (Suc n)"
  proof
    fix a assume "a \<in> span (buf + 1) n"
    then have u: "unat (a - buf - 1) < n" by (simp add: span_def diff_diff_eq)
    show "a \<in> span buf (Suc n)"
    proof (cases "a = buf")
      case False
      then have "unat (a - buf) = Suc (unat (a - buf - 1))" using word_Suc_minus_one [of "a - buf"] by simp
      then show ?thesis using u by (simp add: span_def)
    qed (simp add: span_def)
  qed
  have "bytes (smem (scr t1)) (buf + 1) n = bytes (smem (scr t)) (buf + 1) n"
    using t1(2) sub Suc.prems(3,4) by (intro bytes_cong) (auto simp: printed_def)
  then obtain t2 where t2: "write_chars (Some i) n (buf + 1) t1 = Some (t2, int n)" "printed t1 t2" "on_screen_at i t2"
    using Suc.IH [OF t1(3), of "buf + 1"] c(2) sub Suc.prems(3,4) unfolding d by fastforce
  then show ?case using c(1) t1(1) printed_trans [OF t1(2) t2(2)] by (auto simp: add.commute)
qed

lemma update_cursor_printed: assumes "screen_ok (scr t)" shows "printed t (on_scr update_cursor t)"
proof (rule printed_on_scr)
  fix a assume a: "a \<notin> span (real_vidmem (scr t)) 4000"
  show "smem (update_cursor (scr t)) a = smem (scr t) a"
  proof (rule ccontr)
    assume "smem (update_cursor (scr t)) a \<noteq> smem (scr t) a"
    then obtain k where "k < 1920" "a = real_vidmem (scr t) + of_nat (2 * k + 1)"
      using update_cursor_confined [OF assms] unfolding confined_def by blast
    then show False using a in_span [of "2 * k + 1" 4000 "real_vidmem (scr t)"] by simp
  qed
qed (simp_all add: update_cursor_def set_cursor_position_def Let_def split_beta)

text \<open>The process has its terminal on the screen.\<close>

definition shows_output :: "kernel \<Rightarrow> bool" where
  "shows_output k \<longleftrightarrow> (\<exists>i. p_terminal (proc k) = Some i \<and> on_screen_at i (ktty k))"

lemma on_screen_at_the_tty: "on_screen_at i (the_tty k) = on_screen_at i (ktty k)"
proof -
  have "cur_term (the_tty k) = cur_term (ktty k)" by (simp add: the_tty_def)
  moreover have "can_print (the_tty k) = can_print (ktty k)" unfolding can_print_def calculation by (simp add: the_tty_def screen_ok_def)
  ultimately show ?thesis by (simp add: on_screen_at_def the_tty_def)
qed

lemma display_the_tty: "display (the_tty k) = display (ktty k)"
proof -
  have "cur_term (the_tty k) = cur_term (ktty k)" by (simp add: the_tty_def)
  then show ?thesis by (simp add: display_def the_tty_def)
qed

lemma keyboard_write_shows:
  assumes "shows_output k" "0 \<notin> set (bytes (mem k) buf n)" "span buf n \<inter> display (ktty k) = {}" "n \<le> 2 ^ 32"
  obtains t where "keyboard_write buf (int n) k = Some (put_tty t k, int n)" "printed (the_tty k) t" "shows_output (put_tty t k)" "display t = display (ktty k)"
proof -
  obtain i where i: "p_terminal (proc k) = Some i" "on_screen_at i (the_tty k)" using assms(1) by (auto simp: shows_output_def on_screen_at_the_tty)
  obtain t1 where t1: "write_chars (Some i) n buf (the_tty k) = Some (t1, int n)" "printed (the_tty k) t1" "on_screen_at i t1"
    using write_chars_printed [OF i(2), of buf n] assms(2-4) by (auto simp: display_the_tty)
  let ?t = "on_scr update_cursor t1"
  have cur: "current_terminal t1 = Some i" "screen_ok (scr t1)" using t1(3) by (auto simp: on_screen_at_def cur_term_Some can_print_def)
  have p: "printed (the_tty k) ?t" using printed_trans [OF t1(2) update_cursor_printed [OF cur(2)]] .
  have "screen_ok (scr ?t)" using cur(2) by (simp add: screen_ok_def)
  then have o: "on_screen_at i ?t" using on_screen_at_printed [OF i(2) p] by simp
  have "keyboard_write buf (int n) k = Some (put_tty ?t k, int n)" using i(1) t1(1) cur(1) by (simp add: keyboard_write_def)
  moreover have "display ?t = display (ktty k)" using p display_core [of ?t "the_tty k"] by (simp add: printed_def display_the_tty)
  ultimately show ?thesis using that p i(1) o by (auto simp: shows_output_def)
qed

lemma stdout_write:
  assumes "std_files (proc k)" "shows_output k" "0 \<notin> set (bytes (mem k) buf n)" "span buf n \<inter> display (ktty k) = {}" "n \<le> 2 ^ 32"
  obtains t where "syscall_write 1 buf (int n) k = Some (put_tty t k, 0)" "shows_output (put_tty t k)" "display t = display (ktty k)"
    "\<forall>a. a \<notin> display (ktty k) \<longrightarrow> smem (scr t) a = mem k a"
proof -
  have f: "valid_fd 1 (proc k)" "open_files (proc k) ! 1 = terminal_file False True"
    using assms(1) by (auto simp: std_files_def descriptors_def valid_fd_def eight_files_def split: if_splits)
  obtain t where t: "keyboard_write buf (int n) k = Some (put_tty t k, int n)" "printed (the_tty k) t" "shows_output (put_tty t k)" "display t = display (ktty k)"
    by (rule keyboard_write_shows [OF assms(2-5)])
  have "syscall_write 1 buf (int n) k = Some (put_tty t k, 0)" using f t(1) by (simp add: syscall_write_def write_func_def)
  then show ?thesis using that t(2-4) by (auto simp: printed_def display_the_tty)
qed

end
