(* ===== verification/Userland.thy ===== *)
theory Userland
  imports Programs Boot Write_Frame
begin

text \<open>
  The user programs on the kernel: a system call is interrupt 0x80 with its number, and the record of
  calls is that of \<open>syscall_handler\<close>. Beside the kernel the state has a log, which is no part of the
  program: the characters, up to a NUL, that were handed to write calls on descriptor 1 that did not
  fail. What such a call does to the screen is in \<open>Console\<close> and \<open>Write_Frame\<close>. A call that does not come back to its caller
  directly (execute, shutdown) is \<open>None\<close> here.
\<close>

section \<open>The calls\<close>

type_synonym session = "kernel \<times> u8 list"

definition DO_CALL :: "call_env \<Rightarrow> u32 \<Rightarrow> u32 \<Rightarrow> u32 \<Rightarrow> u32 \<Rightarrow> session \<Rightarrow> (session \<times> int) option" where
  "DO_CALL e number a b c s = do {
     (k, r) \<leftarrow> syscall_handler e number a b c (fst s);
     (case r of Returns w \<Rightarrow> Some ((k, snd s), sint w) | _ \<Rightarrow> None)
   }"

definition logged_write :: "call_env \<Rightarrow> int \<Rightarrow> u32 \<Rightarrow> int \<Rightarrow> session \<Rightarrow> (session \<times> int) option" where
  "logged_write e fd buf n s = do {
     (s1, r) \<leftarrow> DO_CALL e 4 (of_int fd) buf (of_int n) s;
     Some ((fst s1, if fd = 1 \<and> r \<noteq> - 1 then snd s1 @ takeWhile (\<lambda>c. c \<noteq> 0) (bytes (mem (fst s)) buf (nat n)) else snd s1), r)
   }"

definition kernel_sys :: "call_env \<Rightarrow> (string \<Rightarrow> u32) \<Rightarrow> session sys" where
  "kernel_sys e l = \<lparr>user_mem = \<lambda>s. mem (fst s), set_user_mem = \<lambda>m s. (set_mem m (fst s), snd s), lit = l,
     sys_execute = \<lambda>command. DO_CALL e 2 command 0 0, sys_read = \<lambda>fd buf n. DO_CALL e 3 (of_int fd) buf (of_int n),
     sys_write = logged_write e, sys_open = \<lambda>name. DO_CALL e 5 name 0 0, sys_close = \<lambda>fd. DO_CALL e 6 (of_int fd) 0 0,
     sys_getargs = \<lambda>buf n. DO_CALL e 7 buf (of_int n) 0, sys_soundctrl = \<lambda>f name. DO_CALL e 12 (of_int f) name 0,
     sys_vidmap = \<lambda>screen_start. DO_CALL e 8 screen_start 0 0, sys_halt = \<lambda>status. DO_CALL e 1 (ucast status) 0 0,
     sys_shutdown = DO_CALL e 11 0 0 0\<rparr>"

lemma user_mem_kernel: "user_mem (kernel_sys e l) s = mem (fst s)" by (simp add: kernel_sys_def)

section \<open>Pieces of a file\<close>

function pieces_of :: "nat \<Rightarrow> 'a list \<Rightarrow> 'a list list" where
  "pieces_of n xs = (if xs = [] \<or> n = 0 then [] else take n xs # pieces_of n (drop n xs))"
  by pat_completeness auto
termination by (relation "measure (\<lambda>(n, xs). length xs)") auto

declare pieces_of.simps [simp del]

lemma concat_pieces: "0 < n \<Longrightarrow> concat (pieces_of n xs) = xs"
  by (induction n xs rule: pieces_of.induct) (subst pieces_of.simps, simp)

lemma in_pieces: "c \<in> set (pieces_of n xs) \<Longrightarrow> c \<noteq> [] \<and> set c \<subseteq> set xs \<and> length c \<le> n"
proof (induction n xs rule: pieces_of.induct)
  case (1 n xs)
  show ?case
  proof (cases "xs = [] \<or> n = 0")
    case True
    then show ?thesis using 1 by (auto simp: pieces_of.simps [of n xs])
  next
    case False
    then have "c = take n xs \<or> c \<in> set (pieces_of n (drop n xs))" using "1.prems" by (simp add: pieces_of.simps [of n xs])
    then show ?thesis using "1.IH" False by (auto dest: in_set_takeD in_set_dropD)
  qed
qed

lemma pieces_next: "pieces_of n xs = c # cs \<Longrightarrow> c = take n xs \<and> cs = pieces_of n (drop n xs) \<and> xs \<noteq> []"
  by (subst (asm) pieces_of.simps) (auto split: if_splits)

lemma pieces_end: "pieces_of n xs = [] \<Longrightarrow> 0 < n \<Longrightarrow> xs = []"
  by (subst (asm) pieces_of.simps) (auto split: if_splits)

section \<open>Looking up a name\<close>

text \<open>The part of the image with the directory: the number of entries, and the entries.\<close>

definition dir_area :: "fs \<Rightarrow> memory \<Rightarrow> u32 set" where
  "dir_area f m = span (fs_start f) 4 \<union> (\<Union>i < unat (get_num_dentries f m). span (dentry_addr f (of_nat i)) 64)"

definition entry_names :: "fs \<Rightarrow> memory \<Rightarrow> u8 list list" where
  "entry_names f m = map (entry_name f m) [0..<unat (get_num_dentries f m)]"

lemma dir_area_cong:
  assumes "\<And>a. a \<in> dir_area f m \<Longrightarrow> m' a = m a"
  shows "get_num_dentries f m' = get_num_dentries f m" "dir_area f m' = dir_area f m"
    "i < unat (get_num_dentries f m) \<Longrightarrow> entry_name f m' i = entry_name f m i"
    "i < unat (get_num_dentries f m) \<Longrightarrow> load_dentry m' (dentry_addr f (of_nat i)) = load_dentry m (dentry_addr f (of_nat i))"
    "entry_names f m' = entry_names f m" "entry_of f m' a = entry_of f m a"
proof -
  show n: "get_num_dentries f m' = get_num_dentries f m"
    using assms by (auto simp: get_num_dentries_def get_master_entry_addr_def dir_area_def intro!: load32_cong)
  then show "dir_area f m' = dir_area f m" by (simp add: dir_area_def)
  have e: "entry_name f m' i = entry_name f m i \<and> load_dentry m' (dentry_addr f (of_nat i)) = load_dentry m (dentry_addr f (of_nat i))"
    if "i < unat (get_num_dentries f m)" for i
  proof -
    let ?p = "dentry_addr f (of_nat i)"
    have eq: "m' a = m a" if "a \<in> span ?p 64" for a using that \<open>i < _\<close> assms by (auto simp: dir_area_def)
    have b: "bytes m' ?p 64 = bytes m ?p 64" using eq by (intro bytes_cong) auto
    have at: "m' (?p + of_nat j) = m (?p + of_nat j)" if "j < 64" for j using eq in_span [of j 64 ?p] that by simp
    have "entry_name f m' i = entry_name f m i" unfolding entry_name_def by (rule chunk_cong) (simp add: at_def at)
    moreover have "bytes m' (?p + of_nat k) j = bytes m (?p + of_nat k) j" if "k + j \<le> 64" for k j
      using that at by (intro nth_equalityI) (simp_all add: add.assoc flip: of_nat_add)
    from this [of 0 32] this [of 32 4] this [of 36 4] have "load_dentry m' ?p = load_dentry m ?p"
      using load32_bytes [of m' "?p + 32" m] load32_bytes [of m' "?p + 36" m] by (simp add: load_dentry_def)
    ultimately show ?thesis by simp
  qed
  then show "i < unat (get_num_dentries f m) \<Longrightarrow> entry_name f m' i = entry_name f m i"
    "i < unat (get_num_dentries f m) \<Longrightarrow> load_dentry m' (dentry_addr f (of_nat i)) = load_dentry m (dentry_addr f (of_nat i))" by blast+
  show "entry_names f m' = entry_names f m" using e by (simp add: entry_names_def n)
  have "List.find (\<lambda>i. entry_name f m' i = a) [0..<unat (get_num_dentries f m)] = List.find (\<lambda>i. entry_name f m i = a) [0..<unat (get_num_dentries f m)]"
    using e by (intro find_cong) auto
  then show "entry_of f m' a = entry_of f m a" unfolding entry_of_def n using e by (intro option.map_cong) (auto simp: find_Some_iff)
qed

lemma open_entry:
  assumes "str name a" "a \<noteq> []" "not_device a" "entry_of (kfs k) (mem k) a = Some d" "dentry_file u (kfs k) d = fs_file ops inode"
    "ops \<noteq> Rtc_funcs" "eight_files (proc k)" "0 \<le> find_new_fd (proc k)"
  shows "syscall_open u name k = Some (set_file (current_process k) (nat (find_new_fd (proc k))) (fs_file ops inode) k, find_new_fd (proc k))"
proof -
  have d: "a \<noteq> map of_char ''/dev/stdin''" "a \<noteq> map of_char ''/dev/stdout''" "a \<noteq> map of_char ''/dev/rtc''"
    using assms(3) by (simp_all add: not_device_def)
  have "named_file u k a = Some (fs_file ops inode)" using d(3) assms(2,4,5) by (simp add: named_file_def)
  moreover have "open_func ops k = Some k" for k using assms(6) by (cases ops) (simp_all add: open_func_def)
  ultimately show ?thesis using open_by_name [OF assms(1) d(1,2)] assms(8) by (simp add: open_new_def open_at_def Let_def fs_file_def)
qed

section \<open>cat on the kernel\<close>

abbreviation left_of :: "int \<Rightarrow> kernel \<Rightarrow> u8 list" where
  "left_of fd k \<equiv> unread (kfs k) (fd_file fd k)"

abbreviation inode_of :: "int \<Rightarrow> kernel \<Rightarrow> u32" where
  "inode_of fd k \<equiv> inode_ptr (open_files (proc k) ! nat fd)"

text \<open>
  A program that reads the open regular file \<open>fd\<close> into its buffer and shows it: its terminal is on
  the screen, and the display is clear of the buffer and of the file.
\<close>

definition reads_file :: "int \<Rightarrow> u32 \<Rightarrow> int \<Rightarrow> session \<Rightarrow> bool" where
  "reads_file fd buf n s \<longleftrightarrow> (let k = fst s in
     fd_ok fd buf n k \<and> std_files (proc k) \<and> shows_output k \<and> span buf (nat n) \<inter> display (ktty k) = {} \<and>
     image (kfs k) (mem k) (inode_of fd k) \<inter> display (ktty k) = {} \<and> 0 \<notin> set (left_of fd k))"

lemma sint_of_int_u32: "0 \<le> i \<Longrightarrow> i < 2 ^ 31 \<Longrightarrow> sint (of_int i :: u32) = i"
  using sint_of_nat_u32 [of "nat i"] by simp

lemma kernel_read_next:
  assumes "reads_file fd buf n (k, log)"
  defines "bs \<equiv> take (nat n) (left_of fd k)"
  obtains k' where "sys_read (kernel_sys e l) fd buf n (k, log) = Some ((k', log), int (length bs))"
    "reads_file fd buf n (k', log)" "left_of fd k' = drop (nat n) (left_of fd k)" "bytes (mem k') buf (length bs) = bs"
proof -
  have r: "fd_ok fd buf n k" "std_files (proc k)" "shows_output k" "span buf (nat n) \<inter> display (ktty k) = {}"
    "image (kfs k) (mem k) (inode_of fd k) \<inter> display (ktty k) = {}" "0 \<notin> set (left_of fd k)"
    using assms(1) by (simp_all add: reads_file_def)
  let ?f = "open_files (proc k) ! nat fd"
  let ?f1 = "?f\<lparr>pos := pos ?f + of_nat (length bs)\<rparr>" and ?m = "store_bytes (mem k) buf bs"
  let ?k' = "set_file (current_process k) (nat fd) ?f1 (set_mem ?m k)"
  note s = syscall_read_regular [OF r(1), folded bs_def]
  have o: "eight_files (proc k)" "valid_fd fd (proc k)" "0 < n" "n < 2 ^ 31" "open_ok (kfs k) buf (of_int n) (mem k, ?f)"
    using r(1) by (simp_all add: fd_ok_def fd_file_def)
  have fd: "0 \<le> fd" "fd < 8" using o(2) by (auto simp: valid_fd_def)
  have "sint (of_nat (length bs) :: u32) = int (length bs)" using s(4) by (intro sint_of_nat_u32) simp
  moreover have "sint (of_int fd :: u32) = fd" "sint (of_int n :: u32) = n" using fd o(3,4) by (simp_all add: sint_of_int_u32)
  ultimately have call: "sys_read (kernel_sys e l) fd buf n (k, log) = Some ((?k', log), int (length bs))"
    using s(1) [of "fst (e_waits e 0)" "snd (e_waits e 0)"] by (simp add: kernel_sys_def DO_CALL_def syscall_handler_def read_in_def ret_int_def)
  have rd: "fd_read fd buf n k = (?k', bs)" unfolding fd_read_def s(1) using s(2) by simp
  note e = fd_read_effect [OF r(1), unfolded rd fst_conv snd_conv]
  have n: "unat (of_int n :: u32) = nat n" using unat_of_nat_u32 [of "nat n"] o(3,4) by simp
  have left: "left_of fd ?k' = drop (nat n) (left_of fd k)"
    unfolding e(1) using read_step_effect(3) [OF o(5)] by (simp add: n fd_file_def)
  have f1: "open_files (proc ?k') ! nat fd = ?f1" using o(1) fd by (simp add: put_file_def eight_files_def)
  have len: "length bs \<le> nat n" by (simp add: bs_def)
  have "a \<in> image (kfs k) (mem k) (inode_ptr ?f) \<Longrightarrow> ?m a = mem k a" for a
    using o(5) n len span_mono [of "length bs" "nat n" buf] by (intro store_bytes_outside) (auto simp: open_ok_def)
  then have im: "image (kfs k) ?m (inode_ptr ?f) = image (kfs k) (mem k) (inode_ptr ?f)"
    using o(5) by (intro image_well_formed_cong(1)) (simp_all add: open_ok_def)
  have "std_files (proc ?k')" using syscall_read_std [OF r(2) s(1) [of "[]" "[]"]] by simp
  moreover have "ktty ?k' = ktty k" by (simp add: set_mem_def)
  moreover have "p_terminal (proc ?k') = p_terminal (proc k)" by (simp add: put_file_def)
  ultimately have "reads_file fd buf n (?k', log)"
    using e(3) r(3-6) left f1 im by (auto simp: reads_file_def shows_output_def dest: in_set_dropD)
  then show ?thesis using that call left s(2) by simp
qed

lemma sys_write_text:
  assumes "std_files (proc k)" "shows_output k" "0 \<notin> set (bytes (mem k) buf j)" "span buf j \<inter> display (ktty k) = {}" "j < 2 ^ 31"
  obtains t where "sys_write (kernel_sys e l) 1 buf (int j) (k, log) = Some ((put_tty t k, log @ bytes (mem k) buf j), 0)" "shows_output (put_tty t k)"
    "display t = display (ktty k)" "\<forall>a. a \<notin> display (ktty k) \<longrightarrow> smem (scr t) a = mem k a"
proof -
  have j: "j \<le> 2 ^ 32" using assms(5) by simp
  obtain t where t: "syscall_write 1 buf (int j) k = Some (put_tty t k, 0)" "shows_output (put_tty t k)" "display t = display (ktty k)"
    "\<forall>a. a \<notin> display (ktty k) \<longrightarrow> smem (scr t) a = mem k a" by (rule stdout_write [OF assms(1-4) j])
  have "sint (of_nat j :: u32) = int j" using assms(5) by (rule sint_of_nat_u32)
  moreover have "takeWhile (\<lambda>c. c \<noteq> 0) (bytes (mem k) buf j) = bytes (mem k) buf j" using assms(3) by (auto simp: takeWhile_eq_all_conv)
  ultimately have "sys_write (kernel_sys e l) 1 buf (int j) (k, log) = Some ((put_tty t k, log @ bytes (mem k) buf j), 0)"
    using t(1) by (simp add: kernel_sys_def logged_write_def DO_CALL_def syscall_handler_def ret_int_def)
  then show ?thesis using that t(2-4) by blast
qed

lemma kernel_write_text:
  assumes "reads_file fd buf n (k, log)" "j \<le> nat n" "0 \<notin> set (bytes (mem k) buf j)"
  obtains k' where "sys_write (kernel_sys e l) 1 buf (int j) (k, log) = Some ((k', log @ bytes (mem k) buf j), 0)"
    "reads_file fd buf n (k', log')" "left_of fd k' = left_of fd k"
proof -
  have r: "fd_ok fd buf n k" "std_files (proc k)" "shows_output k" "span buf (nat n) \<inter> display (ktty k) = {}"
    "image (kfs k) (mem k) (inode_of fd k) \<inter> display (ktty k) = {}" "0 \<notin> set (left_of fd k)"
    using assms(1) by (simp_all add: reads_file_def)
  have j: "span buf j \<inter> display (ktty k) = {}" "j < 2 ^ 31" using r(1,4) assms(2) span_mono [OF assms(2), of buf] by (auto simp: fd_ok_def)
  obtain t where t: "sys_write (kernel_sys e l) 1 buf (int j) (k, log) = Some ((put_tty t k, log @ bytes (mem k) buf j), 0)" "shows_output (put_tty t k)"
    "display t = display (ktty k)" "\<forall>a. a \<notin> display (ktty k) \<longrightarrow> smem (scr t) a = mem k a" by (rule sys_write_text [OF r(2,3) assms(3) j, of e l log])
  let ?i = "inode_of fd k"
  have wf: "well_formed (kfs k) (mem k) ?i" using r(1) by (simp add: fd_ok_def fd_file_def open_ok_def)
  have eq: "smem (scr t) a = mem k a" if "a \<in> image (kfs k) (mem k) ?i" for a using that r(5) t(4) by auto
  note c = image_well_formed_cong [OF wf eq] contents_cong [OF wf eq]
  have left: "left_of fd (put_tty t k) = left_of fd k" using c(4) by (simp add: unread_def fd_file_def)
  have "fd_ok fd buf n (put_tty t k)" using r(1) c by (simp add: fd_ok_def fd_file_def open_ok_def)
  then have "reads_file fd buf n (put_tty t k, log')" using r t(2,3) left c(1) by (simp add: reads_file_def)
  then show ?thesis using that t(1) left by blast
qed

interpretation file_reader: piecewise_reader "kernel_sys e l" "reads_file fd buf n" "\<lambda>s. pieces_of (nat n) (left_of fd (fst s))" snd fd buf n "nat n"
  for e l fd buf n
proof
  fix s :: session and c cs and k :: nat
  assume ok: "reads_file fd buf n s"
  obtain K log where s: "s = (K, log)" by (cases s)
  have n: "0 < n" using ok by (simp add: reads_file_def fd_ok_def Let_def)
  have k: "reads_file fd buf n (K, log)" using ok s by simp
  obtain K1 where rd: "sys_read (kernel_sys e l) fd buf n (K, log) = Some ((K1, log), int (length (take (nat n) (left_of fd K))))"
    "reads_file fd buf n (K1, log)" "left_of fd K1 = drop (nat n) (left_of fd K)"
    "bytes (mem K1) buf (length (take (nat n) (left_of fd K))) = take (nat n) (left_of fd K)"
    by (rule kernel_read_next [OF k, of e l])
  show "\<exists>s'. sys_read (kernel_sys e l) fd buf n s = Some (s', int (length c)) \<and> reads_file fd buf n s' \<and> pieces_of (nat n) (left_of fd (fst s')) = cs \<and>
      snd s' = snd s \<and> bytes (user_mem (kernel_sys e l) s') buf (length c) = c" if "pieces_of (nat n) (left_of fd (fst s)) = c # cs"
    using rd pieces_next [OF that] s by (intro exI [of _ "(K1, log)"]) (simp add: user_mem_kernel)
  show "\<exists>s'. sys_read (kernel_sys e l) fd buf n s = Some (s', 0) \<and> snd s' = snd s"
    if "pieces_of (nat n) (left_of fd (fst s)) = []"
    using rd pieces_end [OF that] n s by (intro exI [of _ "(K1, log)"]) simp
  show "c \<noteq> [] \<and> 0 \<notin> set c \<and> int (length c) \<le> n" if "c \<in> set (pieces_of (nat n) (left_of fd (fst s)))"
    using in_pieces [OF that] ok n by (auto simp: reads_file_def Let_def)
  show "\<exists>s'. sys_write (kernel_sys e l) 1 buf (int k) s = Some (s', 0) \<and> reads_file fd buf n s' \<and>
      pieces_of (nat n) (left_of fd (fst s')) = pieces_of (nat n) (left_of fd (fst s)) \<and> snd s' = snd s @ bytes (user_mem (kernel_sys e l) s) buf k"
    if t: "k \<le> nat n" "0 \<notin> set (bytes (user_mem (kernel_sys e l) s) buf k)"
  proof -
    have z: "0 \<notin> set (bytes (mem K) buf k)" using t(2) s by (simp add: user_mem_kernel)
    obtain K2 where "sys_write (kernel_sys e l) 1 buf (int k) (K, log) = Some ((K2, log @ bytes (mem K) buf k), 0)"
      "reads_file fd buf n (K2, log @ bytes (mem K) buf k)" "left_of fd K2 = left_of fd K"
      by (rule kernel_write_text [OF k t(1) z, of e l])
    then show ?thesis using s by (intro exI [of _ "(K2, log @ bytes (mem K) buf k)"]) (simp add: user_mem_kernel)
  qed
qed

section \<open>ls on the kernel\<close>

text \<open>Every entry has a name, and a NUL ends it.\<close>

definition named :: "fs \<Rightarrow> memory \<Rightarrow> bool" where
  "named f m \<longleftrightarrow> (\<forall>i < unat (get_num_dentries f m). entry_name f m i \<noteq> [] \<and> str (at m (dentry_addr f (of_nat i))) (entry_name f m i))"

lemma entry_area: "i < unat (get_num_dentries f m) \<Longrightarrow> span (dentry_addr f (of_nat i)) 64 \<subseteq> dir_area f m"
  by (auto simp: dir_area_def)

lemma named_cong:
  assumes "\<And>a. a \<in> dir_area f m \<Longrightarrow> m' a = m a" "named f m" shows "named f m'"
proof -
  note c = dir_area_cong [OF assms(1)]
  have "str (at m' (dentry_addr f (of_nat i))) (entry_name f m i)" if i: "i < unat (get_num_dentries f m)" for i
  proof -
    let ?p = "dentry_addr f (of_nat i)"
    have s: "str (at m ?p) (entry_name f m i)" using assms(2) i by (simp add: named_def)
    have "m' (?p + of_nat j) = m (?p + of_nat j)" if "j \<le> 32" for j
      using that entry_area [OF i] in_span [of j 64 ?p] by (intro assms(1)) auto
    then show ?thesis using s length_entry_name [of f m i] by (auto simp: str_def at_def)
  qed
  then show ?thesis using assms(2) c(1,3) by (simp add: named_def)
qed

abbreviation dir_file :: "int \<Rightarrow> kernel \<Rightarrow> file_info" where
  "dir_file fd k \<equiv> open_files (proc k) ! nat fd"

definition names_left :: "int \<Rightarrow> kernel \<Rightarrow> u8 list list" where
  "names_left fd k = drop (unat (pos (dir_file fd k))) (entry_names (kfs k) (mem k))"

text \<open>A program that reads the directory into a buffer of 33 bytes and shows it.\<close>

definition lists_dir :: "int \<Rightarrow> u32 \<Rightarrow> session \<Rightarrow> bool" where
  "lists_dir fd buf s \<longleftrightarrow> (let k = fst s; f = dir_file fd k; d = dir_area (kfs k) (mem k) in
     std_files (proc k) \<and> valid_fd fd (proc k) \<and> f_ops f = Some Dir_funcs \<and> can_read f \<and> shows_output k \<and> named (kfs k) (mem k) \<and>
     pos f \<le> get_num_dentries (kfs k) (mem k) \<and> span buf 33 \<inter> d = {} \<and> display (ktty k) \<inter> d = {} \<and> span buf 33 \<inter> display (ktty k) = {})"

lemma lists_dir_change:
  assumes "lists_dir fd buf (k, log)" "\<And>a. a \<in> dir_area (kfs k) (mem k) \<Longrightarrow> mem k' a = mem k a" "kfs k' = kfs k"
    "display (ktty k') = display (ktty k)" "shows_output k'" "std_files (proc k')" "valid_fd fd (proc k')"
    "dir_file fd k' = (dir_file fd k)\<lparr>pos := p\<rparr>" "p \<le> get_num_dentries (kfs k) (mem k)"
  shows "lists_dir fd buf (k', log')" "names_left fd k' = drop (unat p) (entry_names (kfs k) (mem k))"
proof -
  note c = dir_area_cong [of "kfs k" "mem k" "mem k'", OF assms(2)]
  have n: "named (kfs k) (mem k')" using named_cong [of "kfs k" "mem k" "mem k'", OF assms(2)] assms(1) by (simp add: lists_dir_def Let_def)
  show "lists_dir fd buf (k', log')"
    using assms(1) n unfolding lists_dir_def Let_def fst_conv assms(3,4,8) by (simp add: assms(5-7,9) c(1,2))
  show "names_left fd k' = drop (unat p) (entry_names (kfs k) (mem k))" unfolding names_left_def assms(3,8) by (simp add: c(5))
qed

lemma lists_dirD:
  assumes "lists_dir fd buf (k, log)"
  shows "std_files (proc k)" "valid_fd fd (proc k)" "f_ops (dir_file fd k) = Some Dir_funcs" "can_read (dir_file fd k)" "shows_output k"
    "named (kfs k) (mem k)" "pos (dir_file fd k) \<le> get_num_dentries (kfs k) (mem k)" "span buf 33 \<inter> dir_area (kfs k) (mem k) = {}"
    "display (ktty k) \<inter> dir_area (kfs k) (mem k) = {}" "span buf 33 \<inter> display (ktty k) = {}" "0 \<le> fd" "fd < 8"
  using assms by (simp_all add: lists_dir_def Let_def valid_fd_def)

lemma dir_read:
  assumes "lists_dir fd buf (k, log)" "directory_read (kfs k) (dir_file fd k) buf 32 (mem k) = Some (m, f1, of_nat r)" "r \<le> 32"
  shows "sys_read (kernel_sys e l) fd buf 32 (k, log) = Some ((set_file (current_process k) (nat fd) f1 (set_mem m k), log), int r)"
proof -
  note d = lists_dirD [OF assms(1)]
  have "sint (of_int fd :: u32) = fd" "sint (of_nat r :: u32) = int r" using d(11,12) assms(3) by (simp_all add: sint_of_int_u32 sint_of_nat_u32)
  then show ?thesis using d(2-4) assms(2)
    by (simp add: kernel_sys_def DO_CALL_def syscall_handler_def read_in_def ret_int_def syscall_read_def read_func_def)
qed

lemma names_left_text:
  assumes "lists_dir fd buf (k, log)" "c \<in> set (names_left fd k)" shows "c \<noteq> [] \<and> 0 \<notin> set c \<and> length c \<le> 32"
proof -
  obtain i where "i < unat (get_num_dentries (kfs k) (mem k))" "c = entry_name (kfs k) (mem k) i"
    using in_set_dropD [OF assms(2) [unfolded names_left_def]] by (auto simp: entry_names_def)
  then show ?thesis using lists_dirD(6) [OF assms(1)] length_entry_name by (auto simp: named_def str_def)
qed

lemma dir_read_next:
  assumes "lists_dir fd buf (k, log)" "names_left fd k = c # cs"
  obtains k' where "sys_read (kernel_sys e l) fd buf 32 (k, log) = Some ((k', log), int (length c))" "lists_dir fd buf (k', log)"
    "names_left fd k' = cs" "bytes (mem k') buf (length c) = c"
proof -
  note d = lists_dirD [OF assms(1)]
  let ?f = "dir_file fd k" and ?num = "get_num_dentries (kfs k) (mem k)"
  let ?i = "unat (pos ?f)" and ?bs = "c @ replicate (32 - length c) 0"
  let ?m = "store_bytes (mem k) buf ?bs" and ?f1 = "?f\<lparr>pos := pos ?f + 1\<rparr>"
  let ?k' = "set_file (current_process k) (nat fd) ?f1 (set_mem ?m k)"
  have i: "?i < unat ?num" using assms(2) by (rule_tac ccontr) (simp add: names_left_def entry_names_def)
  then have c: "c = entry_name (kfs k) (mem k) ?i" "cs = drop (Suc ?i) (entry_names (kfs k) (mem k))"
    using assms(2) by (simp_all add: names_left_def entry_names_def drop_map upt_conv_Cons [OF i])
  have s: "c \<noteq> []" "str (at (mem k) (dentry_addr (kfs k) (pos ?f))) c" using d(6) i by (auto simp: named_def c(1))
  have l: "length c \<le> 32" unfolding c(1) by (rule length_entry_name)
  have "span buf (length c) \<inter> span (dentry_addr (kfs k) (pos ?f)) (Suc (length c)) = {}"
    using entry_area [OF i] d(8) l span_mono [of "length c" 33 buf] span_mono [of "Suc (length c)" 64 "dentry_addr (kfs k) (pos ?f)"] by auto
  then have "directory_read (kfs k) ?f buf 32 (mem k) = Some (?m, ?f1, of_nat (length c))"
    using read_directory_bytes [OF _ s(2), of buf 32] i by (simp add: directory_read_def word_less_nat_alt)
  from dir_read [OF assms(1) this l] have rd: "sys_read (kernel_sys e l) fd buf 32 (k, log) = Some ((?k', log), int (length c))" .
  have p: "unat (pos ?f + 1) = Suc ?i" "pos ?f + 1 \<le> ?num"
    using i unat_Suc_less [of "pos ?f" ?num] by (auto simp: word_less_nat_alt word_le_nat_alt)
  have fd: "nat fd < 8" "eight_files (proc k)" using d(1,11,12) by (simp_all add: std_files_def)
  then have f1: "dir_file fd ?k' = ?f1" by (simp add: put_file_def eight_files_def)
  have "a \<in> dir_area (kfs k) (mem k) \<Longrightarrow> ?m a = mem k a" for a
    using d(8) span_mono [of "length ?bs" 33 buf] l by (intro store_bytes_outside) auto
  moreover have "std_files (proc ?k')" using std_files_put [OF d(1) fd(1), of ?f1] std_files_nth(4) [OF d(1,2)] d(3) by (simp add: le_nat_iff)
  moreover have "shows_output ?k'" "display (ktty ?k') = display (ktty k)" using d(5) by (simp_all add: shows_output_def put_file_def set_mem_def)
  moreover have "valid_fd fd (proc ?k')" using f1 d(2) by (simp add: valid_fd_def)
  ultimately have ch: "lists_dir fd buf (?k', log)" "names_left fd ?k' = cs"
    using lists_dir_change(1) [OF assms(1), of ?k' "pos ?f + 1" log] lists_dir_change(2) [OF assms(1), of ?k' "pos ?f + 1"] f1 p unfolding c(2) by simp_all
  have "bytes ?m buf 32 = ?bs" using bytes_store_bytes [of ?bs "mem k" buf] l by simp
  then have "bytes ?m buf (length c) = c" using take_bytes [of "length c" 32 ?m buf] l by simp
  then show ?thesis using that rd ch by simp
qed

lemma dir_write:
  assumes "lists_dir fd buf (k, log)" "j \<le> 33" "0 \<notin> set (bytes (mem k) buf j)"
  obtains k' where "sys_write (kernel_sys e l) 1 buf (int j) (k, log) = Some ((k', log @ bytes (mem k) buf j), 0)"
    "lists_dir fd buf (k', log')" "names_left fd k' = names_left fd k"
proof -
  note d = lists_dirD [OF assms(1)]
  have j: "span buf j \<inter> display (ktty k) = {}" "j \<le> 2 ^ 32" "j < 2 ^ 31" using d(10) assms(2) span_mono [OF assms(2), of buf] by auto
  obtain t where t: "sys_write (kernel_sys e l) 1 buf (int j) (k, log) = Some ((put_tty t k, log @ bytes (mem k) buf j), 0)" "shows_output (put_tty t k)"
    "display t = display (ktty k)" "\<forall>a. a \<notin> display (ktty k) \<longrightarrow> smem (scr t) a = mem k a" by (rule sys_write_text [OF d(1,5) assms(3) j(1,3), of e l log])
  have "a \<in> dir_area (kfs k) (mem k) \<Longrightarrow> smem (scr t) a = mem k a" for a using t(4) d(9) by auto
  then show ?thesis
    using that t(1-3) lists_dir_change(1) [OF assms(1), of "put_tty t k" "pos (dir_file fd k)" log']
      lists_dir_change(2) [OF assms(1), of "put_tty t k" "pos (dir_file fd k)"] d(1,2,7) by (simp add: names_left_def)
qed


lemma dir_read_end:
  assumes "lists_dir fd buf (k, log)" "names_left fd k = []"
  shows "\<exists>k'. sys_read (kernel_sys e l) fd buf 32 (k, log) = Some ((k', log), 0)"
proof -
  note d = lists_dirD [OF assms(1)]
  let ?f = "dir_file fd k"
  have "get_num_dentries (kfs k) (mem k) \<le> pos ?f" using assms(2) by (simp add: names_left_def entry_names_def word_le_nat_alt)
  then have "directory_read (kfs k) ?f buf 32 (mem k) = Some (mem k, ?f\<lparr>pos := pos ?f + 1\<rparr>, of_nat 0)"
    by (simp add: directory_read_def read_directory_index_def)
  from dir_read [OF assms(1) this] show ?thesis by simp
qed

lemma dir_poke:
  fixes b :: u8
  assumes "lists_dir fd buf (k, log)" "j < 33"
  defines "k' \<equiv> set_mem ((mem k)(buf + of_nat j := b)) k"
  shows "lists_dir fd buf (k', log)" "names_left fd k' = names_left fd k"
proof -
  note d = lists_dirD [OF assms(1)]
  have "buf + of_nat j \<in> span buf 33" using assms(2) by (intro in_span) simp_all
  then have "a \<in> dir_area (kfs k) (mem k) \<Longrightarrow> mem k' a = mem k a" for a using d(8) by (auto simp: k'_def)
  moreover have "shows_output k'" "display (ktty k') = display (ktty k)" using d(5) by (simp_all add: k'_def shows_output_def set_mem_def)
  ultimately show "lists_dir fd buf (k', log)" "names_left fd k' = names_left fd k"
    using lists_dir_change(1) [OF assms(1), of k' "pos (dir_file fd k)" log] lists_dir_change(2) [OF assms(1), of k' "pos (dir_file fd k)"] d(1,2,7)
    by (simp_all add: k'_def names_left_def)
qed

interpretation dir_lister: piecewise_editor "kernel_sys e l" "lists_dir fd buf" "\<lambda>s. names_left fd (fst s)" snd fd buf 32 33
  for e l fd buf
proof
  fix s :: session and c cs and j :: nat and b
  assume "lists_dir fd buf s"
  obtain k log where s: "s = (k, log)" by (cases s)
  have ok: "lists_dir fd buf (k, log)" using \<open>lists_dir fd buf s\<close> s by simp
  show "\<exists>s'. sys_read (kernel_sys e l) fd buf 32 s = Some (s', int (length c)) \<and> lists_dir fd buf s' \<and> names_left fd (fst s') = cs \<and>
      snd s' = snd s \<and> bytes (user_mem (kernel_sys e l) s') buf (length c) = c" if "names_left fd (fst s) = c # cs"
  proof -
    have left: "names_left fd k = c # cs" using that s by simp
    obtain k1 where "sys_read (kernel_sys e l) fd buf 32 (k, log) = Some ((k1, log), int (length c))" "lists_dir fd buf (k1, log)"
      "names_left fd k1 = cs" "bytes (mem k1) buf (length c) = c" by (rule dir_read_next [OF ok left, of e l])
    then show ?thesis using s by (intro exI [of _ "(k1, log)"]) (simp add: user_mem_kernel)
  qed
  show "\<exists>s'. sys_read (kernel_sys e l) fd buf 32 s = Some (s', 0) \<and> snd s' = snd s" if "names_left fd (fst s) = []"
    using dir_read_end [OF ok, of e l] that s by auto
  show "c \<noteq> [] \<and> 0 \<notin> set c \<and> int (length c) \<le> 32" if "c \<in> set (names_left fd (fst s))"
    using names_left_text [OF ok, of c] that s by simp
  show "\<exists>s'. sys_write (kernel_sys e l) 1 buf (int j) s = Some (s', 0) \<and> lists_dir fd buf s' \<and>
      names_left fd (fst s') = names_left fd (fst s) \<and> snd s' = snd s @ bytes (user_mem (kernel_sys e l) s) buf j"
    if t: "j \<le> 33" "0 \<notin> set (bytes (user_mem (kernel_sys e l) s) buf j)"
  proof -
    have z: "0 \<notin> set (bytes (mem k) buf j)" using t(2) s by (simp add: user_mem_kernel)
    obtain k2 where "sys_write (kernel_sys e l) 1 buf (int j) (k, log) = Some ((k2, log @ bytes (mem k) buf j), 0)"
      "lists_dir fd buf (k2, log @ bytes (mem k) buf j)" "names_left fd k2 = names_left fd k" by (rule dir_write [OF ok t(1) z, of e l])
    then show ?thesis using s by (intro exI [of _ "(k2, log @ bytes (mem k) buf j)"]) (simp add: user_mem_kernel)
  qed
  show "lists_dir fd buf (poke (kernel_sys e l) (buf + of_nat j) b s) \<and> names_left fd (fst (poke (kernel_sys e l) (buf + of_nat j) b s)) = names_left fd (fst s) \<and>
      snd (poke (kernel_sys e l) (buf + of_nat j) b s) = snd s \<and>
      user_mem (kernel_sys e l) (poke (kernel_sys e l) (buf + of_nat j) b s) = (user_mem (kernel_sys e l) s)(buf + of_nat j := b)" if "j < 33"
    using dir_poke [OF ok that, of b] s by (simp add: poke_def kernel_sys_def)
qed

lemma sys_getargs_string:
  assumes "cstring (args (proc k)) = Some a" "a \<noteq> []" "length a < 1024"
  obtains m where "sys_getargs (kernel_sys e l) buf 1024 (k, log) = Some ((set_mem m k, log), 0)" "str (at m buf) a"
    "\<And>x. x \<notin> span buf 1024 \<Longrightarrow> m x = mem k x"
proof -
  let ?bs = "take 1024 a @ replicate (1024 - length a) 0"
  let ?m = "store_bytes (mem k) buf ?bs"
  have "sys_getargs (kernel_sys e l) buf 1024 (k, log) = Some ((set_mem ?m k, log), 0)"
    using syscall_getargs_stores [OF assms(1) _ assms(2), of buf 1024] assms(3) by (simp add: kernel_sys_def DO_CALL_def syscall_handler_def ret_word_def)
  moreover have "str (at ?m buf) a" using stored_str [OF cstring_str [OF assms(1)], of 1024] assms(3) by simp
  moreover have "?m x = mem k x" if "x \<notin> span buf 1024" for x using that assms(3) by (intro store_bytes_outside) simp
  ultimately show ?thesis using that by blast
qed

lemma sys_open_fd:
  assumes "syscall_open (e_uninit e) (at (mem k) name) k = Some (k', fd)" "0 \<le> fd" "fd < 8"
  shows "sys_open (kernel_sys e l) name (k, log) = Some ((k', log), fd)"
  using assms by (simp add: kernel_sys_def DO_CALL_def syscall_handler_def ret_int_def sint_of_int_u32)

lemma opened_file:
  assumes "std_files (proc k)" "0 \<le> find_new_fd (proc k)" "f_ops f \<noteq> None" "in_use f"
  defines "fd \<equiv> find_new_fd (proc k)" and "k' \<equiv> set_file (current_process k) (nat (find_new_fd (proc k))) f k"
  shows "fd < 8" "std_files (proc k')" "eight_files (proc k')" "open_files (proc k') ! nat fd = f" "valid_fd fd (proc k')"
    "p_terminal (proc k') = p_terminal (proc k)"
proof -
  have wf: "eight_files (proc k)" using assms(1) by (simp add: std_files_def)
  note n = fd_table.new_fd_first [OF wf assms(2)]
  show b: "fd < 8" using n by (simp add: fd_def)
  have "2 \<le> fd" using fd_table.new_fd_high [OF wf] assms(1,2) by (simp add: std_files_def fd_def)
  then show "std_files (proc k')" using b assms(1,3) std_files_put [of "proc k" "nat fd" f] by (simp add: k'_def fd_def le_nat_iff)
  then show "eight_files (proc k')" by (simp add: std_files_def)
  show f: "open_files (proc k') ! nat fd = f" using wf b by (simp add: k'_def put_file_def eight_files_def fd_def)
  show "valid_fd fd (proc k')" using f b assms(2,4) by (simp add: valid_fd_def fd_def)
  show "p_terminal (proc k') = p_terminal (proc k)" by (simp add: k'_def put_file_def)
qed

section \<open>Properties\<close>

definition user_kernel :: "memory \<Rightarrow> kernel" where
  "user_kernel m = set_mem m (plain_kernel\<lparr>kfs := tiny_fs, ktty := boot_tty,
     procs := (\<lambda>p. (std_process p)\<lparr>p_terminal := Some 0, args := 97 # replicate 99 0\<rparr>)\<rparr>)"

definition user_env :: call_env where
  "user_env = \<lparr>e_waits = (\<lambda>_. ([], [])), e_wav_buf = 0, e_dma_buffer = 0, e_uninit = closed_file, e_stack = (\<lambda>_. 0), e_message = 0, e_bucket = 0\<rparr>"

lemma user_kernel_simps [simp]:
  "mem (user_kernel m) = m" "kfs (user_kernel m) = tiny_fs" "current_process (user_kernel m) = 1" "ktty (user_kernel m) = boot_tty"
  by (simp_all add: user_kernel_def plain_kernel_def) (simp add: set_mem_def)

lemma user_kernel_process:
  "std_files (proc (user_kernel m))" "find_new_fd (proc (user_kernel m)) = 2" "cstring (args (proc (user_kernel m))) = Some [97]"
  "p_terminal (proc (user_kernel m)) = Some 0"
proof -
  let ?p = "(std_process 1)\<lparr>p_terminal := Some 0, args := 97 # replicate 99 0\<rparr>"
  have p: "proc (user_kernel m) = ?p" by (simp add: user_kernel_def plain_kernel_def)
  have "std_files (q\<lparr>p_terminal := x, args := y\<rparr>) = std_files q" "find_new_fd (q\<lparr>p_terminal := x, args := y\<rparr>) = find_new_fd q" for q :: process and x y
    by (simp_all add: std_files_def descriptors_def find_new_fd_def eight_files_def)
  then show "std_files (proc (user_kernel m))" "find_new_fd (proc (user_kernel m)) = 2" unfolding p using std_process_table(2,3) [of 1] by simp_all
  show "cstring (args (proc (user_kernel m))) = Some [97]" "p_terminal (proc (user_kernel m)) = Some 0" unfolding p by (simp_all add: cstring_def)
qed

lemma boot_tty_shown: "on_screen_at 0 boot_tty" "display boot_tty = span 0xB8000 4000 \<union> terminal_pages (fresh_terminal\<lparr>video_memory := 0x504B00, video_memory_base := 0x504B00\<rparr>)"
proof -
  let ?r = "fresh_terminal\<lparr>video_memory := 0x504B00, video_memory_base := 0x504B00\<rparr>"
  have c: "cur_term boot_tty = Some (0, ?r)" by (simp add: cur_term_Some boot_tty_def page_tty_def fresh_tty_def)
  have p: "real_vidmem (scr boot_tty) = 0xB8000" using page_tty_pointer(1) by (simp add: boot_tty_def page_tty_def blank_screen_def)
  show "display boot_tty = span 0xB8000 4000 \<union> terminal_pages ?r" unfolding display_def c p by simp
  show "on_screen_at 0 boot_tty" using boot_tty_display(1) c p by (simp add: on_screen_at_def VIDEO_def) (simp add: boot_tty_def page_tty_def fresh_tty_def)
qed

lemma all_less_two: "(\<forall>k < (2 :: nat). P k) \<longleftrightarrow> P 0 \<and> P (Suc 0)"
  by (auto simp: less_2_cases_iff)

lemma less_two_set: "{..<2 :: nat} = {0, Suc 0}"
  by auto

lemma user_kernel_shows: "shows_output (user_kernel m)"
  using boot_tty_shown(1) user_kernel_process(4) [of m] by (simp add: shows_output_def)

lemma low_memory_hidden: "a \<in> display boot_tty \<Longrightarrow> 0x10000 \<le> unat a"
  unfolding boot_tty_shown(2) by (auto simp: terminal_pages_def span_def unat_sub_if' word_le_nat_alt split: if_splits)

text \<open>
  C5. \<open>cat\<close> from the command line to its output: run with the name of a regular file as its
  argument, by a process whose terminal is on the screen, the program ends with 0 after it has handed
  exactly the contents of the file, whatever its length, to write calls on descriptor 1 that succeeded,
  through the calls getargs, open, read and write of the kernel. The buffer, the image and the display do not overlap, and the file
  has no NUL.
\<close>

theorem cat_prints_file:
  assumes "std_files (proc k)" "0 \<le> find_new_fd (proc k)" "shows_output k"
    and "cstring (args (proc k)) = Some a" "a \<noteq> []" "not_device a" "entry_of (kfs k) (mem k) a = Some d"
    and "d_type d = DENTRY_FILE" "inode = get_inode_ptr (kfs k) (d_inode d)" "well_formed (kfs k) (mem k) inode"
    and "span buf 1024 \<inter> (dir_area (kfs k) (mem k) \<union> image (kfs k) (mem k) inode \<union> display (ktty k)) = {}"
    and "image (kfs k) (mem k) inode \<inter> display (ktty k) = {}" "0 \<notin> set (contents (kfs k) (mem k) inode)"
  shows "\<exists>k'. cat (kernel_sys e l) buf (k, log) = Some ((k', log @ contents (kfs k) (mem k) inode), 0)"
proof -
  have la: "length a < 1024" using entry_of_length [OF assms(7)] by simp
  obtain m where m: "sys_getargs (kernel_sys e l) buf 1024 (k, log) = Some ((set_mem m k, log), 0)" "str (at m buf) a"
    "\<And>x. x \<notin> span buf 1024 \<Longrightarrow> m x = mem k x" by (rule sys_getargs_string [OF assms(4,5) la, of e l buf log]) blast
  let ?k1 = "set_mem m k" and ?fd = "find_new_fd (proc k)" and ?f = "fs_file Fs_funcs inode"
  let ?k2 = "set_file (current_process ?k1) (nat ?fd) ?f ?k1"
  have eq: "m x = mem k x" if "x \<in> image (kfs k) (mem k) inode" for x using that assms(11) m(3) by blast
  have "entry_of (kfs k) m a = Some d" using dir_area_cong(6) [of "kfs k" "mem k" m a] assms(7,11) m(3) by auto
  moreover have "dentry_file (e_uninit e) (kfs k) d = ?f" using assms(8,9) by (simp add: dentry_file_def DENTRY_FILE_def DENTRY_DIRECTORY_def)
  moreover have wf: "eight_files (proc k)" using assms(1) by (simp add: std_files_def)
  ultimately have o: "syscall_open (e_uninit e) (at m buf) ?k1 = Some (?k2, ?fd)"
    using open_entry [OF m(2) assms(5,6), of ?k1 d] assms(2) by simp
  have f: "f_ops ?f = Some Fs_funcs" "in_use ?f" "can_read ?f" "inode_ptr ?f = inode" "pos ?f = 0" by (simp_all add: fs_file_def)
  have fd: "?fd < 8" "std_files (proc ?k2)" "eight_files (proc ?k2)" "open_files (proc ?k2) ! nat ?fd = ?f" "valid_fd ?fd (proc ?k2)"
    "p_terminal (proc ?k2) = p_terminal (proc k)"
    using opened_file [of ?k1 ?f] assms(1,2) f(1,2) by simp_all
  note c = image_well_formed_cong [OF assms(10) eq] contents_cong [OF assms(10) eq]
  have left: "left_of ?fd ?k2 = contents (kfs k) (mem k) inode" using fd(4) c(4) f(4,5) by (simp add: unread_def fd_file_def)
  have t: "ktty ?k2 = ktty k" by (simp add: set_mem_def)
  have "open_ok (kfs k) buf (of_int 1024) (m, ?f)" using c(1,2) f(4,5) assms(11) by (auto simp: open_ok_def)
  then have "fd_ok ?fd buf 1024 ?k2" using fd(3-5) f(1,3) by (simp add: fd_ok_def fd_file_def)
  then have "reads_file ?fd buf 1024 (?k2, log)"
    using assms(3,11-13) fd(2,4,6) t c(1) left f(4) by (auto simp: reads_file_def shows_output_def Let_def)
  then have "\<exists>s'. cat_loop (kernel_sys e l) ?fd buf (?k2, log) = Some (s', 0) \<and> snd s' = snd (?k2, log) @ concat (pieces_of (nat 1024) (left_of ?fd (fst (?k2, log))))"
    by (rule file_reader.cat_copies) simp_all
  then obtain s' where "cat_loop (kernel_sys e l) ?fd buf (?k2, log) = Some (s', 0)" "snd s' = log @ contents (kfs k) (mem k) inode"
    using concat_pieces [of "nat 1024" "contents (kfs k) (mem k) inode"] unfolding fst_conv snd_conv left by auto
  moreover have "sys_open (kernel_sys e l) buf (?k1, log) = Some ((?k2, log), ?fd)" using sys_open_fd [of e ?k1 buf ?k2 ?fd] o fd(1) assms(2) by simp
  ultimately show ?thesis using m(1) assms(2) by (cases s') (simp add: cat_def)
qed

theorem cat_prints_file_witness:
  "\<exists>k'. cat (kernel_sys user_env (\<lambda>_. 0)) 0x5000 (user_kernel tiny_image, []) = Some ((k', [104, 105, 10]), 0)"
proof -
  let ?k = "user_kernel tiny_image" and ?d = "load_dentry tiny_image 64"
  have "entry_of tiny_fs tiny_image [97] = Some ?d" by (rule tiny_entry_a)
  moreover have "d_type ?d = DENTRY_FILE" "4096 = get_inode_ptr tiny_fs (d_inode ?d)"
    by (simp_all add: load_dentry_def load32_def tiny_image_def DENTRY_FILE_def get_inode_ptr_def)
  moreover have low: "unat a < 0x2003" if "a \<in> dir_area tiny_fs tiny_image \<union> image tiny_fs tiny_image 4096" for a
    using that by (auto simp: dir_area_def tiny_image_set dentry_addr_def span_def unat_sub_if' word_le_nat_alt split: if_splits)
  moreover have "unat a \<in> {0x5000..<0x5400}" if "a \<in> span 0x5000 1024" for a
    using that by (auto simp: span_def unat_sub_if' word_le_nat_alt split: if_splits)
  ultimately show ?thesis
    using cat_prints_file [of ?k "[97]" ?d 4096 "0x5000" user_env "\<lambda>_. 0" "[]"] user_kernel_process(1-3) [of tiny_image] user_kernel_shows
      tiny_well_formed tiny_contents low_memory_hidden
    by (fastforce simp: not_device_def)
qed

text \<open>
  C17. \<open>ls\<close> from open to its output: it ends with 0 after it has handed the name of each entry of the
  directory, in the order of the entries and with a newline after each, to write calls on descriptor 1
  that succeeded. Every entry has a
  name with a NUL after it, the first one called \<open>.\<close> is the directory, and the buffer, the directory
  and the display do not overlap.
\<close>

theorem ls_prints_names:
  assumes "std_files (proc k)" "0 \<le> find_new_fd (proc k)" "shows_output k"
    and "str (at (mem k) (l ''.'')) [46]" "entry_of (kfs k) (mem k) [46] = Some d" "d_type d = DENTRY_DIRECTORY" "named (kfs k) (mem k)"
    and "span buf 33 \<inter> (dir_area (kfs k) (mem k) \<union> display (ktty k)) = {}" "dir_area (kfs k) (mem k) \<inter> display (ktty k) = {}"
  shows "\<exists>k'. ls (kernel_sys e l) buf (k, log) = Some ((k', log @ concat (map (\<lambda>c. c @ [10]) (entry_names (kfs k) (mem k)))), 0)"
proof -
  let ?fd = "find_new_fd (proc k)" and ?f = "fs_file Dir_funcs (get_inode_ptr (kfs k) (d_inode d))"
  let ?k1 = "set_file (current_process k) (nat ?fd) ?f k"
  have "dentry_file (e_uninit e) (kfs k) d = ?f" using assms(6) by (simp add: dentry_file_def)
  moreover have "not_device [46]" by (simp add: not_device_def)
  moreover have "eight_files (proc k)" using assms(1) by (simp add: std_files_def)
  ultimately have o: "syscall_open (e_uninit e) (at (mem k) (l ''.'')) k = Some (?k1, ?fd)"
    using open_entry [OF assms(4), of k d] assms(2,5) by simp
  have f: "f_ops ?f = Some Dir_funcs" "in_use ?f" "can_read ?f" "pos ?f = 0" by (simp_all add: fs_file_def)
  have fd: "?fd < 8" "std_files (proc ?k1)" "dir_file ?fd ?k1 = ?f" "valid_fd ?fd (proc ?k1)" "p_terminal (proc ?k1) = p_terminal (proc k)"
    using opened_file [of k ?f] assms(1,2) f(1,2) by simp_all
  have "shows_output ?k1" using assms(3) fd(5) by (simp add: shows_output_def)
  then have "lists_dir ?fd buf (?k1, log)"
    using assms(7-9) fd(2,4) unfolding lists_dir_def Let_def fst_conv fd(3) by (simp add: f) blast
  then have "\<exists>s'. ls_loop (kernel_sys e l) ?fd buf (?k1, log) = Some (s', 0) \<and>
      snd s' = snd (?k1, log) @ concat (map (\<lambda>c. c @ [10]) (names_left ?fd (fst (?k1, log))))"
    by (rule dir_lister.ls_lists) simp_all
  moreover have "names_left ?fd ?k1 = entry_names (kfs k) (mem k)" unfolding names_left_def fd(3) by (simp add: f)
  ultimately obtain s' where "ls_loop (kernel_sys e l) ?fd buf (?k1, log) = Some (s', 0)"
    "snd s' = log @ concat (map (\<lambda>c. c @ [10]) (entry_names (kfs k) (mem k)))" unfolding fst_conv snd_conv by auto
  moreover have "sys_open (kernel_sys e l) (l ''.'') (k, log) = Some ((?k1, log), ?fd)" using sys_open_fd o fd(1) assms(2) by blast
  moreover have "lit (kernel_sys e l) = l" by (simp add: kernel_sys_def)
  ultimately show ?thesis using assms(2) by (cases s') (simp add: ls_def)
qed

text \<open>An image with two entries, the directory and a file, and the program's literal at 0x6000.\<close>

definition dot_image :: memory where
  "dot_image = tiny_image(0 := 2, 64 := 46, 96 := 1, 128 := 97, 160 := 2, 0x6000 := 46)"

lemma dot_entries:
  "get_num_dentries tiny_fs dot_image = 2" "entry_name tiny_fs dot_image 0 = [46]" "entry_name tiny_fs dot_image (Suc 0) = [97]"
  by (simp_all add: get_num_dentries_def get_master_entry_addr_def load32_def dot_image_def tiny_image_def entry_name_def chunk_def at_def
      dentry_addr_def sizeof_dentry_def upt_rec)

theorem ls_prints_names_witness:
  "\<exists>k'. ls (kernel_sys user_env (\<lambda>_. 0x6000)) 0x5000 (user_kernel dot_image, []) = Some ((k', [46, 10, 97, 10]), 0)"
proof -
  let ?k = "user_kernel dot_image" and ?d = "load_dentry dot_image 64"
  have "str (at dot_image 0x6000) [46]" by (simp add: str_def at_def dot_image_def tiny_image_def)
  moreover have "entry_of tiny_fs dot_image [46] = Some ?d" by (simp add: entry_of_def dot_entries upt_rec dentry_addr_def)
  moreover have "d_type ?d = DENTRY_DIRECTORY" by (simp add: load_dentry_def load32_def dot_image_def tiny_image_def DENTRY_DIRECTORY_def)
  moreover have "named tiny_fs dot_image"
    by (simp add: named_def dot_entries all_less_two str_def at_def dentry_addr_def sizeof_dentry_def) (simp add: dot_image_def tiny_image_def)
  moreover have low: "unat a < 192" if "a \<in> dir_area tiny_fs dot_image" for a
    using that by (auto simp: dir_area_def dot_entries less_two_set dentry_addr_def sizeof_dentry_def span_def unat_sub_if' word_le_nat_alt split: if_splits)
  moreover have buf: "unat a \<in> {0x5000..<0x5400}" if "a \<in> span 0x5000 33" for a
    using that by (auto simp: span_def unat_sub_if' word_le_nat_alt split: if_splits)
  moreover have "entry_names tiny_fs dot_image = [[46], [97]]" by (simp add: entry_names_def dot_entries upt_rec)
  moreover have "span 0x5000 33 \<inter> (dir_area tiny_fs dot_image \<union> display boot_tty) = {}" "dir_area tiny_fs dot_image \<inter> display boot_tty = {}"
    using low buf low_memory_hidden by fastforce+
  ultimately show ?thesis
    using ls_prints_names [of ?k "\<lambda>_. 0x6000" ?d "0x5000" user_env "[]"] user_kernel_process(1,2) [of dot_image] user_kernel_shows by simp
qed

end
