(* ===== verification/Fish.thy ===== *)
theory Fish
  imports Userlib
begin

text \<open>
  The program \<^verbatim>\<open>src/fish\<close>, an animation of two pictures: \<^verbatim>\<open>fish.c\<close> and the functions of \<^verbatim>\<open>blink.S\<close>.
  Every character that changes is a structure in \<open>blink_array\<close>; those in use are in a linked list that
  each tick of the clock walks. A pointer to a structure is its index. The characters go to the video page
  whose address the kernel stores in the variable at \<open>vm\<close>.
\<close>

section \<open>The structures\<close>

record blink =
  location :: u16
  on_char :: u8
  off_char :: u8
  on_length :: u16
  off_length :: u16
  countdown :: u16
  status :: u16
  bnext :: "nat option"

record 's fish =
  fsys :: 's
  blink_array :: "nat \<Rightarrow> blink"
  mp1_list_head :: "nat option"

definition blank_blink :: blink where
  "blank_blink = \<lparr>location = 0, on_char = 0, off_char = 0, on_length = 0, off_length = 0, countdown = 0, status = 0, bnext = None\<rparr>"

definition mp1_malloc :: "'s fish \<Rightarrow> nat option" where
  "mp1_malloc F = List.find (\<lambda>i. location (blink_array F i) = 0) [0..<2000]"

definition upd_blink :: "nat \<Rightarrow> blink \<Rightarrow> 's fish \<Rightarrow> 's fish" where
  "upd_blink i b F = F\<lparr>blink_array := (blink_array F)(i := b)\<rparr>"

definition mp1_free :: "nat \<Rightarrow> 's fish \<Rightarrow> 's fish" where
  "mp1_free i = upd_blink i blank_blink"

definition mp1_poke :: "'s sys \<Rightarrow> u32 \<Rightarrow> u16 \<Rightarrow> u8 \<Rightarrow> 's fish \<Rightarrow> 's fish" where
  "mp1_poke U vm loc c F = F\<lparr>fsys := poke U (load32 (user_mem U (fsys F)) vm + push_bit 1 (ucast loc)) c (fsys F)\<rparr>"

section \<open>A tick\<close>

definition blink_step :: "'s sys \<Rightarrow> u32 \<Rightarrow> nat \<Rightarrow> 's fish \<Rightarrow> 's fish" where
  "blink_step U vm i F =
     (let b = blink_array F i; n = countdown b - 1 in
      if 0 <s n then upd_blink i (b\<lparr>countdown := n\<rparr>) F
      else if bit (status b) 0
      then upd_blink i (b\<lparr>countdown := off_length b, status := status b XOR 1\<rparr>) (mp1_poke U vm (location b) (off_char b) F)
      else upd_blink i (b\<lparr>countdown := on_length b, status := status b XOR 1\<rparr>) (mp1_poke U vm (location b) (on_char b) F))"

partial_function (option) tasklet_loop :: "'s sys \<Rightarrow> u32 \<Rightarrow> nat option \<Rightarrow> 's fish \<Rightarrow> 's fish option" where
  "tasklet_loop U vm p F =
     (case p of None \<Rightarrow> Some F
      | Some i \<Rightarrow> let F1 = blink_step U vm i F in tasklet_loop U vm (bnext (blink_array F1 i)) F1)"

definition mp1_rtc_tasklet :: "'s sys \<Rightarrow> u32 \<Rightarrow> 's fish \<Rightarrow> 's fish option" where
  "mp1_rtc_tasklet U vm F = tasklet_loop U vm (mp1_list_head F) F"

section \<open>The commands\<close>

definition mp1_ioctl_add :: "'s sys \<Rightarrow> u32 \<Rightarrow> blink \<Rightarrow> 's fish \<Rightarrow> 's fish \<times> int" where
  "mp1_ioctl_add U vm arg F =
     (if 80 * 25 \<le> location arg then (F, - 1)
      else case mp1_malloc F of None \<Rightarrow> (F, - 1)
      | Some i \<Rightarrow>
          let b = arg\<lparr>status := 1, countdown := on_length arg, bnext := mp1_list_head F\<rparr> in
          (mp1_poke U vm (location b) (on_char b) ((upd_blink i b F)\<lparr>mp1_list_head := Some i\<rparr>), 0))"

partial_function (option) mp1_find_helper :: "(nat \<Rightarrow> blink) \<Rightarrow> u16 \<Rightarrow> nat option \<Rightarrow> nat option option" where
  "mp1_find_helper A loc p =
     (case p of None \<Rightarrow> Some None | Some i \<Rightarrow> if location (A i) = loc then Some p else mp1_find_helper A loc (bnext (A i)))"

text \<open>The cell that points at \<open>i\<close>: \<open>None\<close> for the head, otherwise the structure whose \<open>next\<close> it is.\<close>

definition cell :: "'s fish \<Rightarrow> nat option \<Rightarrow> nat option" where
  "cell F c = (case c of None \<Rightarrow> mp1_list_head F | Some j \<Rightarrow> bnext (blink_array F j))"

partial_function (option) find_prev :: "'s fish \<Rightarrow> nat \<Rightarrow> nat option \<Rightarrow> nat option option" where
  "find_prev F i c = (if cell F c = Some i then Some c else do { j \<leftarrow> cell F c; find_prev F i (Some j) })"

definition mp1_ioctl_remove :: "u16 \<Rightarrow> 's fish \<Rightarrow> ('s fish \<times> int) option" where
  "mp1_ioctl_remove loc F = do {
     found \<leftarrow> mp1_find_helper (blink_array F) loc (mp1_list_head F);
     (case found of None \<Rightarrow> Some (F, - 1)
      | Some i \<Rightarrow> do {
          c \<leftarrow> find_prev F i None;
          let n = bnext (blink_array F i);
          Some (mp1_free i (case c of None \<Rightarrow> F\<lparr>mp1_list_head := n\<rparr> | Some j \<Rightarrow> upd_blink j ((blink_array F j)\<lparr>bnext := n\<rparr>) F), 0)
        })
   }"

text \<open>The test before the conditional move clears the sign, so that the move never happens.\<close>

definition mp1_ioctl_sync :: "'s sys \<Rightarrow> u32 \<Rightarrow> u32 \<Rightarrow> 's fish \<Rightarrow> ('s fish \<times> int) option" where
  "mp1_ioctl_sync U vm arg F = do {
     src \<leftarrow> mp1_find_helper (blink_array F) (ucast (drop_bit 16 arg)) (mp1_list_head F);
     (case src of None \<Rightarrow> Some (F, - 1)
      | Some i \<Rightarrow> do {
          dst \<leftarrow> mp1_find_helper (blink_array F) (ucast (arg AND 0xFFFF)) (mp1_list_head F);
          (case dst of None \<Rightarrow> Some (F, - 1)
           | Some j \<Rightarrow>
               let a = blink_array F i;
                   b = (blink_array F j)\<lparr>on_length := on_length a, off_length := off_length a, countdown := countdown a, status := status a\<rparr> in
               Some (mp1_poke U vm (location b) (off_char b) (upd_blink j b F), 0))
        })
   }"

definition mp1_ioctl_find :: "u16 \<Rightarrow> 's fish \<Rightarrow> (blink option \<times> int) option" where
  "mp1_ioctl_find loc F = do {
     found \<leftarrow> mp1_find_helper (blink_array F) loc (mp1_list_head F);
     Some (case found of None \<Rightarrow> (None, - 1) | Some i \<Rightarrow> (Some (blink_array F i), 0))
   }"

section \<open>The program\<close>

definition next_char :: "'s sys \<Rightarrow> int \<Rightarrow> u32 \<Rightarrow> 's \<Rightarrow> bool \<Rightarrow> ('s \<times> bool) option" where
  "next_char U fd c s eof =
     (if user_mem U s c \<noteq> 10 then do {
        (s1, num_bytes) \<leftarrow> sys_read U fd c 1 s;
        Some (if num_bytes = 0 then (poke U c 10 s1, True) else (s1, eof))
      } else Some (s, eof))"

definition frame_blink :: "u8 \<Rightarrow> u8 \<Rightarrow> int \<Rightarrow> int \<Rightarrow> blink" where
  "frame_blink c0 c1 row col = blank_blink\<lparr>on_length := 15, off_length := 15, on_char := (if c0 = 10 then 32 else c0),
     off_char := (if c1 = 10 then 32 else c1), location := of_int (row * 80 + col + 40)\<rparr>"

partial_function (option) add_row ::
  "'s sys \<Rightarrow> u32 \<Rightarrow> int \<Rightarrow> int \<Rightarrow> u32 \<Rightarrow> u32 \<Rightarrow> int \<Rightarrow> int \<Rightarrow> bool \<Rightarrow> bool \<Rightarrow> 's fish \<Rightarrow> ('s fish \<times> bool \<times> bool) option" where
  "add_row U vm fd0 fd1 p0 p1 row col eof0 eof1 F = do {
     (s0, e0) \<leftarrow> next_char U fd0 p0 (fsys F) eof0;
     (s1, e1) \<leftarrow> next_char U fd1 p1 s0 eof1;
     let F1 = F\<lparr>fsys := s1\<rparr>;
     let c0 = user_mem U s1 p0;
     let c1 = user_mem U s1 p1;
     if c0 = 10 \<and> c1 = 10 then Some (F1, e0, e1)
     else add_row U vm fd0 fd1 p0 p1 row (col + 1) e0 e1
       (if c0 \<noteq> 32 \<and> c0 \<noteq> 10 \<or> c1 \<noteq> 32 \<and> c1 \<noteq> 10 then fst (mp1_ioctl_add U vm (frame_blink c0 c1 row col) F1) else F1)
   }"

definition end_row :: "'s sys \<Rightarrow> int \<Rightarrow> u32 \<Rightarrow> bool \<Rightarrow> 's \<Rightarrow> 's option" where
  "end_row U fd c eof s = (if eof then map_option fst (sys_close U fd (poke U c 10 s)) else Some (poke U c 48 s))"

partial_function (option) add_rows ::
  "'s sys \<Rightarrow> u32 \<Rightarrow> int \<Rightarrow> int \<Rightarrow> u32 \<Rightarrow> u32 \<Rightarrow> int \<Rightarrow> bool \<Rightarrow> bool \<Rightarrow> 's fish \<Rightarrow> 's fish option" where
  "add_rows U vm fd0 fd1 p0 p1 row eof0 eof1 F =
     (if eof0 \<and> eof1 then Some F
      else do {
        (F1, e0, e1) \<leftarrow> add_row U vm fd0 fd1 p0 p1 row 0 eof0 eof1 F;
        s1 \<leftarrow> end_row U fd0 p0 e0 (fsys F1);
        s2 \<leftarrow> end_row U fd1 p1 e1 s1;
        add_rows U vm fd0 fd1 p0 p1 (row + 1) e0 e1 (F1\<lparr>fsys := s2\<rparr>)
      })"

definition open_frame :: "'s sys \<Rightarrow> u32 \<Rightarrow> 's \<Rightarrow> ('s \<times> int) option" where
  "open_frame U f s = do {
     (s1, fd) \<leftarrow> sys_open U f s;
     if fd < 0 then do { (s2, _) \<leftarrow> sys_halt U 255 s1; Some (s2, fd) } else Some (s1, fd)
   }"

definition add_frames :: "'s sys \<Rightarrow> u32 \<Rightarrow> u32 \<Rightarrow> u32 \<Rightarrow> u32 \<Rightarrow> u32 \<Rightarrow> 's fish \<Rightarrow> 's fish option" where
  "add_frames U vm p0 p1 f0 f1 F = do {
     let s = poke U p1 48 (poke U p0 48 (fsys F));
     (s1, fd0) \<leftarrow> open_frame U f0 s;
     (s2, fd1) \<leftarrow> open_frame U f1 s1;
     add_rows U vm fd0 fd1 p0 p1 0 False False (F\<lparr>fsys := s2\<rparr>)
   }"

fun wait_ticks :: "'s sys \<Rightarrow> u32 \<Rightarrow> int \<Rightarrow> u32 \<Rightarrow> nat \<Rightarrow> 's fish \<Rightarrow> 's fish option" where
  "wait_ticks U vm rtc_fd garbage 0 F = Some F"
| "wait_ticks U vm rtc_fd garbage (Suc n) F = do {
     (s, _) \<leftarrow> sys_read U rtc_fd garbage 4 (fsys F);
     F1 \<leftarrow> mp1_rtc_tasklet U vm (F\<lparr>fsys := s\<rparr>);
     wait_ticks U vm rtc_fd garbage n F1
   }"

definition mp1_set_video_mode :: "'s sys \<Rightarrow> u32 \<Rightarrow> 's \<Rightarrow> ('s \<times> u32) option" where
  "mp1_set_video_mode U vm s = do {
     (s1, r) \<leftarrow> sys_vidmap U vm s;
     Some (s1, if r = - 1 then 0 else load32 (user_mem U s1) vm)
   }"

definition fish_main :: "'s sys \<Rightarrow> u32 \<Rightarrow> u32 \<Rightarrow> u32 \<Rightarrow> u32 \<Rightarrow> u32 \<Rightarrow> u32 \<Rightarrow> u32 \<Rightarrow> 's fish \<Rightarrow> ('s fish \<times> int) option" where
  "fish_main U vm p0 p1 f0 f1 ret_val garbage F = do {
     let F0 = F\<lparr>blink_array := (\<lambda>_. blank_blink)\<rparr>;
     (s1, v) \<leftarrow> mp1_set_video_mode U vm (fsys F0);
     if v = 0 then Some (F0\<lparr>fsys := s1\<rparr>, - 1)
     else do {
       (s2, rtc_fd) \<leftarrow> sys_open U (lit U ''rtc'') s1;
       F1 \<leftarrow> add_frames U vm p0 p1 f0 f1 (F0\<lparr>fsys := s2\<rparr>);
       (s3, r) \<leftarrow> sys_write U rtc_fd ret_val 4 (set_user_mem U (store32 (user_mem U (fsys F1)) ret_val 32) (fsys F1));
       let s4 = set_user_mem U (store32 (user_mem U s3) ret_val (of_int r)) s3;
       F2 \<leftarrow> wait_ticks U vm rtc_fd garbage 200 (F1\<lparr>fsys := s4\<rparr>);
       let b = blank_blink\<lparr>on_char := 73, off_char := 77, on_length := 7, off_length := 6, location := 6 * 80 + 60\<rparr>;
       F3 \<leftarrow> wait_ticks U vm rtc_fd garbage 200 (fst (mp1_ioctl_add U vm b F2));
       (F4, _) \<leftarrow> mp1_ioctl_sync U vm (push_bit 16 40 OR (6 * 80 + 60)) F3;
       F5 \<leftarrow> wait_ticks U vm rtc_fd garbage 200 F4;
       (F6, _) \<leftarrow> mp1_ioctl_remove 200 F5;
       F7 \<leftarrow> wait_ticks U vm rtc_fd garbage 2000 F6;
       (s5, _) \<leftarrow> sys_close U rtc_fd (fsys F7);
       Some (F7\<lparr>fsys := s5\<rparr>, 0)
     }
   }"

declare tasklet_loop.simps [simp del] mp1_find_helper.simps [simp del] find_prev.simps [simp del] add_row.simps [simp del] add_rows.simps [simp del]

section \<open>The list of structures in use\<close>

fun chain :: "(nat \<Rightarrow> blink) \<Rightarrow> nat option \<Rightarrow> nat list \<Rightarrow> bool" where
  "chain A p [] = (p = None)"
| "chain A p (i # is) = (p = Some i \<and> chain A (bnext (A i)) is)"

text \<open>The list holds, once each, exactly the structures with a location.\<close>

definition blinks :: "'s fish \<Rightarrow> nat list \<Rightarrow> bool" where
  "blinks F is \<longleftrightarrow> chain (blink_array F) (mp1_list_head F) is \<and> distinct is \<and> set is = {i. i < 2000 \<and> location (blink_array F i) \<noteq> 0}"

text \<open>The list without its links.\<close>

definition view :: "'s fish \<Rightarrow> nat list \<Rightarrow> blink list" where
  "view F is = map (\<lambda>i. (blink_array F i)\<lparr>bnext := None\<rparr>) is"

definition tick :: "blink \<Rightarrow> blink" where
  "tick b = (let n = countdown b - 1 in
     if 0 <s n then b\<lparr>countdown := n\<rparr>
     else b\<lparr>countdown := (if bit (status b) 0 then off_length b else on_length b), status := status b XOR 1\<rparr>)"

lemma fish_simps [simp]:
  "blink_array (upd_blink i b F) = (blink_array F)(i := b)" "mp1_list_head (upd_blink i b F) = mp1_list_head F"
  "blink_array (mp1_poke U vm l c F) = blink_array F" "mp1_list_head (mp1_poke U vm l c F) = mp1_list_head F"
  by (simp_all add: upd_blink_def mp1_poke_def)

lemma tick_keeps [simp]: "location (tick b) = location b" "bnext (tick b) = bnext b" "(tick b)\<lparr>bnext := x\<rparr> = tick (b\<lparr>bnext := x\<rparr>)"
  by (simp_all add: tick_def Let_def)

lemma blink_step_array: "blink_array (blink_step U vm i F) = (blink_array F)(i := tick (blink_array F i))"
  "mp1_list_head (blink_step U vm i F) = mp1_list_head F"
  by (simp_all add: blink_step_def tick_def Let_def)

lemma chain_cong: "(\<And>i. i \<in> set is \<Longrightarrow> bnext (A' i) = bnext (A i)) \<Longrightarrow> chain A' p is = chain A p is"
  by (induction "is" arbitrary: p) auto

lemma chain_upd [simp]: "i \<notin> set is \<Longrightarrow> chain (A(i := b)) p is = chain A p is"
  by (rule chain_cong) auto

lemma tasklet_loop_chain:
  assumes "chain (blink_array F) p is" "distinct is"
  shows "\<exists>F'. tasklet_loop U vm p F = Some F' \<and> mp1_list_head F' = mp1_list_head F \<and>
    blink_array F' = (\<lambda>i. if i \<in> set is then tick (blink_array F i) else blink_array F i)"
  using assms
proof (induction "is" arbitrary: p F)
  case Nil
  then show ?case by (simp add: tasklet_loop.simps)
next
  case (Cons i js)
  let ?F = "blink_step U vm i F"
  have p: "p = Some i" "chain (blink_array F) (bnext (blink_array F i)) js" "i \<notin> set js" "distinct js" using Cons.prems by simp_all
  have "chain (blink_array ?F) (bnext (blink_array F i)) js" using p(2) chain_cong [of js "blink_array ?F" "blink_array F"] by (simp add: blink_step_array)
  from Cons.IH [OF this p(4)] obtain F' where F': "tasklet_loop U vm (bnext (blink_array F i)) ?F = Some F'" "mp1_list_head F' = mp1_list_head F"
    "blink_array F' = (\<lambda>j. if j \<in> set js then tick (blink_array ?F j) else blink_array ?F j)" by (auto simp: blink_step_array(2))
  have "blink_array F' = (\<lambda>j. if j \<in> set (i # js) then tick (blink_array F j) else blink_array F j)"
    using p(3) unfolding F'(3) blink_step_array by (auto simp: fun_eq_iff)
  then show ?case using F'(1,2) p(1) by (subst tasklet_loop.simps) (simp add: Let_def blink_step_array)
qed

lemma malloc_free:
  assumes "blinks F is" shows "mp1_malloc F = None \<longleftrightarrow> length is = 2000"
    "mp1_malloc F = Some i \<Longrightarrow> i < 2000 \<and> i \<notin> set is"
proof -
  have s: "set is = {i. i < 2000 \<and> location (blink_array F i) \<noteq> 0}" "distinct is" using assms by (simp_all add: blinks_def)
  have "mp1_malloc F = None \<longleftrightarrow> set is = {..<2000}" unfolding s(1) by (auto simp: mp1_malloc_def find_None_iff)
  also have "\<dots> \<longleftrightarrow> length is = 2000"
  proof
    assume "set is = {..<2000}"
    then show "length is = 2000" using distinct_card [OF s(2)] by simp
  next
    assume "length is = 2000"
    then have "card (set is) = card {..<2000 :: nat}" using distinct_card [OF s(2)] by simp
    moreover have "set is \<subseteq> {..<2000}" unfolding s(1) by auto
    ultimately show "set is = {..<2000}" by (intro card_subset_eq) simp_all
  qed
  finally show "mp1_malloc F = None \<longleftrightarrow> length is = 2000" .
  show "mp1_malloc F = Some i \<Longrightarrow> i < 2000 \<and> i \<notin> set is" unfolding s(1) by (auto simp: mp1_malloc_def find_Some_iff)
qed

lemma find_helper_chain:
  "chain A p is \<Longrightarrow> mp1_find_helper A loc p = Some (List.find (\<lambda>i. location (A i) = loc) is)"
  by (induction "is" arbitrary: p) (subst mp1_find_helper.simps, simp)+

lemma find_prev_chain:
  assumes "chain (blink_array F) (cell F c) (pre @ i # post)" "i \<notin> set pre"
  shows "find_prev F i c = Some (if pre = [] then c else Some (last pre))"
  using assms
proof (induction pre arbitrary: c)
  case Nil
  then show ?case by (subst find_prev.simps) simp
next
  case (Cons j js)
  then have c: "cell F c = Some j" "chain (blink_array F) (cell F (Some j)) (js @ i # post)" "j \<noteq> i" "i \<notin> set js" by (auto simp: cell_def)
  then show ?case using Cons.IH [OF c(2,4)] by (subst find_prev.simps) simp
qed

lemma chain_unlink:
  assumes "chain A p (pre @ i # post)" "distinct (pre @ i # post)" "pre \<noteq> []" "bnext (A' (last pre)) = bnext (A i)"
    "\<And>j. j \<in> set pre \<union> set post \<Longrightarrow> j \<noteq> last pre \<Longrightarrow> bnext (A' j) = bnext (A j)"
  shows "chain A' p (pre @ post)"
  using assms
proof (induction pre arbitrary: p)
  case (Cons j js)
  show ?case
  proof (cases "js = []")
    case True
    have "chain A' (bnext (A i)) post = chain A (bnext (A i)) post" using Cons.prems(2,5) True by (intro chain_cong) auto
    then show ?thesis using Cons.prems(1,4) True by simp
  next
    case False
    then have "chain A' (bnext (A j)) (js @ post)" using Cons.prems by (intro Cons.IH) auto
    moreover have "bnext (A' j) = bnext (A j)" using Cons.prems(2,5) False by (metis Un_iff distinct.simps(2) append_Cons last_ConsR last_in_set list.set_intros(1) set_append)
    ultimately show ?thesis using Cons.prems(1) by simp
  qed
qed simp

section \<open>What the commands do to the list\<close>

definition add_blink :: "blink \<Rightarrow> blink list \<Rightarrow> blink list \<times> int" where
  "add_blink b bs = (if 2000 \<le> location b \<or> length bs = 2000 then (bs, - 1) else (b\<lparr>status := 1, countdown := on_length b, bnext := None\<rparr> # bs, 0))"

definition remove_blink :: "u16 \<Rightarrow> blink list \<Rightarrow> blink list \<times> int" where
  "remove_blink loc bs = (let k = takeWhile (\<lambda>b. location b \<noteq> loc) bs; r = dropWhile (\<lambda>b. location b \<noteq> loc) bs in
     case r of [] \<Rightarrow> (bs, - 1) | b # r' \<Rightarrow> (k @ r', 0))"

lemma view_upd [simp]: "i \<notin> set is \<Longrightarrow> view (upd_blink i b F) is = view F is"
  by (simp add: view_def)

lemma add_refines:
  assumes "blinks F is" "location b \<noteq> 0"
  shows "\<exists>is'. blinks (fst (mp1_ioctl_add U vm b F)) is' \<and> (view (fst (mp1_ioctl_add U vm b F)) is', snd (mp1_ioctl_add U vm b F)) = add_blink b (view F is)"
proof (cases "2000 \<le> location b \<or> mp1_malloc F = None")
  case True
  then show ?thesis using assms malloc_free(1) [OF assms(1)] by (auto simp: mp1_ioctl_add_def add_blink_def view_def)
next
  case False
  then obtain i where i: "mp1_malloc F = Some i" "\<not> 2000 \<le> location b" by auto
  note m = malloc_free [OF assms(1)]
  let ?b = "b\<lparr>status := 1, countdown := on_length b, bnext := mp1_list_head F\<rparr>"
  let ?F = "mp1_poke U vm (location ?b) (on_char ?b) ((upd_blink i ?b F)\<lparr>mp1_list_head := Some i\<rparr>)"
  have e: "mp1_ioctl_add U vm b F = (?F, 0)" using i by (simp add: mp1_ioctl_add_def Let_def)
  have B: "chain (blink_array F) (mp1_list_head F) is" "distinct is" "set is = {i. i < 2000 \<and> location (blink_array F i) \<noteq> 0}"
    using assms(1) by (simp_all add: blinks_def)
  have n: "i \<notin> set is" "i < 2000" using m(2) [OF i(1)] by simp_all
  have A: "blink_array ?F = (blink_array F)(i := ?b)" by simp
  have "chain (blink_array ?F) (mp1_list_head F) is" unfolding A using B(1) n(1) by simp
  moreover have "set (i # is) = {i. i < 2000 \<and> location (blink_array ?F i) \<noteq> 0}" unfolding A using B(3) n(2) assms(2) by auto
  ultimately have "blinks ?F (i # is)" using B(2) n(1) by (simp add: blinks_def del: list.set)
  moreover have "view ?F (i # is) = b\<lparr>status := 1, countdown := on_length b, bnext := None\<rparr> # view F is"
    using n(1) unfolding view_def A by simp
  moreover have "length (view F is) \<noteq> 2000" using m(1) i(1) by (simp add: view_def)
  ultimately show ?thesis unfolding e using i(2) by (auto simp: add_blink_def)
qed

lemma tasklet_refines:
  assumes "blinks F is"
  shows "\<exists>F'. mp1_rtc_tasklet U vm F = Some F' \<and> blinks F' is \<and> view F' is = map tick (view F is)"
proof -
  have B: "chain (blink_array F) (mp1_list_head F) is" "distinct is" "set is = {i. i < 2000 \<and> location (blink_array F i) \<noteq> 0}"
    using assms by (simp_all add: blinks_def)
  obtain F' where F': "mp1_rtc_tasklet U vm F = Some F'" "mp1_list_head F' = mp1_list_head F"
    "blink_array F' = (\<lambda>i. if i \<in> set is then tick (blink_array F i) else blink_array F i)"
    using tasklet_loop_chain [OF B(1,2)] by (auto simp: mp1_rtc_tasklet_def)
  have "chain (blink_array F') (mp1_list_head F') is" using B(1) F'(2) chain_cong [of "is" "blink_array F'" "blink_array F"] by (simp add: F'(3))
  moreover have "location (blink_array F' i) = location (blink_array F i)" for i by (simp add: F'(3))
  ultimately have "blinks F' is" using B(2,3) by (simp add: blinks_def)
  moreover have "view F' is = map tick (view F is)" by (simp add: view_def F'(3))
  ultimately show ?thesis using F'(1) by blast
qed

lemma remove_refines:
  assumes "blinks F is"
  shows "\<exists>F' is' r. mp1_ioctl_remove loc F = Some (F', r) \<and> blinks F' is' \<and> (view F' is', r) = remove_blink loc (view F is)"
proof -
  have B: "chain (blink_array F) (mp1_list_head F) is" "distinct is" "set is = {i. i < 2000 \<and> location (blink_array F i) \<noteq> 0}"
    using assms by (simp_all add: blinks_def)
  let ?A = "blink_array F"
  note f = find_helper_chain [OF B(1), of loc]
  show ?thesis
  proof (cases "List.find (\<lambda>i. location (?A i) = loc) is")
    case None
    then have "dropWhile (\<lambda>i. location (?A i) \<noteq> loc) is = []" by (auto simp: find_None_iff)
    then have "remove_blink loc (view F is) = (view F is, - 1)" by (simp add: remove_blink_def view_def dropWhile_map o_def Let_def del: dropWhile_eq_Nil_conv)
    then show ?thesis using f None assms by (auto simp: mp1_ioctl_remove_def)
  next
    case (Some i)
    obtain pre post where sp: "is = pre @ i # post" "location (?A i) = loc" "\<forall>j \<in> set pre. location (?A j) \<noteq> loc" by (rule find_split [OF Some])
    let ?G = "if pre = [] then F\<lparr>mp1_list_head := bnext (?A i)\<rparr> else upd_blink (last pre) ((?A (last pre))\<lparr>bnext := bnext (?A i)\<rparr>) F"
    let ?F = "mp1_free i ?G"
    have i: "i \<notin> set pre" "i \<notin> set post" "distinct pre" "distinct post" "set pre \<inter> set post = {}" using B(2) sp(1) by auto
    have "find_prev F i None = Some (if pre = [] then None else Some (last pre))"
      using find_prev_chain [of F None pre i post] B(1) sp(1) i(1) by (simp add: cell_def)
    then have e: "mp1_ioctl_remove loc F = Some (?F, 0)" using f Some by (simp add: mp1_ioctl_remove_def)
    have A: "j \<noteq> i \<Longrightarrow> location (blink_array ?F j) = location (?A j)" "(blink_array ?F j)\<lparr>bnext := None\<rparr> = (if j = i then blank_blink else (?A j)\<lparr>bnext := None\<rparr>)"
      "j \<noteq> i \<Longrightarrow> j \<noteq> last pre \<or> pre = [] \<Longrightarrow> blink_array ?F j = ?A j" for j by (auto simp: mp1_free_def blank_blink_def)
    have "chain (blink_array ?F) (mp1_list_head ?F) (pre @ post)"
    proof (cases "pre = []")
      case True
      then show ?thesis using B(1) sp(1) i(2) by (simp add: mp1_free_def)
    next
      case False
      then have l: "last pre \<noteq> i" using i(1) last_in_set by metis
      have "chain (blink_array ?F) (mp1_list_head F) (pre @ post)"
        using B(1,2) sp(1) False l i A(3) by (intro chain_unlink [of ?A _ pre i post]) (auto simp: mp1_free_def)
      then show ?thesis using False by (simp add: mp1_free_def)
    qed
    moreover have "set (pre @ post) = {j. j < 2000 \<and> location (blink_array ?F j) \<noteq> 0}"
    proof -
      have "location (blink_array ?F j) = (if j = i then 0 else location (?A j))" for j by (simp add: mp1_free_def blank_blink_def)
      then show ?thesis using B(3) sp(1) i(1,2) by (auto split: if_splits)
    qed
    ultimately have "blinks ?F (pre @ post)" using i(3-5) by (simp add: blinks_def)
    moreover have "view ?F (pre @ post) = view F (pre @ post)" using A(2) i(1,2) by (auto simp: view_def)
    moreover have "remove_blink loc (view F is) = (view F (pre @ post), 0)"
      using sp by (simp add: remove_blink_def view_def Let_def takeWhile_append dropWhile_append)
    ultimately show ?thesis using e by metis
  qed
qed

lemma blinks_upd:
  assumes "blinks F is" "location b = location (blink_array F i)" "bnext b = bnext (blink_array F i)"
  shows "blinks (upd_blink i b F) is"
proof -
  have "chain ((blink_array F)(i := b)) (mp1_list_head F) is = chain (blink_array F) (mp1_list_head F) is" using assms(3) by (intro chain_cong) auto
  moreover have "location (((blink_array F)(i := b)) j) = location (blink_array F j)" for j using assms(2) by simp
  ultimately show ?thesis using assms(1) unfolding blinks_def by (simp del: fun_upd_apply)
qed

lemma blinks_poke [simp]: "blinks (mp1_poke U vm l c F) is = blinks F is" "blinks (F\<lparr>fsys := s\<rparr>) is = blinks F is"
  by (simp_all add: blinks_def)

lemma sync_keeps:
  assumes "blinks F is" shows "\<exists>F' r. mp1_ioctl_sync U vm arg F = Some (F', r) \<and> blinks F' is"
proof -
  have "chain (blink_array F) (mp1_list_head F) is" using assms by (simp add: blinks_def)
  from find_helper_chain [OF this] show ?thesis
    using assms blinks_upd [OF assms]
    by (auto simp: mp1_ioctl_sync_def Let_def split: option.splits)
qed

text \<open>The calls of the animation in any order, with whatever the rest of the program does in between.\<close>

inductive fish_step :: "'s sys \<Rightarrow> u32 \<Rightarrow> 's fish \<Rightarrow> 's fish \<Rightarrow> bool" for U vm where
  Add: "location b \<noteq> 0 \<Longrightarrow> mp1_ioctl_add U vm b F = (F', r) \<Longrightarrow> fish_step U vm F F'"
| Remove: "mp1_ioctl_remove loc F = Some (F', r) \<Longrightarrow> fish_step U vm F F'"
| Sync: "mp1_ioctl_sync U vm arg F = Some (F', r) \<Longrightarrow> fish_step U vm F F'"
| Tick: "mp1_rtc_tasklet U vm F = Some F' \<Longrightarrow> fish_step U vm F F'"
| Other: "fish_step U vm F (F\<lparr>fsys := s\<rparr>)"

lemma fish_step_blinks: "fish_step U vm F F' \<Longrightarrow> blinks F is \<Longrightarrow> \<exists>is'. blinks F' is'"
proof (induction rule: fish_step.induct)
  case (Add b F F' r)
  then show ?case using add_refines [of F "is" b U vm] by auto
next
  case (Remove loc F F' r)
  then show ?case using remove_refines [of F "is" loc] by auto
next
  case (Sync arg F F' r)
  then show ?case using sync_keeps [of F "is" U vm arg] by auto
next
  case (Tick F F')
  then show ?case using tasklet_refines [of F "is" U vm] by auto
qed auto

definition start_fish :: "'s \<Rightarrow> 's fish" where
  "start_fish s = \<lparr>fsys = s, blink_array = (\<lambda>_. blank_blink), mp1_list_head = None\<rparr>"

lemma start_blinks: "blinks (start_fish s) []"
  by (simp add: blinks_def start_fish_def blank_blink_def)

section \<open>Properties\<close>

text \<open>
  C31. The animation never hangs: after any sequence of commands and ticks from the start, in which
  nothing is added at location 0, there is a list of blinking characters with no structure twice that
  the array and the links represent, and on it the code refines simple operations on lists: adding puts the
  character in front, or fails when the location is off the screen or all 2000 structures are in use; removing takes out
  the first one at the location, or fails when there is none; a tick always returns and counts every character down,
  switching those that have reached 0.
\<close>

theorem fish_list_refines:
  assumes "(fish_step U vm)\<^sup>*\<^sup>* (start_fish s) F"
  shows "\<exists>is. blinks F is \<and>
    (\<forall>b. location b \<noteq> 0 \<longrightarrow> (\<exists>F' is' r. mp1_ioctl_add U vm b F = (F', r) \<and> blinks F' is' \<and> (view F' is', r) = add_blink b (view F is))) \<and>
    (\<forall>loc. \<exists>F' is' r. mp1_ioctl_remove loc F = Some (F', r) \<and> blinks F' is' \<and> (view F' is', r) = remove_blink loc (view F is)) \<and>
    (\<exists>F'. mp1_rtc_tasklet U vm F = Some F' \<and> blinks F' is \<and> view F' is = map tick (view F is))"
proof -
  have "\<exists>is. blinks F is" using assms
  proof (induction rule: rtranclp_induct)
    case base
    show ?case by (rule exI, rule start_blinks)
  next
    case (step F F')
    then show ?case using fish_step_blinks [OF step.hyps(2)] by blast
  qed
  then obtain "is" where B: "blinks F is" by blast
  have "\<exists>F' is' r. mp1_ioctl_add U vm b F = (F', r) \<and> blinks F' is' \<and> (view F' is', r) = add_blink b (view F is)" if "location b \<noteq> 0" for b
    using add_refines [OF B that, of U vm] by (cases "mp1_ioctl_add U vm b F") simp
  then show ?thesis using B remove_refines [OF B] tasklet_refines [OF B, of U vm] by (intro exI [of _ "is"]) blast
qed

definition plain_sys :: "memory sys" where
  "plain_sys = \<lparr>user_mem = (\<lambda>m. m), set_user_mem = (\<lambda>m _. m), lit = (\<lambda>_. 0), sys_execute = (\<lambda>_ _. None), sys_read = (\<lambda>_ _ _ _. None),
     sys_write = (\<lambda>_ _ _ _. None), sys_open = (\<lambda>_ _. None), sys_close = (\<lambda>_ _. None), sys_getargs = (\<lambda>_ _ _. None),
     sys_soundctrl = (\<lambda>_ _ _. None), sys_vidmap = (\<lambda>_ _. None), sys_halt = (\<lambda>_ _. None), sys_shutdown = (\<lambda>_. None)\<rparr>"

theorem fish_list_refines_witness:
  "\<exists>is F'. mp1_rtc_tasklet plain_sys 0x100 (fst (mp1_ioctl_add plain_sys 0x100 (frame_blink 65 66 0 0) (start_fish (\<lambda>_. 0)))) = Some F' \<and> blinks F' is"
proof -
  let ?b = "frame_blink 65 66 0 0" and ?F = "start_fish (\<lambda>_. 0)"
  have "location ?b \<noteq> 0" by (simp add: frame_blink_def)
  then have "fish_step plain_sys 0x100 ?F (fst (mp1_ioctl_add plain_sys 0x100 ?b ?F))" using prod.collapse by (metis Add)
  from fish_list_refines [OF r_into_rtranclp [of "fish_step plain_sys 0x100", OF this]] show ?thesis by blast
qed

text \<open>
  Location 0 marks a free structure, so a character added in the corner of the screen does not keep its
  structure: the next one is given the same, its link points to itself, and the next tick never returns.
\<close>

lemma tasklet_cycle:
  assumes "bnext (blink_array F i) = Some i" shows "tasklet_loop U vm (Some i) F = None"
proof (cases "tasklet_loop U vm (Some i) F")
  case (Some y)
  have "\<not> (Some i = Some i \<and> bnext (blink_array F i) = Some i)"
  proof (rule tasklet_loop.raw_induct [of "\<lambda>U vm p F F'. \<not> (p = Some i \<and> bnext (blink_array F i) = Some i)", OF _ Some])
    fix loop :: "'a sys \<Rightarrow> u32 \<Rightarrow> nat option \<Rightarrow> 'a fish \<Rightarrow> 'a fish option" and U vm p F F'
    assume IH: "\<And>U vm p F F'. loop U vm p F = Some F' \<Longrightarrow> \<not> (p = Some i \<and> bnext (blink_array F i) = Some i)"
      and b: "(case p of None \<Rightarrow> Some F | Some i \<Rightarrow> let F1 = blink_step U vm i F in loop U vm (bnext (blink_array F1 i)) F1) = Some F'"
    show "\<not> (p = Some i \<and> bnext (blink_array F i) = Some i)"
    proof
      assume c: "p = Some i \<and> bnext (blink_array F i) = Some i"
      then have "loop U vm (Some i) (blink_step U vm i F) = Some F'" using b by (simp add: Let_def blink_step_array)
      from IH [OF this] show False using c by (simp add: blink_step_array)
    qed
  qed
  then show ?thesis using assms by simp
qed

theorem location_zero_hangs:
  assumes "location b = 0" "location b' < 2000"
  shows "mp1_rtc_tasklet U vm (fst (mp1_ioctl_add U vm b' (fst (mp1_ioctl_add U vm b (start_fish s))))) = None"
proof -
  let ?F1 = "fst (mp1_ioctl_add U vm b (start_fish s))"
  have m: "mp1_malloc F = Some 0" if "location (blink_array F 0) = 0" for F :: "'a fish"
    using that by (simp add: mp1_malloc_def upt_rec [of 0])
  have 1: "mp1_list_head ?F1 = Some 0" "location (blink_array ?F1 0) = 0"
    using assms(1) m [of "start_fish s"] by (simp_all add: mp1_ioctl_add_def start_fish_def blank_blink_def Let_def)
  let ?F2 = "fst (mp1_ioctl_add U vm b' ?F1)"
  have nle: "\<not> 2000 \<le> location b'" using assms(2) leD by blast
  have "mp1_list_head ?F2 = Some 0" "bnext (blink_array ?F2 0) = Some 0"
    using nle m [OF 1(2)] 1(1) by (simp_all add: mp1_ioctl_add_def [of U vm b'] Let_def)
  then show ?thesis using tasklet_cycle [of ?F2 0 U vm] by (simp add: mp1_rtc_tasklet_def)
qed

end
