(* ===== verification/Efs.thy ===== *)
theory Efs
  imports Filesystem
begin

text \<open>
  The writable file system of \<^verbatim>\<open>efs.c\<close>, which the kernel does not use yet. Its blocks lie at
  \<open>efs_blocks\<close>, 1024 bytes each; block 0 holds the count of blocks and the map of used blocks.
  A directory block begins with a header of 60 bytes, four fewer than in the read-only file system, and
  its entries of 64 bytes follow; the lookup is shown to be the same but for that; reading and writing data always fails, because the number of data blocks is a stub.
\<close>

section \<open>Blocks\<close>

definition DENTRY_DIRECTORY :: u32 where "DENTRY_DIRECTORY = 1"

text \<open>The size of \<^verbatim>\<open>master_entry_t\<close>: three words and 48 reserved bytes.\<close>

definition sizeof_efs_master_entry :: u32 where "sizeof_efs_master_entry = 60"

definition efs_dentry_addr :: "u32 \<Rightarrow> u32 \<Rightarrow> u32" where
  "efs_dentry_addr dentry_block index = dentry_block + sizeof_efs_master_entry + index * sizeof_dentry"

definition block_addr :: "u32 \<Rightarrow> u32 \<Rightarrow> u32" where
  "block_addr efs_blocks i = efs_blocks + i * 1024"

definition block_map :: "u32 \<Rightarrow> nat \<Rightarrow> u32" where
  "block_map efs_blocks i = efs_blocks + 4 + of_nat i"

definition efs_set_start :: "u32 \<Rightarrow> u32" where
  "efs_set_start address = address"

definition efs_num_data_blocks :: u32 where
  "efs_num_data_blocks = 0"

definition efs_get_root_dentry_block :: "u32 \<Rightarrow> u32" where
  "efs_get_root_dentry_block efs_blocks = block_addr efs_blocks 1"

text \<open>The first unused block from 1 on. When there is none the index is 4092, which the test lets through.\<close>

definition efs_get_new_block :: "u32 \<Rightarrow> memory \<Rightarrow> memory \<times> u32" where
  "efs_get_new_block efs_blocks m =
     (let i = (case List.find (\<lambda>i. m (block_map efs_blocks i) = 0) [1..<4092] of Some i \<Rightarrow> i | None \<Rightarrow> 4092)
      in if i > 4092 then (m, - 1)
         else let m1 = m(block_map efs_blocks i := 1)
              in (store32 m1 efs_blocks (load32 m1 efs_blocks + 1), of_nat i))"

text \<open>\<^verbatim>\<open>strcpy\<close> from a string constant of the program.\<close>

definition copy_literal :: "u32 \<Rightarrow> u8 list \<Rightarrow> memory \<Rightarrow> memory" where
  "copy_literal dest bs m = store_bytes m dest (bs @ [0])"

definition put_dentry :: "u32 \<Rightarrow> u8 list \<Rightarrow> u32 \<Rightarrow> memory \<Rightarrow> memory" where
  "put_dentry d name block_index m =
     store32 (store32 (copy_literal d name m) (d + 32) DENTRY_DIRECTORY) (d + 36) block_index"

definition efs_mkdir :: "u32 \<Rightarrow> u32 \<Rightarrow> memory \<Rightarrow> memory \<times> u32" where
  "efs_mkdir efs_blocks parent_index m =
     (let (m1, dentry_block_index) = efs_get_new_block efs_blocks m;
          dentry_block = block_addr efs_blocks dentry_block_index;
          m2 = store32 (store32 (store32 m1 dentry_block 2) (dentry_block + 4) 0) (dentry_block + 8) 0;
          m3 = put_dentry (efs_dentry_addr dentry_block 0) [46] dentry_block_index m2;
          m4 = put_dentry (efs_dentry_addr dentry_block 1) [46, 46] parent_index m3
      in (m4, 0))"

definition efs_new :: "u32 \<Rightarrow> memory \<Rightarrow> memory" where
  "efs_new efs_blocks m =
     (let m1 = fold (\<lambda>i m. m(block_map efs_blocks i := 0)) [1..<4092] (m(block_map efs_blocks 0 := 1));
          m2 = store32 m1 efs_blocks 1
      in fst (efs_mkdir efs_blocks 1 m2))"

section \<open>Directory entries\<close>

definition efs_read_dentry_by_index :: "u32 \<Rightarrow> memory \<Rightarrow> u32 \<Rightarrow> u32 \<times> dentry option" where
  "efs_read_dentry_by_index dentry_block m index =
     (if load32 m dentry_block \<le> index then (- 1, None)
      else (0, Some (load_dentry m (efs_dentry_addr dentry_block index))))"

text \<open>The result of the inner call is kept in an unsigned variable, so the test for a negative one never succeeds.\<close>

function efs_find_dentry :: "u32 \<Rightarrow> memory \<Rightarrow> reader \<Rightarrow> dentry option \<Rightarrow> u32 \<Rightarrow> u32 \<times> dentry option" where
  "efs_find_dentry dentry_block m fname tmp i =
     (if i < load32 m dentry_block then
        (let (bucket, r) = efs_read_dentry_by_index dentry_block m i;
             tmp1 = (case r of Some d \<Rightarrow> Some d | None \<Rightarrow> tmp) in
         if bucket < 0 then (- 1, None)
         else (case tmp1 of
             Some d \<Rightarrow> if strncmp fname (name_reader d) NAME_MAX = 0 then (0, Some d) else efs_find_dentry dentry_block m fname tmp1 (i + 1)
           | None \<Rightarrow> efs_find_dentry dentry_block m fname tmp1 (i + 1)))
      else (- 1, None))"
  by pat_completeness auto
termination
  by (relation "measure (\<lambda>(b, m, s, t, i). unat (load32 m b) - unat i)") (auto simp: count_up_less)

declare efs_find_dentry.simps [simp del]

definition efs_read_dentry_by_name :: "u32 \<Rightarrow> memory \<Rightarrow> reader \<Rightarrow> (u32 \<times> dentry option) option" where
  "efs_read_dentry_by_name dentry_block m fname = do {
     bucket \<leftarrow> strlen fname;
     if bucket < 1 \<or> bucket > NAME_MAX then Some (- 1, None)
     else Some (efs_find_dentry dentry_block m fname None 0)
   }"

section \<open>Data\<close>

definition efs_byte_ptr :: "u32 \<Rightarrow> memory \<Rightarrow> u32 \<Rightarrow> u32 \<Rightarrow> u32" where
  "efs_byte_ptr efs_blocks m inode offset = block_addr efs_blocks (block_number m inode (offset div 4096)) + offset mod 4096"

function efs_copy_loop :: "u32 \<Rightarrow> u32 \<Rightarrow> u32 \<Rightarrow> u32 \<Rightarrow> u32 \<Rightarrow> u32 \<Rightarrow> memory \<Rightarrow> memory \<times> u32" where
  "efs_copy_loop efs_blocks inode offset buf len copied m =
     (if 0 <s len then
        (if efs_num_data_blocks \<le> block_number m inode (offset div 4096) then (m, - 1)
         else
           let n = chunk_size offset len;
               m1 = memcpy m buf (efs_byte_ptr efs_blocks m inode offset) n
           in efs_copy_loop efs_blocks inode (offset + n) (buf + n) (len - n) (copied + n) m1)
      else (m, copied))"
  by pat_completeness auto
termination
  by (relation "measure (\<lambda>(b, inode, offset, buf, len, copied, m). unat len)") (auto simp: chunk_size_decreases)

declare efs_copy_loop.simps [simp del]

definition efs_read_data :: "u32 \<Rightarrow> u32 \<Rightarrow> u32 \<Rightarrow> u32 \<Rightarrow> u32 \<Rightarrow> memory \<Rightarrow> memory \<times> u32" where
  "efs_read_data efs_blocks inode offset buf len m =
     (let file_length = load32 m inode in
      if file_length div 4096 > 1023 then (m, - 1)
      else if offset > file_length then (m, 0)
      else
        let len1 = (if len > file_length - offset then file_length - offset else len)
        in efs_copy_loop efs_blocks inode offset buf len1 0 m)"

text \<open>The code for writing copies from the block to the buffer, as reading does.\<close>

definition efs_write_data :: "u32 \<Rightarrow> u32 \<Rightarrow> u32 \<Rightarrow> u32 \<Rightarrow> u32 \<Rightarrow> memory \<Rightarrow> memory \<times> u32" where
  "efs_write_data efs_blocks inode offset buf len m =
     (let file_length = load32 m inode in
      if file_length div 4096 > 1023 then (m, - 1)
      else if offset > file_length then (m, 0)
      else
        let len1 = (if len > file_length - offset then file_length - offset else len)
        in efs_copy_loop efs_blocks inode offset buf len1 0 m)"

section \<open>Lookup as in the read-only file system\<close>

text \<open>A directory block as the boot block of a read-only file system whose entries begin at byte 60.\<close>

definition as_fs :: "u32 \<Rightarrow> fs" where
  "as_fs b = \<lparr>fs_start = b, inodes = 0, dentries = b + sizeof_efs_master_entry, data_blocks = 0\<rparr>"

lemma efs_read_dentry_by_index_fs: "efs_read_dentry_by_index b m i = read_dentry_by_index (as_fs b) m i"
  by (simp add: efs_read_dentry_by_index_def read_dentry_by_index_def as_fs_def get_num_dentries_def get_master_entry_addr_def
      dentry_addr_def efs_dentry_addr_def algebra_simps)

lemma efs_find_dentry_fs: "efs_find_dentry b m fname tmp i = find_dentry (as_fs b) m fname i"
proof (induction i arbitrary: tmp rule: count_up_induct [where n = "load32 m b"])
  case (step i)
  have n: "get_num_dentries (as_fs b) m = load32 m b" by (simp add: as_fs_def get_num_dentries_def get_master_entry_addr_def)
  show ?case
  proof (cases "i < load32 m b")
    case True
    then have r: "read_dentry_by_index (as_fs b) m i = (0, Some (load_dentry m (dentry_addr (as_fs b) i)))"
      by (simp add: read_dentry_by_index_def n)
    show ?thesis unfolding efs_find_dentry.simps [of b m fname tmp i] find_dentry.simps [of "as_fs b" m fname i] n efs_read_dentry_by_index_fs r
      using True step [OF True] by simp
  next
    case False
    then show ?thesis unfolding efs_find_dentry.simps [of b m fname tmp i] find_dentry.simps [of "as_fs b" m fname i] n by simp
  qed
qed

text \<open>Looking a name up in a directory block is the lookup of the read-only file system, with the entries at byte 60.\<close>

theorem efs_read_dentry_by_name_fs: "efs_read_dentry_by_name b m fname = read_dentry_by_name (as_fs b) m fname"
  unfolding efs_read_dentry_by_name_def read_dentry_by_name_def efs_find_dentry_fs ..

section \<open>Data cannot be read or written\<close>

text \<open>
  Every request for at least one byte inside of the file fails, in both directions, and no request
  changes memory: the stub for the number of data blocks returns 0, so that no block is valid.
\<close>

theorem efs_data_fails:
  "efs_read_data b inode offset buf len m =
     (m, if load32 m inode div 4096 > 1023 then - 1 else if offset \<ge> load32 m inode \<or> len = 0 then 0 else - 1)
   \<and> efs_write_data b inode offset buf len m = efs_read_data b inode offset buf len m"
proof
  let ?l = "load32 m inode" and ?len = "if len > load32 m inode - offset then load32 m inode - offset else len"
  show "efs_read_data b inode offset buf len m = (m, if ?l div 4096 > 1023 then - 1 else if offset \<ge> ?l \<or> len = 0 then 0 else - 1)"
  proof (cases "?l div 4096 > 1023 \<or> offset > ?l")
    case True
    then show ?thesis by (auto simp: efs_read_data_def)
  next
    case False
    then have "unat (?l div 4096) \<le> 1023" "offset \<le> ?l" by (simp_all add: word_less_nat_alt word_le_nat_alt not_less)
    then have "unat ?l div 4096 \<le> 1023" by (simp add: unat_div)
    then have "unat ?l < 4194304" by linarith
    then have "unat ?len < 2147483648" using \<open>offset \<le> ?l\<close> unat_sub [of offset ?l] by (auto simp: word_less_nat_alt)
    then have "0 <s ?len \<longleftrightarrow> ?len \<noteq> 0" by (rule sless_small)
    moreover have "?len = 0 \<longleftrightarrow> offset \<ge> ?l \<or> len = 0" using \<open>offset \<le> ?l\<close> by (auto simp: word_gt_0)
    ultimately show ?thesis using False
      unfolding efs_read_data_def Let_def efs_copy_loop.simps [of b inode offset buf ?len 0 m] by (auto simp: efs_num_data_blocks_def)
  qed
  show "efs_write_data b inode offset buf len m = efs_read_data b inode offset buf len m"
    by (simp add: efs_read_data_def efs_write_data_def)
qed

section \<open>A new file system\<close>

lemma fold_clear:
  "fold (\<lambda>i m. m(block_map b i := 0)) is m a = (if a \<in> block_map b ` set is then 0 else m a)"
  by (induction "is" arbitrary: m) auto

lemma block_map_offset: "i < 4092 \<Longrightarrow> block_map b i = b + of_nat (i + 4)"
  by (simp add: block_map_def)

text \<open>The bytes of a new file system by their offset; the block of the root directory lies inside of the map of used blocks.\<close>

definition cleared :: "u32 \<Rightarrow> memory \<Rightarrow> memory" where
  "cleared b m = fold (\<lambda>i m. m(block_map b i := 0)) [1..<4092] (m(block_map b 0 := 1))"

lemma cleared_at:
  assumes "5 \<le> k" "k < 4096" shows "cleared b m (b + of_nat k) = 0"
proof -
  have "b + of_nat k = block_map b (k - 4)" using assms by (simp add: block_map_def of_nat_diff)
  moreover have "k - 4 \<in> set [1..<4092]" using assms by auto
  ultimately show ?thesis unfolding cleared_def fold_clear by simp
qed

lemma new_block_first:
  "efs_get_new_block b (store32 (cleared b m) b 1) = (store32 ((store32 (cleared b m) b 1)(b + 5 := 1)) b 2, 1)"
proof -
  have one: "1 < (4092 :: nat)" and f: "block_map b 1 = b + 5" by (simp_all add: block_map_def)
  have "store32 (cleared b m) b 1 (b + 5) = cleared b m (b + of_nat 5)" by (simp add: store32_def store_bytes_def)
  then have "store32 (cleared b m) b 1 (block_map b 1) = 0" unfolding f using cleared_at [of 5 b m] by simp
  then have "List.find (\<lambda>i. store32 (cleared b m) b 1 (block_map b i) = 0) [1..<4092] = Some 1" unfolding upt_conv_Cons [OF one] by simp
  moreover have "load32 ((store32 (cleared b m) b 1)(b + 5 := 1)) b = load32 (store32 (cleared b m) b 1) b"
    by (rule load32_bytes, rule bytes_cong) (auto simp: span_def)
  ultimately show ?thesis using f by (simp add: efs_get_new_block_def Let_def load32_store32)
qed

text \<open>The whole new file system, as one sequence of stores.\<close>

definition new_root :: "u32 \<Rightarrow> memory \<Rightarrow> memory" where
  "new_root b m = put_dentry (b + 1148) [46, 46] 1 (put_dentry (b + 1084) [46] 1
     (store32 (store32 (store32 (store32 ((store32 (cleared b m) b 1)(b + 5 := 1)) b 2) (b + 1024) 2) (b + 1028) 0) (b + 1032) 0))"

lemma efs_new_stores: "efs_new b m = new_root b m"
  unfolding efs_new_def efs_mkdir_def Let_def cleared_def [symmetric] new_block_first new_root_def
  by (simp add: block_addr_def efs_dentry_addr_def sizeof_efs_master_entry_def sizeof_dentry_def add.assoc)

lemma new_root_at:
  "new_root b m (b + 5) = 1" "new_root b m (b + 1024) = 2" "load32 (new_root b m) b = 2" "load32 (new_root b m) (b + 1024) = 2"
  "new_root b m (b + 1084) = 46" "new_root b m (b + 1085) = 0"
  "new_root b m (b + 1148) = 46" "new_root b m (b + 1149) = 46" "new_root b m (b + 1150) = 0"
  "load32 (new_root b m) (b + 1116) = 1" "load32 (new_root b m) (b + 1120) = 1"
  "load32 (new_root b m) (b + 1180) = 1" "load32 (new_root b m) (b + 1184) = 1"
  by (simp_all add: new_root_def put_dentry_def copy_literal_def store32_def store_bytes_def word_bytes_def load32_def
      DENTRY_DIRECTORY_def add.assoc unsigned_minus_1_eq_mask mask_eq_exp_minus_1)

lemma new_root_names:
  "entry_name (as_fs (b + 1024)) (new_root b m) 0 = [46]" "entry_name (as_fs (b + 1024)) (new_root b m) 1 = [46, 46]"
proof -
  have "str (at (new_root b m) (b + 1084)) [46]" "str (at (new_root b m) (b + 1148)) [46, 46]"
    using new_root_at [of b m] by (simp_all add: str_def at_def less_Suc_eq add.assoc)
  then have "upto_nul 32 (at (new_root b m) (b + 1084)) = [46]" "upto_nul 32 (at (new_root b m) (b + 1148)) = [46, 46]"
    by (simp_all add: upto_nul_str)
  then show "entry_name (as_fs (b + 1024)) (new_root b m) 0 = [46]" "entry_name (as_fs (b + 1024)) (new_root b m) 1 = [46, 46]"
    by (simp_all add: entry_name_def dentry_addr_def as_fs_def sizeof_dentry_def sizeof_efs_master_entry_def add.assoc)
qed

text \<open>
  C40. In a new file system the root directory has the entries \<open>.\<close> and \<open>..\<close>, at bytes 60 and 124 of its block,
  directories whose block is the root's, and two blocks are counted as used. The block of the root lies inside of the map of used
  blocks, so that block 1020, which was never handed out, is marked as used.
\<close>

theorem efs_new_root:
  assumes "str fname bs" "bs = [46] \<or> bs = [46, 46]"
  shows "\<exists>d. efs_read_dentry_by_name (efs_get_root_dentry_block b) (efs_new b m) fname = Some (0, Some d) \<and>
      d = load_dentry (efs_new b m) (b + 1024 + (if bs = [46] then 60 else 124)) \<and>
      d_type d = DENTRY_DIRECTORY \<and> block_addr b (d_inode d) = efs_get_root_dentry_block b \<and>
    load32 (efs_new b m) b = 2 \<and> efs_new b m (block_map b 1) = 1 \<and> efs_new b m (block_map b 1020) = 2"
proof -
  let ?M = "new_root b m" and ?r = "b + 1024"
  have root: "efs_get_root_dentry_block b = ?r" by (simp add: efs_get_root_dentry_block_def block_addr_def)
  have "unat (get_num_dentries (as_fs ?r) ?M) = 2" by (simp add: as_fs_def get_num_dentries_def get_master_entry_addr_def new_root_at)
  moreover have "[0..<2] = [0, 1 :: nat]" by (simp add: upt_conv_Cons)
  ultimately have "efs_read_dentry_by_name ?r ?M fname =
      Some (0, Some (load_dentry ?M (?r + 60 + (if bs = [46] then 0 else 64))))"
    unfolding efs_read_dentry_by_name_fs read_dentry_by_name_cases [OF assms(1)]
    using assms(2) new_root_names [of b m] by (auto simp: dentry_addr_def as_fs_def sizeof_dentry_def sizeof_efs_master_entry_def)
  moreover have "block_map b 1 = b + 5" "block_map b 1020 = b + 1024" by (simp_all add: block_map_def)
  ultimately show ?thesis using new_root_at [of b m]
    by (simp add: efs_new_stores root load_dentry_def DENTRY_DIRECTORY_def block_addr_def add.assoc)
qed

theorem efs_new_root_witness:
  "\<exists>d. efs_read_dentry_by_name (efs_get_root_dentry_block 0x500000) (efs_new 0x500000 (\<lambda>_. 0xFF)) (\<lambda>i. if i = 0 then 46 else 0) = Some (0, Some d)"
proof -
  have "str (\<lambda>i. if i = 0 then 46 else 0) [46]" by (simp add: str_def)
  from efs_new_root [OF this, of "0x500000" "\<lambda>_. 0xFF"] show ?thesis by auto
qed

end
