(* ===== verification/Spec2Isabelle.thy ===== *)
theory Spec2Isabelle
  imports Userland Fish Efs Line_Editing
begin

text \<open>
  A verification of XiOS, a small 32-bit x86 kernel in C (\<^verbatim>\<open>src/student-distrib\<close>): ten
  terminals on one screen with line editing, history and scrollback, processes with their own page
  tables and a round-robin scheduler, a read-only file system, drivers for the clock, the timer,
  the mouse and a sound card, and twelve system calls.

  \<^bold>\<open>Theories and sources.\<close>

  \<^item> \<open>Prelude\<close>: bytes and words of a flat memory, collections of rewrite rules. \<open>Dll\<close>: segments of
    doubly linked lists, shared by the allocator and the run queue.
  \<^item> \<open>Lib_Memory\<close>, \<open>Lib_String\<close>, \<open>Screen\<close>, \<open>Printf\<close>, \<open>Exceptions\<close>: \<^verbatim>\<open>lib.c\<close>. Memory primitives at
    the level of their inline assembly; strings and \<open>itoa\<close>; coordinates and attributes; \<open>printf\<close>,
    which is shown equal to a rendering function; the exception handlers.
  \<^item> \<open>Kmem\<close>: \<^verbatim>\<open>mem.c\<close>. The region array with its two sorted lists; a refinement to lists of blocks,
    the locale \<open>allocator\<close> states the contract and is interpreted on \<open>kmalloc\<close> and \<open>kfree\<close>.
  \<^item> \<open>Filesystem\<close>: \<^verbatim>\<open>fs.c\<close> over the bytes of the image; the locale \<open>sequential_reader\<close> (reading until
    nothing comes gives the contents) is interpreted on open files here and on descriptors in \<open>Files\<close>.
  \<^item> \<open>Task_Queue\<close>, \<open>Process\<close>: \<^verbatim>\<open>task.c\<close>. The run queue and the scheduler's choice (locale
    \<open>rotating_queue\<close>); creating, loading, switching and closing processes.
  \<^item> \<open>Paging\<close>: \<^verbatim>\<open>paging.c\<close>, with the processor's address translation \<open>walk\<close> as the meaning of the tables.
  \<^item> \<open>Pic\<close>, \<open>Interrupt\<close>, \<open>Spinlock\<close>, \<open>Rtc\<close>, \<open>Pit\<close>: \<^verbatim>\<open>i8259.c\<close>, \<^verbatim>\<open>interrupt.c\<close>, \<^verbatim>\<open>spinlock.c\<close>,
    \<^verbatim>\<open>rtc.c\<close>, \<^verbatim>\<open>pit.c\<close>. The lock is a step relation of any number of threads, with mutual exclusion by
    rule induction.
  \<^item> \<open>Mouse\<close>, \<open>Status\<close>: \<^verbatim>\<open>mouse.c\<close>, \<^verbatim>\<open>status.c\<close>. The click handlers work on the whole kernel, so the click
    on the bar and the mouse interrupt as a whole are in \<open>Process\<close>.
  \<^item> \<open>Terminal\<close>, \<open>Line_Editing\<close>, \<open>Scrollback\<close>, \<open>Console\<close>: \<^verbatim>\<open>keyboard.c\<close> and the output half of
    \<^verbatim>\<open>lib.c\<close>. The line editor refines a cursor in a list of characters; the key handler, the blocking
    read, tab completion and the switch of terminals work on the whole kernel.
  \<^item> \<open>Sb16\<close>, \<open>Sound\<close>: \<^verbatim>\<open>sb16.c\<close>. The port writes of the card and the DMA controllers; WAV headers and
    the double buffer.
  \<^item> \<open>Print_Frame\<close>: printing writes only to the screen and the current terminal's pages.
  \<^item> \<open>Fdc\<close>: \<^verbatim>\<open>fdc.c\<close>, over the bytes the controller answers and the transfers it makes. \<open>Efs\<close>: \<^verbatim>\<open>efs.c\<close>,
    an unfinished writable file system that nothing calls. \<open>Boot\<close>: \<^verbatim>\<open>kernel.c\<close>, the entry point, with the
    descriptors of \<^verbatim>\<open>x86_desc.h\<close>.
  \<^item> \<open>Kernel\<close>: the record of the kernel's global state. \<open>Files\<close>, \<open>Syscalls\<close>: \<^verbatim>\<open>syscall.c\<close> and
    \<^verbatim>\<open>shutdown.c\<close>. Descriptors and file calls (locale \<open>descriptor_table\<close>), then execute, halt, the other
    calls and the dispatch of interrupt 0x80.
  \<^item> \<open>Userlib\<close>, \<open>Programs\<close>: the support library and the programs of \<^verbatim>\<open>src/syscalls\<close> (shell, cat, ls,
    grep, hello, sched, pingpong and the sound programs) as functions of a record of system calls. The
    locales \<open>piecewise_reader\<close> and \<open>piecewise_editor\<close> say what \<open>cat\<close> and \<open>ls\<close> need of it. \<open>Write_Frame\<close>,
    \<open>Userland\<close>: writes to a terminal on the screen, and the record with the calls of the kernel, on which
    the locales are interpreted for an open file and for the directory.
  \<^item> \<open>Fish\<close>: \<^verbatim>\<open>fish.c\<close> and \<^verbatim>\<open>blink.S\<close>, an animation on the mapped video page. Its linked structures refine a
    list; a step relation of its commands and ticks has the invariant under which a tick returns.

  \<^bold>\<open>Conventions.\<close> A C structure is a record, a pointer to one is an index or an address with \<open>None\<close>
  for NULL, \<^verbatim>\<open>uint32_t\<close> and the other fixed widths are words that wrap, and \<^verbatim>\<open>int\<close> is \<open>int\<close> where the
  code stays far from its bounds. The result \<open>None\<close> is a fault of the C program (following NULL, an
  index outside of an array, an assertion) or a loop that does not end; loops without an obvious
  bound are partial functions into options. A device is the list of bytes written to its ports, or
  its registers; what it answers and what other tasks and interrupts do while a call waits are
  arguments, and waits for a device to become ready are taken to end. There is one flat memory:
  an address stands for the place the kernel's page tables give it, and only \<open>Paging\<close> and the
  properties about page tables speak of translation. The registers a switch saves are not
  modelled; the place where a process continues is (\<open>code_addr\<close>, \<open>jump\<close>, \<open>outcome\<close>).

  \<^bold>\<open>What is shown.\<close> The allocator keeps its invariant over any sequence of calls and returns zeroed
  blocks apart from all others; a line typed on the keyboard is what a read returns; editing keys
  act as a list editor; scrolling and paging lose nothing inside the scrollback; opening a file by name and
  reading to the end gives its contents; open takes the lowest free descriptor and fails when there is none or no such
  file; standard descriptors survive any sequence of file calls, and only an open of an entry of unknown type
  goes through an unset pointer; the mouse pointer moves as its packets say and leaves what is beneath it;
  a user page reaches only its own physical page; the scheduler switches to the first active task with
  its pages and stack; a program is loaded whole and where its page table has it; a halt resumes the
  parent's execute with the status; vidmap and getargs do what programs rely on; printf prints what its format
  says; the timer, the interrupt table, the DMA controller and the clock are programmed as asked; the boot code reads the
  floppy disk into the heap and makes it the file system; printing leaves the rest of memory alone; \<open>cat\<close> and
  \<open>ls\<close>, run on the modelled kernel, hand the contents of the file and the names of the directory to successful
  writes on descriptor 1 (recorded in a log beside the kernel); the
  list of the animation stays well formed, and every tick of it returns.
  Several theorems show where the code does not do what it means to: the run queue with no active
  task, the end of a sound file, a directory entry of unknown type, a command line with long arguments, a clock rate of 1024 Hz, a
  character of the animation in the corner of the screen.

  \<^bold>\<open>Bounds.\<close> \<open>kmem_runs\<close> speaks of up to 497 allocations, the region slots that remain beside the
  sentinels. File lengths in theorems are bounded by the 1023 blocks of an inode. \<open>read_all\<close> takes as
  many steps as the file has bytes and one more, which is enough as every read but the last returns
  at least one.

  \<^bold>\<open>Not modelled.\<close> The assembly of the kernel (\<^verbatim>\<open>boot.S\<close>, \<^verbatim>\<open>x86_desc.S\<close>); the code that is
  compiled out (\<open>DEBUG_FS\<close>); \<^verbatim>\<open>ece391sigtest.c\<close>, which tests signals that the kernel does not deliver; \<^verbatim>\<open>ece391emulate.c\<close>, which runs the calls on a Linux host. In \<open>Userland\<close> a
  call that resumes somewhere else than behind it (execute, halt, shutdown) is \<open>None\<close>; what these do to
  the kernel is in \<open>Syscalls\<close>.
\<close>

end
